(* ===== verification/Prelude.thy ===== *)
theory Prelude
  imports "HOL-Library.Word"
begin

section \<open>Prelude: errors, results, the mapped image\<close>

text \<open>
  What every component shares: the exceptions of \<open>include/psf.h\<close>, the other ways a C++
  run of the library ends abnormally, the result type with its sequencing operator, checked
  arithmetic on C++'s 32-bit \<open>int\<close>, and the read-only image of the file with bounds-checked
  reads. Pointers into the mapping are \<open>int\<close> offsets from its start (the code does move
  pointers backwards), so \<open>buf\<close> of the source is an \<open>int\<close> here.
\<close>

named_theorems res_simps \<open>equations that invert a sequenced result\<close>
named_theorems seg_simps \<open>equations that split an occurrence of bytes in the image\<close>
named_theorems decodes \<open>a reader returns what the specified encoding holds\<close>

subsection \<open>Abnormal ends of a run\<close>

text \<open>
  \<open>exn\<close> holds the classes of \<open>psf.h\<close> and the three exceptions of the standard library
  that the code can raise: \<open>std::bad_cast\<close> from a \<open>dynamic_cast\<close> to a reference,
  \<open>std::out_of_range\<close> from \<open>vector::at\<close>, \<open>std::length_error\<close> from a string or
  vector of impossible size. \<open>undef\<close> names the undefined behaviour the code can reach: the
  model stops there, since nothing can be said of what the program does next.
\<close>

datatype exn =
    IncorrectChunk int
  | UnknownType int
  | NotImplemented
  | FileOpenError
  | InvalidFileError
  | FileCloseError
  | NotFound
  | DataSetNotOpen
  | PropertyNotFound
  | BadCast
  | OutOfRange
  | LengthError

datatype undef =
    OutOfBounds \<comment> \<open>an access outside the mapped file, or outside a vector with \<open>[]\<close>\<close>
  | EndIterator \<comment> \<open>an end iterator dereferenced\<close>
  | NullPointer
  | NoReturn \<comment> \<open>control flows off the end of a function that returns a value\<close>
  | Uninitialised
  | SignedOverflow
  | BadConversion \<comment> \<open>a floating-point or decimal value outside \<open>int\<close>\<close>
  | WrongType \<comment> \<open>an object accessed through a pointer to another class\<close>
  | UseAfterFree \<comment> \<open>an object read after it was deleted, or memory after it was unmapped\<close>

datatype error =
    Throw exn
  | Abort \<comment> \<open>a failed \<open>assert\<close>\<close>
  | Undefined undef

type_synonym 'a res = "error + 'a"

definition rbind :: "'a res \<Rightarrow> ('a \<Rightarrow> 'b res) \<Rightarrow> 'b res" where
  "rbind m f = (case m of Inl e \<Rightarrow> Inl e | Inr x \<Rightarrow> f x)"

lemma rbind_Inl [simp]: "rbind (Inl e) f = Inl e"
  by (simp add: rbind_def)

lemma rbind_Inr [simp]: "rbind (Inr x) f = f x"
  by (simp add: rbind_def)

lemma rbind_eq_Inr [res_simps]: "rbind m f = Inr y \<longleftrightarrow> (\<exists>x. m = Inr x \<and> f x = Inr y)"
  by (cases m) (simp_all add: rbind_def)

lemma rbind_eq_Inl [res_simps]:
  "rbind m f = Inl e \<longleftrightarrow> m = Inl e \<or> (\<exists>x. m = Inr x \<and> f x = Inl e)"
  by (cases m) (simp_all add: rbind_def)

lemma rbind_cong [fundef_cong]:
  assumes "m = m'" and "\<And>x. m' = Inr x \<Longrightarrow> f x = f' x"
  shows "rbind m f = rbind m' f'"
  using assms by (cases m') (simp_all add: rbind_def)

lemma rbind_assoc: "rbind (rbind m f) g = rbind m (\<lambda>x. rbind (f x) g)"
  by (cases m) simp_all

lemma if_Inl_eq_Inr [res_simps]: "(if c then Inl e else r) = Inr y \<longleftrightarrow> \<not> c \<and> r = Inr y"
  by simp

lemma if_Inr_eq_Inr [res_simps]: "(if c then r else Inl e) = Inr y \<longleftrightarrow> c \<and> r = Inr y"
  by simp

text \<open>\<open>fails_in E r\<close>: if the run ends abnormally, then with an error of \<open>E\<close>.\<close>

definition fails_in :: "error set \<Rightarrow> 'a res \<Rightarrow> bool" where
  "fails_in E r \<longleftrightarrow> (\<forall>e. r = Inl e \<longrightarrow> e \<in> E)"

named_theorems fails_intros \<open>which errors an operation can end with\<close>

lemma fails_in_Inr [simp, fails_intros]: "fails_in E (Inr x)"
  by (simp add: fails_in_def)

lemma fails_in_Inl [simp]: "fails_in E (Inl e) \<longleftrightarrow> e \<in> E"
  by (simp add: fails_in_def)

lemma fails_in_rbind [fails_intros]:
  "fails_in E m \<Longrightarrow> (\<And>x. m = Inr x \<Longrightarrow> fails_in E (f x)) \<Longrightarrow> fails_in E (rbind m f)"
  by (auto simp: fails_in_def rbind_eq_Inl)

lemma fails_in_if [fails_intros]:
  "(c \<Longrightarrow> fails_in E a) \<Longrightarrow> (\<not> c \<Longrightarrow> fails_in E b) \<Longrightarrow> fails_in E (if c then a else b)"
  by simp

lemma fails_in_prod [fails_intros]:
  "(\<And>x y. p = (x, y) \<Longrightarrow> fails_in E (f x y)) \<Longrightarrow> fails_in E (case p of (x, y) \<Rightarrow> f x y)"
  by (cases p) simp

lemma fails_in_option [fails_intros]:
  "(x = None \<Longrightarrow> fails_in E a) \<Longrightarrow> (\<And>y. x = Some y \<Longrightarrow> fails_in E (b y)) \<Longrightarrow>
     fails_in E (case x of None \<Rightarrow> a | Some y \<Rightarrow> b y)"
  by (cases x) simp_all

lemma fails_in_mono: "fails_in E r \<Longrightarrow> E \<subseteq> E' \<Longrightarrow> fails_in E' r"
  by (auto simp: fails_in_def)

subsection \<open>C++ \<open>int\<close>\<close>

text \<open>
  A C++ \<open>int\<close> is an \<open>int\<close> of the model; where the source adds or multiplies values that
  come from the file the result is checked, because signed overflow is undefined.
\<close>

definition int_range :: "int \<Rightarrow> bool" where
  "int_range x \<longleftrightarrow> - (2 ^ 31) \<le> x \<and> x < 2 ^ 31"

lemma int_range_small [simp]: "int_range 0" "int_range 1" "int_range (- 1)"
  by (simp_all add: int_range_def)

definition c_int :: "int \<Rightarrow> int res" where
  "c_int x = (if int_range x then Inr x else Inl (Undefined SignedOverflow))"

lemma c_int_Inr [simp]: "c_int x = Inr y \<longleftrightarrow> int_range x \<and> y = x"
  by (auto simp: c_int_def)

lemma c_int_Inl [simp]: "c_int x = Inl e \<longleftrightarrow> \<not> int_range x \<and> e = Undefined SignedOverflow"
  by (auto simp: c_int_def)

lemma int_range_sint [simp]: "int_range (sint (w :: 32 word))"
  using sint_greater_eq [of w] sint_lt [of w] by (simp add: int_range_def)

lemma sint_of_int_range [simp]: "int_range x \<Longrightarrow> sint (word_of_int x :: 32 word) = x"
  by (simp add: int_range_def signed_of_int signed_take_bit_int_eq_self)

lemma sint_of_nat_range [simp]: "int_range (int n) \<Longrightarrow> sint (word_of_nat n :: 32 word) = int n"
  using sint_of_int_range [of "int n"] by simp

lemma c_int_ok [simp]: "int_range x \<Longrightarrow> c_int x = Inr x"
  by (simp add: c_int_def)

subsection \<open>The image of the file\<close>

type_synonym image = "8 word list"

definition read_bytes :: "image \<Rightarrow> int \<Rightarrow> nat \<Rightarrow> (8 word list) res" where
  "read_bytes img buf n =
     (if 0 \<le> buf \<and> buf + int n \<le> int (length img)
      then Inr (take n (drop (nat buf) img))
      else Inl (Undefined OutOfBounds))"

text \<open>\<open>seg img buf bs\<close>: the bytes \<open>bs\<close> stand in the image at offset \<open>buf\<close>.\<close>

definition seg :: "image \<Rightarrow> int \<Rightarrow> 8 word list \<Rightarrow> bool" where
  "seg img buf bs \<longleftrightarrow>
     0 \<le> buf \<and> buf + int (length bs) \<le> int (length img)
     \<and> take (length bs) (drop (nat buf) img) = bs"

lemma seg_append [seg_simps]:
  "seg img buf (xs @ ys) \<longleftrightarrow> seg img buf xs \<and> seg img (buf + int (length xs)) ys"
proof -
  have "take (length xs + length ys) (drop (nat buf) img) = xs @ ys \<longleftrightarrow>
      take (length xs) (drop (nat buf) img) = xs \<and>
      take (length ys) (drop (length xs + nat buf) img) = ys"
    if "int (length xs) + buf \<le> int (length img)" "0 \<le> buf"
  proof -
    from that have "length (take (length xs) (drop (nat buf) img)) = length xs"
      by simp
    then show ?thesis by (simp add: take_add append_eq_append_conv)
  qed
  then show ?thesis
    by (auto simp: seg_def nat_add_distrib add.commute)
qed

lemma seg_nonneg: "seg img buf bs \<Longrightarrow> 0 \<le> buf"
  by (simp add: seg_def)

lemma seg_bound: "seg img buf bs \<Longrightarrow> buf + int (length bs) \<le> int (length img)"
  by (simp add: seg_def)

lemma seg_intro: "seg (pre @ bs @ post) (int (length pre)) bs"
  by (simp add: seg_def)

lemma seg_here: "seg (bs @ post) 0 bs"
  by (simp add: seg_def)

lemma read_bytes_seg [decodes]: "seg img buf bs \<Longrightarrow> n = length bs \<Longrightarrow> read_bytes img buf n = Inr bs"
  by (simp add: seg_def read_bytes_def)

lemma read_bytes_Inr:
  "read_bytes img buf n = Inr bs \<longleftrightarrow> seg img buf bs \<and> length bs = n"
  by (auto simp: read_bytes_def seg_def)

lemma read_bytes_Inl:
  "read_bytes img buf n = Inl e \<longleftrightarrow>
     e = Undefined OutOfBounds \<and> \<not> (0 \<le> buf \<and> buf + int n \<le> int (length img))"
  by (auto simp: read_bytes_def)

end
