(* ===== verification/Endian.thy ===== *)
theory Endian
  imports Prelude
begin

unbundle bit_operations_syntax

section \<open>Big-endian loads (src/psfendian.h, the macros of src/psfinternal.h)\<close>

text \<open>
  The macros \<open>GET_INT32\<close> and \<open>GET_DOUBLE\<close> load a word of the mapping as the host (little
  endian) sees it and swap it: \<open>ntohl\<close>, and \<open>be64toh\<close>, for which \<open>psfendian.h\<close> has a
  fallback that reads the bytes of the loaded word one by one. Doubles are kept as their 64-bit
  patterns. The lemmas show that both loads read the big-endian encoding, in both directions.
\<close>

subsection \<open>The host's view of memory\<close>

fun le_word :: "8 word list \<Rightarrow> 'a::len word" where
  "le_word [] = 0"
| "le_word (b # bs) = ucast b OR push_bit 8 (le_word bs)"

definition byte_of :: "nat \<Rightarrow> 'a::len word \<Rightarrow> 8 word" where
  "byte_of i w = ucast (drop_bit (8 * i) w)"

definition ntohl :: "32 word \<Rightarrow> 32 word" where
  "ntohl w = push_bit 24 (ucast (byte_of 0 w)) OR push_bit 16 (ucast (byte_of 1 w))
     OR push_bit 8 (ucast (byte_of 2 w)) OR ucast (byte_of 3 w)"

definition be64toh :: "64 word \<Rightarrow> 64 word" where
  "be64toh val =
     push_bit 56 (ucast (byte_of 0 val) AND 255) +
     push_bit 48 (ucast (byte_of 1 val) AND 255) +
     push_bit 40 (ucast (byte_of 2 val) AND 255) +
     push_bit 32 (ucast (byte_of 3 val) AND 255) +
     push_bit 24 (ucast (byte_of 4 val) AND 255) +
     push_bit 16 (ucast (byte_of 5 val) AND 255) +
     push_bit 8 (ucast (byte_of 6 val) AND 255) +
     (ucast (byte_of 7 val) AND 255)"

definition GET_INT32 :: "image \<Rightarrow> int \<Rightarrow> (32 word) res" where
  "GET_INT32 img buf = rbind (read_bytes img buf 4) (\<lambda>bs. Inr (ntohl (le_word bs)))"

definition GET_DOUBLE :: "image \<Rightarrow> int \<Rightarrow> (64 word) res" where
  "GET_DOUBLE img buf = rbind (read_bytes img buf 8) (\<lambda>bs. Inr (be64toh (le_word bs)))"

subsection \<open>The encoding the loads are specified by\<close>

definition enc32 :: "32 word \<Rightarrow> 8 word list" where
  "enc32 w = [byte_of 3 w, byte_of 2 w, byte_of 1 w, byte_of 0 w]"

definition enc64 :: "64 word \<Rightarrow> 8 word list" where
  "enc64 w = [byte_of 7 w, byte_of 6 w, byte_of 5 w, byte_of 4 w,
     byte_of 3 w, byte_of 2 w, byte_of 1 w, byte_of 0 w]"

lemma length_enc32 [simp]: "length (enc32 w) = 4"
  by (simp add: enc32_def)

lemma length_enc64 [simp]: "length (enc64 w) = 8"
  by (simp add: enc64_def)

lemma bit_byte_of [bit_simps]:
  "bit (byte_of i w) n \<longleftrightarrow> n < 8 \<and> bit w (8 * i + n)" for w :: "'a::len word"
  by (auto simp: byte_of_def bit_simps dest: bit_imp_le_length)

lemma bit_le_word [bit_simps]:
  "bit (le_word bs :: 'a::len word) n \<longleftrightarrow>
     n < LENGTH('a) \<and> n < 8 * length bs \<and> bit (bs ! (n div 8)) (n mod 8)"
proof (induction bs arbitrary: n)
  case Nil
  show ?case by simp
next
  case (Cons b bs)
  show ?case
  proof (cases "n < 8")
    case True
    then show ?thesis by (auto simp: bit_simps)
  next
    case False
    then have "n div 8 = Suc ((n - 8) div 8)" and "n mod 8 = (n - 8) mod 8"
      by (simp_all add: le_div_geq le_mod_geq)
    with False Cons.IH [of "n - 8"] show ?thesis
      by (auto simp: bit_simps dest: bit_imp_le_length)
  qed
qed

lemma byte_of_le_word:
  "8 * length bs \<le> LENGTH('a::len) \<Longrightarrow> i < length bs \<Longrightarrow> byte_of i (le_word bs :: 'a word) = bs ! i"
  by (rule bit_word_eqI) (auto simp: bit_simps)

lemma bit_shifted_byte:
  "bit (push_bit k (ucast (b :: 8 word) :: 'a::len word)) n \<longleftrightarrow>
     n < LENGTH('a) \<and> k \<le> n \<and> n - k < 8 \<and> bit b (n - k)"
  by (auto simp: bit_simps dest: bit_imp_le_length)

lemma ucast_byte_and_255 [simp]: "ucast (b :: 8 word) AND 255 = (ucast b :: 64 word)"
proof -
  have mask: "(255 :: 64 word) = mask 8" by (simp add: mask_eq_exp_minus_1)
  show ?thesis
    unfolding mask by (rule bit_word_eqI) (auto simp: bit_simps dest: bit_imp_le_length)
qed

text \<open>The shifted bytes occupy disjoint bits, so the sum of \<open>be64toh\<close> is a disjunction.\<close>

lemma add_push_byte:
  fixes x :: "64 word"
  assumes "\<And>n. bit x n \<Longrightarrow> k + 8 \<le> n"
  shows "x + push_bit k (ucast (b :: 8 word)) = x OR push_bit k (ucast b)"
proof (rule disjunctive_add_eq_or)
  show "x AND push_bit k (ucast b) = 0"
  proof (rule bit_word_eqI)
    fix n
    have "\<not> (bit x n \<and> k \<le> n \<and> bit b (n - k))"
      using assms [of n] bit_imp_le_length [of b "n - k"] by auto
    then show "bit (x AND push_bit k (ucast b)) n = bit (0 :: 64 word) n"
      by (auto simp: bit_simps)
  qed
qed

lemmas add_last_byte = add_push_byte [where k = 0, simplified]

lemma be64toh_or:
  "be64toh val =
     push_bit 56 (ucast (byte_of 0 val)) OR push_bit 48 (ucast (byte_of 1 val)) OR
     push_bit 40 (ucast (byte_of 2 val)) OR push_bit 32 (ucast (byte_of 3 val)) OR
     push_bit 24 (ucast (byte_of 4 val)) OR push_bit 16 (ucast (byte_of 5 val)) OR
     push_bit 8 (ucast (byte_of 6 val)) OR ucast (byte_of 7 val)"
  unfolding be64toh_def ucast_byte_and_255
  by (subst add_push_byte add_last_byte, (auto simp: bit_simps)[1])+ (simp add: or.assoc)

subsection \<open>The loads decode the big-endian encoding\<close>

text \<open>The octets of a swapped word, one at a time.\<close>

lemma byte_of_or: "byte_of i (x OR y) = byte_of i x OR byte_of i y"
  by (simp add: byte_of_def unsigned_or_eq drop_bit_or)

lemma byte_of_shifted:
  assumes "8 * j + 8 \<le> LENGTH('a::len)"
  shows "byte_of i (push_bit (8 * j) (ucast (b :: 8 word)) :: 'a word) = (if i = j then b else 0)"
proof (rule bit_word_eqI)
  fix n
  assume "n < LENGTH(8)"
  then have n: "n < 8" by simp
  have "i < j \<Longrightarrow> 8 * i + n < 8 * j" and "j < i \<Longrightarrow> 8 * j + 8 \<le> 8 * i + n"
    using n by linarith+
  then have "8 * j \<le> 8 * i + n \<and> 8 * i + n - 8 * j < 8 \<longleftrightarrow> i = j"
    using n by (cases i j rule: linorder_cases) auto
  moreover have "8 * i + n < LENGTH('a)" if "i = j"
    using assms n that by simp
  ultimately show "bit (byte_of i (push_bit (8 * j) (ucast b) :: 'a word)) n
      = bit (if i = j then b else 0) n"
    using n by (auto simp: bit_byte_of bit_shifted_byte)
qed

lemmas byte_of_shifts =
  byte_of_shifted [where j = 0, simplified] byte_of_shifted [where j = 1, simplified]
  byte_of_shifted [where j = 2, simplified] byte_of_shifted [where j = 3, simplified]
  byte_of_shifted [where j = 4, simplified] byte_of_shifted [where j = 5, simplified]
  byte_of_shifted [where j = 6, simplified] byte_of_shifted [where j = 7, simplified]

lemma enc32_be:
  "enc32 (push_bit 24 (ucast a) OR push_bit 16 (ucast b) OR push_bit 8 (ucast c) OR ucast d)
     = [a, b, c, d]"
  by (simp add: enc32_def byte_of_or byte_of_shifts)

lemma enc64_be:
  "enc64 (push_bit 56 (ucast a) OR push_bit 48 (ucast b) OR push_bit 40 (ucast c) OR
     push_bit 32 (ucast d) OR push_bit 24 (ucast e) OR push_bit 16 (ucast f) OR
     push_bit 8 (ucast g) OR ucast h) = [a, b, c, d, e, f, g, h]"
  by (simp add: enc64_def byte_of_or byte_of_shifts)

lemma enc32_ntohl:
  assumes "length bs = 4"
  shows "enc32 (ntohl (le_word bs)) = bs"
proof -
  have "enc32 (ntohl (le_word bs)) = map (\<lambda>i. byte_of i (le_word bs :: 32 word)) [0, 1, 2, 3]"
    unfolding ntohl_def enc32_be by simp
  also have "\<dots> = map ((!) bs) [0, 1, 2, 3]"
    using assms by (simp add: byte_of_le_word)
  also have "\<dots> = bs"
    using assms by (auto simp: length_Suc_conv numeral_eq_Suc)
  finally show ?thesis .
qed

lemma enc64_be64toh:
  assumes "length bs = 8"
  shows "enc64 (be64toh (le_word bs)) = bs"
proof -
  have "enc64 (be64toh (le_word bs)) = map (\<lambda>i. byte_of i (le_word bs :: 64 word)) [0, 1, 2, 3, 4, 5, 6, 7]"
    unfolding be64toh_or enc64_be by simp
  also have "\<dots> = map ((!) bs) [0, 1, 2, 3, 4, 5, 6, 7]"
    using assms by (simp add: byte_of_le_word)
  also have "\<dots> = bs"
    using assms by (auto simp: length_Suc_conv numeral_eq_Suc)
  finally show ?thesis .
qed

text \<open>A word is determined by its octets, so the encodings are injective.\<close>

lemma word_eq_octetsI:
  fixes x y :: "'a::len word"
  assumes "\<And>i. 8 * i < LENGTH('a) \<Longrightarrow> byte_of i x = byte_of i y"
  shows "x = y"
proof (rule bit_word_eqI)
  fix n
  assume n: "n < LENGTH('a)"
  have "8 * (n div 8) < LENGTH('a)" using n by (rule le_less_trans [rotated]) simp
  then have "bit (byte_of (n div 8) x) (n mod 8) = bit (byte_of (n div 8) y) (n mod 8)"
    by (simp add: assms)
  then show "bit x n = bit y n" by (simp add: bit_byte_of)
qed

lemma enc32_inject [simp]: "enc32 x = enc32 y \<longleftrightarrow> x = y"
proof
  assume eq: "enc32 x = enc32 y"
  show "x = y"
  proof (rule word_eq_octetsI)
    fix i :: nat
    assume "8 * i < LENGTH(32)"
    then have "i = 0 \<or> i = 1 \<or> i = 2 \<or> i = 3" by auto
    with eq show "byte_of i x = byte_of i y" by (auto simp: enc32_def)
  qed
qed simp

lemma enc64_inject [simp]: "enc64 x = enc64 y \<longleftrightarrow> x = y"
proof
  assume eq: "enc64 x = enc64 y"
  show "x = y"
  proof (rule word_eq_octetsI)
    fix i :: nat
    assume "8 * i < LENGTH(64)"
    then have "i = 0 \<or> i = 1 \<or> i = 2 \<or> i = 3 \<or> i = 4 \<or> i = 5 \<or> i = 6 \<or> i = 7" by auto
    with eq show "byte_of i x = byte_of i y" by (auto simp: enc64_def)
  qed
qed simp

lemma ntohl_enc32: "ntohl (le_word (enc32 w)) = w"
  using enc32_ntohl [of "enc32 w"] by simp

lemma be64toh_enc64: "be64toh (le_word (enc64 w)) = w"
  using enc64_be64toh [of "enc64 w"] by simp

lemma GET_INT32_iff: "GET_INT32 img buf = Inr w \<longleftrightarrow> seg img buf (enc32 w)"
proof
  assume "GET_INT32 img buf = Inr w"
  then obtain bs where bs: "seg img buf bs" "length bs = 4" and w: "w = ntohl (le_word bs)"
    by (auto simp: GET_INT32_def res_simps read_bytes_Inr)
  have "enc32 w = bs" unfolding w using bs(2) by (rule enc32_ntohl)
  with bs(1) show "seg img buf (enc32 w)" by simp
next
  assume "seg img buf (enc32 w)"
  then show "GET_INT32 img buf = Inr w"
    by (simp add: GET_INT32_def decodes ntohl_enc32)
qed

lemma GET_DOUBLE_iff: "GET_DOUBLE img buf = Inr w \<longleftrightarrow> seg img buf (enc64 w)"
proof
  assume "GET_DOUBLE img buf = Inr w"
  then obtain bs where bs: "seg img buf bs" "length bs = 8" and w: "w = be64toh (le_word bs)"
    by (auto simp: GET_DOUBLE_def res_simps read_bytes_Inr)
  have "enc64 w = bs" unfolding w using bs(2) by (rule enc64_be64toh)
  with bs(1) show "seg img buf (enc64 w)" by simp
next
  assume "seg img buf (enc64 w)"
  then show "GET_DOUBLE img buf = Inr w"
    by (simp add: GET_DOUBLE_def decodes be64toh_enc64)
qed

lemma GET_INT32_decodes [decodes]: "seg img buf (enc32 w) \<Longrightarrow> GET_INT32 img buf = Inr w"
  by (simp add: GET_INT32_iff)

lemma GET_DOUBLE_decodes [decodes]: "seg img buf (enc64 w) \<Longrightarrow> GET_DOUBLE img buf = Inr w"
  by (simp add: GET_DOUBLE_iff)

lemma GET_INT32_bounds:
  "GET_INT32 img buf = Inr w \<Longrightarrow> 0 \<le> buf \<and> buf + 4 \<le> int (length img)"
  using seg_nonneg [of img buf "enc32 w"] seg_bound [of img buf "enc32 w"]
  by (simp add: GET_INT32_iff)

lemma GET_INT32_Inl:
  "GET_INT32 img buf = Inl e \<longleftrightarrow>
     e = Undefined OutOfBounds \<and> \<not> (0 \<le> buf \<and> buf + 4 \<le> int (length img))"
  by (auto simp: GET_INT32_def res_simps read_bytes_Inl)

end
