(* ===== verification/Codec.thy ===== *)
theory Codec
  imports Endian
begin

section \<open>Readers and codecs: the interface of every \<open>deserialize\<close>\<close>

text \<open>
  A \<open>deserialize(const char *buf)\<close> of the source returns the object it read and the number
  of bytes it consumed. \<open>reader\<close> states what the callers rely on: a successful read started
  inside the image, consumed at least one word, and ended inside it but for the padding of a
  last string, which is skipped and not read. This is why the loops end. \<open>codec\<close> adds a
  specified encoding that the reader decodes wherever it stands in the image; injectivity,
  freedom of prefixes and unique decodability of sequences follow once for all of them.
\<close>

locale reader =
  fixes dec :: "image \<Rightarrow> int \<Rightarrow> ('a \<times> int) res"
  assumes dec_progress:
    "dec img buf = Inr (x, n) \<Longrightarrow>
       4 \<le> n \<and> 0 \<le> buf \<and> buf + 4 \<le> int (length img) \<and> buf + n \<le> int (length img) + 3"
begin

lemma dec_positive: "dec img buf = Inr (x, n) \<Longrightarrow> 0 < n"
  using dec_progress by fastforce

lemma dec_start: "dec img buf = Inr (x, n) \<Longrightarrow> 0 \<le> buf \<and> buf < int (length img)"
  using dec_progress by fastforce

text \<open>What is left of the image after a read: the measure of the loops.\<close>

lemma dec_measure:
  "dec img buf = Inr (x, n) \<Longrightarrow> nat (int (length img) - (buf + n)) < nat (int (length img) - buf)"
  using dec_progress [of img buf x n] by auto

end

locale codec = reader dec for dec :: "image \<Rightarrow> int \<Rightarrow> ('a \<times> int) res" +
  fixes enc :: "'a \<Rightarrow> 8 word list"
    and ok :: "'a \<Rightarrow> bool"
  assumes dec_enc:
    "ok x \<Longrightarrow> seg img buf (enc x) \<Longrightarrow> dec img buf = Inr (x, int (length (enc x)))"
begin

lemma dec_here: "ok x \<Longrightarrow> dec (enc x @ rest) 0 = Inr (x, int (length (enc x)))"
  by (rule dec_enc) (auto intro: seg_here)

lemma enc_nonempty: "ok x \<Longrightarrow> enc x \<noteq> []"
  using dec_here [of x "[]"] dec_positive by fastforce

lemma enc_prefix_free:
  assumes "ok x" and "ok y" and "enc x @ r = enc y @ s"
  shows "x = y \<and> r = s"
proof -
  have "dec (enc x @ r) 0 = Inr (x, int (length (enc x)))"
    using assms(1) by (rule dec_here)
  moreover have "dec (enc x @ r) 0 = Inr (y, int (length (enc y)))"
    unfolding assms(3) using assms(2) by (rule dec_here)
  ultimately have "x = y" by simp
  with assms(3) show ?thesis by simp
qed

lemma enc_inject: "ok x \<Longrightarrow> ok y \<Longrightarrow> enc x = enc y \<longleftrightarrow> x = y"
  using enc_prefix_free [of x y "[]" "[]"] by auto

lemma encs_inject:
  "\<forall>x \<in> set xs. ok x \<Longrightarrow> \<forall>y \<in> set ys. ok y \<Longrightarrow>
     concat (map enc xs) = concat (map enc ys) \<Longrightarrow> xs = ys"
proof (induction xs arbitrary: ys)
  case Nil
  then show ?case by (cases ys) (auto simp: enc_nonempty)
next
  case (Cons x xs)
  from Cons.prems obtain y ys' where ys: "ys = y # ys'"
    by (cases ys) (simp_all add: enc_nonempty)
  have "x = y \<and> concat (map enc xs) = concat (map enc ys')"
    by (rule enc_prefix_free) (use Cons.prems ys in simp_all)
  moreover from this have "xs = ys'"
    by (intro Cons.IH) (use Cons.prems ys in simp_all)
  ultimately show ?case using ys by simp
qed

end

end
