(* ===== verification/StdMap.thy ===== *)
theory StdMap
  imports Prelude "HOL-Library.Char_ord" "HOL-Library.List_Lexorder"
begin

section \<open>The associative containers (\<open>std::map\<close>, \<open>std::tr1::unordered_map\<close>)\<close>

text \<open>
  The library keeps its properties, its children by id and by name, the value offsets and the
  table of contents in maps, which it only fills with \<open>m[k] = v\<close>, searches with \<open>find\<close> and,
  for the ordered ones, iterates in key order. \<open>assoc_container\<close> and \<open>ordered_container\<close>
  state what the code relies on; the model's map is a list of pairs with strictly ascending
  keys, so that iteration order and equality are those of \<open>std::map\<close>. Strings are ordered by
  unsigned bytes, as \<open>std::string\<close> is (\<open>Char_ord\<close>, \<open>List_Lexorder\<close>).
\<close>

subsection \<open>The interface\<close>

locale assoc_container =
  fixes empty :: 'm
    and put :: "'k \<Rightarrow> 'v \<Rightarrow> 'm \<Rightarrow> 'm"
    and find :: "'m \<Rightarrow> 'k \<Rightarrow> 'v option"
    and invar :: "'m \<Rightarrow> bool"
  assumes find_empty: "find empty k = None"
    and invar_empty: "invar empty"
    and find_put: "invar m \<Longrightarrow> find (put k v m) k' = (if k' = k then Some v else find m k')"
    and invar_put: "invar m \<Longrightarrow> invar (put k v m)"
begin

text \<open>Filling a map from a sequence of pairs: the last pair with a key wins.\<close>

lemma invar_fill: "invar m \<Longrightarrow> invar (fold (\<lambda>(k, v). put k v) kvs m)"
  by (induction kvs arbitrary: m) (auto simp: invar_put)

lemma find_fill:
  "invar m \<Longrightarrow> find (fold (\<lambda>(k, v). put k v) kvs m) k =
     (case map_of (rev kvs) k of None \<Rightarrow> find m k | Some v \<Rightarrow> Some v)"
proof (induction kvs arbitrary: m)
  case Nil
  show ?case by simp
next
  case (Cons kv kvs)
  then show ?case
    by (cases kv) (auto simp: invar_put find_put map_add_def split: option.splits)
qed

lemma find_fill_distinct:
  assumes "invar m" and "distinct (map fst kvs)" and "(k, v) \<in> set kvs"
  shows "find (fold (\<lambda>(k, v). put k v) kvs m) k = Some v"
  using assms by (simp add: find_fill map_of_is_SomeI rev_map [symmetric])

lemma find_fill_other:
  assumes "invar m" and "k \<notin> fst ` set kvs"
  shows "find (fold (\<lambda>(k, v). put k v) kvs m) k = find m k"
proof -
  have "map_of (rev kvs) k = None"
    using assms(2) by (simp add: map_of_eq_None_iff)
  with assms(1) show ?thesis by (simp add: find_fill)
qed

end

locale ordered_container = assoc_container empty put find invar
  for empty :: 'm
    and put :: "'k::linorder \<Rightarrow> 'v \<Rightarrow> 'm \<Rightarrow> 'm"
    and find :: "'m \<Rightarrow> 'k \<Rightarrow> 'v option"
    and invar :: "'m \<Rightarrow> bool" +
  fixes entries :: "'m \<Rightarrow> ('k \<times> 'v) list"
  assumes entries_find: "invar m \<Longrightarrow> map_of (entries m) k = find m k"
    and entries_sorted: "invar m \<Longrightarrow> sorted_wrt (<) (map fst (entries m))"
begin

lemma entries_distinct: "invar m \<Longrightarrow> distinct (map fst (entries m))"
  using entries_sorted strict_sorted_iff by auto

text \<open>Iteration is determined by what the map holds, not by the order of the insertions.\<close>

lemma entries_unique:
  assumes m: "invar m" and m': "invar m'" and "\<And>k. find m k = find m' k"
  shows "entries m = entries m'"
proof (rule map_sorted_distinct_set_unique [where f = fst])
  have eq: "map_of (entries m) = map_of (entries m')"
    using assms by (auto simp: entries_find)
  show "set (entries m) = set (entries m')"
    using map_of_inject_set [OF entries_distinct [OF m] entries_distinct [OF m']] eq by simp
  then show "inj_on fst (set (entries m) \<union> set (entries m'))"
    using entries_distinct [OF m] by (simp add: distinct_map)
  show "sorted (map fst (entries m))" "distinct (map fst (entries m))"
    and "sorted (map fst (entries m'))" "distinct (map fst (entries m'))"
    using m m' entries_sorted strict_sorted_iff by auto
qed

end

subsection \<open>The model's map\<close>

type_synonym ('k, 'v) stdmap = "('k \<times> 'v) list"

fun map_put :: "'k::linorder \<Rightarrow> 'v \<Rightarrow> ('k, 'v) stdmap \<Rightarrow> ('k, 'v) stdmap" where
  "map_put k v [] = [(k, v)]"
| "map_put k v ((k', v') # m) =
     (if k < k' then (k, v) # (k', v') # m
      else if k = k' then (k, v) # m
      else (k', v') # map_put k v m)"

definition map_find :: "('k, 'v) stdmap \<Rightarrow> 'k \<Rightarrow> 'v option" where
  "map_find m k = map_of m k"

definition map_ok :: "('k::linorder, 'v) stdmap \<Rightarrow> bool" where
  "map_ok m \<longleftrightarrow> sorted_wrt (<) (map fst m)"

lemma map_find_Nil [simp]: "map_find [] k = None"
  by (simp add: map_find_def)

lemma map_find_Cons [simp]: "map_find ((k', v) # m) k = (if k = k' then Some v else map_find m k)"
  by (simp add: map_find_def)

lemma keys_map_put: "fst ` set (map_put k v m) = insert k (fst ` set m)"
  by (induction k v m rule: map_put.induct) auto

lemma map_ok_Nil [simp]: "map_ok []"
  by (simp add: map_ok_def)

lemma map_ok_Cons [simp]: "map_ok ((k, v) # m) \<longleftrightarrow> (\<forall>k' \<in> fst ` set m. k < k') \<and> map_ok m"
  by (simp add: map_ok_def)

lemma map_ok_put [simp]: "map_ok m \<Longrightarrow> map_ok (map_put k v m)"
  by (induction k v m rule: map_put.induct) (auto simp: keys_map_put)

lemma map_find_put: "map_find (map_put k v m) k' = (if k' = k then Some v else map_find m k')"
  by (induction k v m rule: map_put.induct) auto

lemma map_ok_distinct: "map_ok m \<Longrightarrow> distinct (map fst m)"
  using strict_sorted_iff by (auto simp: map_ok_def)

lemma map_find_in: "map_find m k = Some v \<Longrightarrow> (k, v) \<in> set m"
  by (simp add: map_find_def map_of_SomeD)

interpretation std_map: ordered_container "[]" map_put map_find map_ok "\<lambda>m. m"
proof unfold_locales
  show "sorted_wrt (<) (map fst m)" if "map_ok m" for m :: "('a, 'b) stdmap"
    using that by (simp add: map_ok_def)
qed (simp_all add: map_find_put, simp add: map_find_def)

text \<open>\<open>m[k]\<close> as a value: a missing key is created with a value-initialised element.\<close>

definition map_at :: "'v \<Rightarrow> ('k::linorder, 'v) stdmap \<Rightarrow> 'k \<Rightarrow> ('k, 'v) stdmap" where
  "map_at d m k = (if map_find m k = None then map_put k d m else m)"

lemma map_ok_at [simp]: "map_ok m \<Longrightarrow> map_ok (map_at d m k)"
  by (simp add: map_at_def)

lemma map_find_at:
  "map_find (map_at d m k) k' =
     (if k' = k then Some (case map_find m k of None \<Rightarrow> d | Some v \<Rightarrow> v) else map_find m k')"
  by (auto simp: map_at_def map_find_put split: option.splits)

subsection \<open>Indexes of a vector\<close>

text \<open>
  The containers keep a map from the names, or identifiers, of their children to positions,
  filled in the order of the children: a key stands for the last child that has it.
\<close>

definition index_map :: "'k::linorder list \<Rightarrow> ('k, int) stdmap" where
  "index_map ks = fold (\<lambda>(i, k). map_put k (int i)) (enumerate 0 ks) []"

lemma index_map_Nil [simp]: "index_map [] = []"
  by (simp add: index_map_def)

lemma index_map_snoc: "index_map (ks @ [k]) = map_put k (int (length ks)) (index_map ks)"
  by (simp add: index_map_def enumerate_append_eq)

lemma map_ok_index [simp]: "map_ok (index_map ks)"
  by (induction ks rule: rev_induct) (simp_all add: index_map_snoc)

lemma index_map_None: "map_find (index_map ks) k = None \<longleftrightarrow> k \<notin> set ks"
  by (induction ks rule: rev_induct) (simp_all add: index_map_snoc map_find_put)

lemma index_map_Some:
  "map_find (index_map ks) k = Some i \<Longrightarrow>
     0 \<le> i \<and> i < int (length ks) \<and> ks ! nat i = k \<and> (\<forall>j. nat i < j \<longrightarrow> j < length ks \<longrightarrow> ks ! j \<noteq> k)"
  by (induction ks rule: rev_induct)
    (auto simp: index_map_snoc map_find_put nth_append nat_less_iff split: if_splits)

lemma index_map_distinct:
  assumes "distinct ks" and "i < length ks"
  shows "map_find (index_map ks) (ks ! i) = Some (int i)"
proof -
  obtain j where j: "map_find (index_map ks) (ks ! i) = Some j"
    using assms(2) index_map_None [of ks "ks ! i"] by fastforce
  from index_map_Some [OF j] have "0 \<le> j" "ks ! nat j = ks ! i" "nat j < length ks"
    by auto
  with assms have "nat j = i" by (simp add: nth_eq_iff_index_eq)
  with j \<open>0 \<le> j\<close> show ?thesis by auto
qed

end
