(* ===== verification/Types.thy ===== *)
theory Types
  imports StdMap
begin

section \<open>The data model (include/psfdata.h, src/psfinternal.h)\<close>

text \<open>
  The classes that hold data, under their source names. A scalar object made by \<open>new\<close> has no
  determinate value before it is deserialized, except complex numbers, strings and structs,
  whose constructors initialise them: \<open>None\<close> is an indeterminate value. A \<open>Struct\<close> keeps a
  pointer to the definition it was made from (\<open>NULL\<close> is \<open>None\<close>) and a map from member names
  to scalars. Doubles are their bit patterns, strings are lists of bytes read as characters.
  The children of a \<open>StructDef\<close> are \<open>DataTypeDef\<close>s, since its factory makes nothing else.
\<close>

datatype scalar =
    PSFInt8Scalar "8 word option"
  | PSFInt32Scalar "32 word option"
  | PSFDoubleScalar "64 word option"
  | PSFComplexDoubleScalar "64 word" "64 word"
  | PSFStringScalar string
  | StructScalar struct
and struct = Struct (struct_def: "structdef option") (struct_map: "(string \<times> scalar) list")
and property =
  Property (prop_chunktype: int) (prop_name: string) (prop_value: "scalar option")
and propertyblock =
  PropertyBlock (m_proplist: "property list") (m_propmap: "(string \<times> scalar) list")
and datatypedef =
  DataTypeDef (td_id: int) (td_name: string) (td_datatypeid: int)
    (td_properties: propertyblock) (td_structdef: "structdef option") (td_datasize: int)
and structdef = StructDef (sd_children: "datatypedef list") (sd_datasize: int)

text \<open>The type identifiers of \<open>psfdata.h\<close>.\<close>

definition TYPEID_INT8 :: int where "TYPEID_INT8 = 1"
definition TYPEID_STRING :: int where "TYPEID_STRING = 2"
definition TYPEID_ARRAY :: int where "TYPEID_ARRAY = 3"
definition TYPEID_INT32 :: int where "TYPEID_INT32 = 5"
definition TYPEID_DOUBLE :: int where "TYPEID_DOUBLE = 11"
definition TYPEID_COMPLEXDOUBLE :: int where "TYPEID_COMPLEXDOUBLE = 12"
definition TYPEID_STRUCT :: int where "TYPEID_STRUCT = 16"

lemmas typeid_defs = TYPEID_INT8_def TYPEID_STRING_def TYPEID_ARRAY_def TYPEID_INT32_def
  TYPEID_DOUBLE_def TYPEID_COMPLEXDOUBLE_def TYPEID_STRUCT_def

subsection \<open>Strings as bytes\<close>

definition string_of_bytes :: "8 word list \<Rightarrow> string" where
  "string_of_bytes bs = map (\<lambda>b. char_of (unat b)) bs"

definition bytes_of_string :: "string \<Rightarrow> 8 word list" where
  "bytes_of_string s = map (\<lambda>c. word_of_nat (of_char c)) s"

lemma length_bytes_of_string [simp]: "length (bytes_of_string s) = length s"
  by (simp add: bytes_of_string_def)

lemma length_string_of_bytes [simp]: "length (string_of_bytes bs) = length bs"
  by (simp add: string_of_bytes_def)

lemma string_of_bytes_of_string [simp]: "string_of_bytes (bytes_of_string s) = s"
proof -
  have "unat (word_of_nat (of_char c) :: 8 word) = of_char c" for c :: char
    using of_char_mod_256 [of c, where 'a = nat] by (simp add: unat_of_nat)
  then show ?thesis by (simp add: string_of_bytes_def bytes_of_string_def comp_def)
qed

lemma bytes_of_string_of_bytes [simp]: "bytes_of_string (string_of_bytes bs) = bs"
proof -
  have "unat b mod 256 = unat b" for b :: "8 word"
    by (rule mod_less) (use unsigned_less [of b] in simp)
  then show ?thesis by (simp add: string_of_bytes_def bytes_of_string_def comp_def map_idI)
qed

end
