(* ===== verification/Scalars.thy ===== *)
theory Scalars
  imports Codec Types
begin

section \<open>Chunk markers and scalars (src/psfchunk.cc, src/psfdata.cc)\<close>

text \<open>
  \<open>Chunk::deserialize\<close>, the scalars' \<open>deserialize\<close> but for structs, which need the type
  definitions (\<open>StructData\<close>), and the conversions to \<open>int\<close>.
\<close>

subsection \<open>Chunk markers\<close>

text \<open>\<open>m_chunktype\<close> is \<open>-1\<close> for a class that does not set it: then any marker is accepted.\<close>

definition Chunk_deserialize :: "int \<Rightarrow> image \<Rightarrow> int \<Rightarrow> int res" where
  "Chunk_deserialize m_chunktype img buf =
     rbind (GET_INT32 img buf) (\<lambda>testtype.
       if m_chunktype \<noteq> -1 \<and> testtype \<noteq> word_of_int m_chunktype
       then Inl (Throw (IncorrectChunk (sint testtype)))
       else Inr 4)"

lemma Chunk_deserialize_Inr [res_simps]:
  "Chunk_deserialize t img buf = Inr n \<longleftrightarrow>
     n = 4 \<and> (\<exists>w. GET_INT32 img buf = Inr w \<and> (t \<noteq> -1 \<longrightarrow> w = word_of_int t))"
  by (auto simp: Chunk_deserialize_def rbind_eq_Inr split: if_splits)

lemma Chunk_deserialize_enc [decodes]:
  "seg img buf (enc32 (word_of_int t)) \<Longrightarrow> Chunk_deserialize t img buf = Inr 4"
  by (auto simp: Chunk_deserialize_def decodes)

text \<open>An encoded \<open>int\<close>.\<close>

definition enc_int :: "int \<Rightarrow> 8 word list" where
  "enc_int i = enc32 (word_of_int i)"

lemma length_enc_int [simp]: "length (enc_int i) = 4"
  by (simp add: enc_int_def)

lemma GET_INT32_enc_int [decodes]:
  "seg img buf (enc_int i) \<Longrightarrow> GET_INT32 img buf = Inr (word_of_int i)"
  by (simp add: enc_int_def decodes)

lemma Chunk_deserialize_enc_int [decodes]:
  "seg img buf (enc_int t) \<Longrightarrow> Chunk_deserialize t img buf = Inr 4"
  by (simp add: enc_int_def decodes)

subsection \<open>Strings\<close>

text \<open>
  The length is a signed \<open>int\<close>: a negative one makes \<open>std::string\<close> throw. The string is
  padded to a multiple of four bytes.
\<close>

definition String_deserialize :: "image \<Rightarrow> int \<Rightarrow> (string \<times> int) res" where
  "String_deserialize img buf =
     rbind (GET_INT32 img buf) (\<lambda>w. let len = sint w in
     if len < 0 then Inl (Throw LengthError)
     else rbind (read_bytes img (buf + 4) (nat len)) (\<lambda>bs.
     rbind (c_int (4 + len + and (4 - len) 3)) (\<lambda>n.
     Inr (string_of_bytes bs, n))))"

definition pad4 :: "nat \<Rightarrow> nat" where
  "pad4 n = (if n mod 4 = 0 then 0 else 4 - n mod 4)"

definition enc_string :: "string \<Rightarrow> 8 word list" where
  "enc_string s = enc_int (int (length s)) @ bytes_of_string s @ replicate (pad4 (length s)) 0"

definition string_ok :: "string \<Rightarrow> bool" where
  "string_ok s \<longleftrightarrow> int (length s) < 2 ^ 31 - 8"

lemma and_3: "and (x :: int) 3 = x mod 4"
  using take_bit_eq_mask [of 2 x] by (simp add: take_bit_eq_mod mask_eq_exp_minus_1)

lemma pad4_eq: "int (pad4 n) = and (4 - int n) 3"
  unfolding and_3 pad4_def by (simp add: of_nat_diff mod_le_divisor) presburger

lemma pad4_le: "pad4 n \<le> 3"
  unfolding pad4_def by presburger

lemma pad4_aligns: "4 dvd n + pad4 n"
  by (simp add: pad4_def) presburger

lemma length_enc_string [simp]: "length (enc_string s) = 4 + length s + pad4 (length s)"
  by (simp add: enc_string_def)

lemma string_ok_range: "string_ok s \<Longrightarrow> int_range (int (length s))"
  and string_ok_size_range:
    "string_ok s \<Longrightarrow> int_range (4 + int (length s) + int (pad4 (length s)))"
  using pad4_le [of "length s"] by (auto simp: string_ok_def int_range_def)

lemma String_deserialize_Inr:
  "String_deserialize img buf = Inr (s, n) \<Longrightarrow>
     n = 4 + int (length s) + int (pad4 (length s)) \<and> 0 \<le> buf
     \<and> buf + 4 + int (length s) \<le> int (length img)"
  by (auto simp: String_deserialize_def Let_def res_simps read_bytes_Inr pad4_eq
      dest: GET_INT32_bounds seg_bound split: if_splits)

lemma String_deserialize_enc [decodes]:
  assumes "string_ok s" and "seg img buf (enc_string s)"
  shows "String_deserialize img buf = Inr (s, int (length (enc_string s)))"
  using assms string_ok_range [OF assms(1)] string_ok_size_range [OF assms(1)]
  by (auto simp: String_deserialize_def enc_string_def seg_simps decodes Let_def pad4_eq)

lemma String_deserialize_progress:
  "String_deserialize img buf = Inr (s, n) \<Longrightarrow>
     4 \<le> n \<and> 0 \<le> buf \<and> buf + 4 \<le> int (length img) \<and> buf + n \<le> int (length img) + 3"
  using pad4_le [of "length s"] by (auto dest!: String_deserialize_Inr)

interpretation string_codec: codec String_deserialize enc_string string_ok
  by unfold_locales (erule String_deserialize_progress, rule String_deserialize_enc)

text \<open>
  The errors that stand for a malformed file, and the images whose size an \<open>int\<close> can hold with
  the padding of a last string. On those no length computation overflows.
\<close>

definition format_errors :: "error set" where
  "format_errors = {Undefined OutOfBounds, Throw LengthError}
     \<union> range (\<lambda>t. Throw (IncorrectChunk t)) \<union> range (\<lambda>t. Throw (UnknownType t))"

definition small_image :: "image \<Rightarrow> bool" where
  "small_image img \<longleftrightarrow> int (length img) \<le> 2 ^ 31 - 4"

lemma format_errorsI [simp]:
  "Undefined OutOfBounds \<in> format_errors" "Throw LengthError \<in> format_errors"
  "Throw (IncorrectChunk t) \<in> format_errors" "Throw (UnknownType t) \<in> format_errors"
  by (simp_all add: format_errors_def)

lemma fails_read_bytes [fails_intros]: "fails_in format_errors (read_bytes img buf n)"
  by (auto simp: fails_in_def read_bytes_Inl)

lemma fails_GET_INT32 [fails_intros]: "fails_in format_errors (GET_INT32 img buf)"
  unfolding GET_INT32_def by (intro fails_intros)

lemma fails_GET_DOUBLE [fails_intros]: "fails_in format_errors (GET_DOUBLE img buf)"
  unfolding GET_DOUBLE_def by (intro fails_intros)

lemma fails_Chunk [fails_intros]: "fails_in format_errors (Chunk_deserialize t img buf)"
  unfolding Chunk_deserialize_def by (intro fails_intros) simp_all

lemma fails_String [fails_intros]:
  assumes "small_image img"
  shows "fails_in format_errors (String_deserialize img buf)"
  unfolding String_deserialize_def Let_def
proof (intro fails_intros)
  fix w bs
  assume w: "GET_INT32 img buf = Inr w" and "\<not> sint w < 0"
    and bs: "read_bytes img (buf + 4) (nat (sint w)) = Inr bs"
  then have "0 \<le> sint w" and "0 \<le> buf" and "buf + 4 + sint w \<le> int (length img)"
    using GET_INT32_bounds [OF w] seg_bound [of img "buf + 4" bs] by (auto simp: read_bytes_Inr)
  then have "int_range (4 + sint w + and (4 - sint w) 3)"
    using assms pos_mod_bound [of 4 "4 - sint w"] pos_mod_sign [of 4 "4 - sint w"]
    by (simp add: small_image_def int_range_def and_3)
  then show "fails_in format_errors (c_int (4 + sint w + and (4 - sint w) 3))"
    by simp
qed simp_all

subsection \<open>Scalars that are not structs\<close>

text \<open>
  \<open>deserialize\<close> of the numbers and strings, as a method of an existing object. An 8-bit value
  is the last byte of its word. The complex specialisation stores one double into the object,
  that is into its real part, and reports 8 bytes.
\<close>

definition Int8Scalar_deserialize :: "image \<Rightarrow> int \<Rightarrow> (scalar \<times> int) res" where
  "Int8Scalar_deserialize img buf =
     rbind (read_bytes img (buf + 3) 1) (\<lambda>bs. Inr (PSFInt8Scalar (Some (hd bs)), 4))"

definition Int32Scalar_deserialize :: "image \<Rightarrow> int \<Rightarrow> (scalar \<times> int) res" where
  "Int32Scalar_deserialize img buf =
     rbind (GET_INT32 img buf) (\<lambda>w. Inr (PSFInt32Scalar (Some w), 4))"

definition DoubleScalar_deserialize :: "image \<Rightarrow> int \<Rightarrow> (scalar \<times> int) res" where
  "DoubleScalar_deserialize img buf =
     rbind (GET_DOUBLE img buf) (\<lambda>w. Inr (PSFDoubleScalar (Some w), 8))"

definition ComplexDoubleScalar_deserialize ::
    "64 word \<Rightarrow> image \<Rightarrow> int \<Rightarrow> (scalar \<times> int) res" where
  "ComplexDoubleScalar_deserialize im img buf =
     rbind (GET_DOUBLE img buf) (\<lambda>w. Inr (PSFComplexDoubleScalar w im, 8))"

definition StringScalar_deserialize :: "image \<Rightarrow> int \<Rightarrow> (scalar \<times> int) res" where
  "StringScalar_deserialize img buf =
     rbind (String_deserialize img buf) (\<lambda>(s, n). Inr (PSFStringScalar s, n))"

subsection \<open>Conversion to \<open>int\<close>\<close>

text \<open>
  \<open>(int)value\<close> of a double: the value is \<open>mantissa * 2 ^ exponent\<close>, truncated towards zero;
  infinities, NaNs and values outside \<open>int\<close> are undefined.
\<close>

definition double_mantissa :: "64 word \<Rightarrow> int" where
  "double_mantissa w =
     (if take_bit 11 (uint (drop_bit 52 w)) = 0 then take_bit 52 (uint w)
      else 2 ^ 52 + take_bit 52 (uint w))"

definition double_exponent :: "64 word \<Rightarrow> int" where
  "double_exponent w = max 1 (take_bit 11 (uint (drop_bit 52 w))) - 1075"

definition double_finite :: "64 word \<Rightarrow> bool" where
  "double_finite w \<longleftrightarrow> take_bit 11 (uint (drop_bit 52 w)) \<noteq> 2047"

definition double_magnitude :: "64 word \<Rightarrow> int" where
  "double_magnitude w =
     (if 0 \<le> double_exponent w then double_mantissa w * 2 ^ nat (double_exponent w)
      else double_mantissa w div 2 ^ nat (- double_exponent w))"

definition double_to_int :: "64 word \<Rightarrow> int res" where
  "double_to_int w =
     (let i = (if bit w 63 then - double_magnitude w else double_magnitude w)
      in if double_finite w \<and> int_range i then Inr i else Inl (Undefined BadConversion))"

text \<open>\<open>atoi(value.c_str())\<close>: white space, a sign, digits up to the first other character.\<close>

definition isspace :: "char \<Rightarrow> bool" where
  "isspace c \<longleftrightarrow> of_char c = (32::nat) \<or> of_char c \<in> {9..13::nat}"

definition isdigit :: "char \<Rightarrow> bool" where
  "isdigit c \<longleftrightarrow> of_char c \<in> {48..57::nat}"

definition digits_value :: "string \<Rightarrow> int" where
  "digits_value s = foldl (\<lambda>a c. 10 * a + (of_char c - 48)) 0 s"

definition atoi :: "string \<Rightarrow> int res" where
  "atoi s =
     (let s = dropWhile isspace s;
          negative = (s \<noteq> [] \<and> hd s = CHR ''-'');
          s = (if s \<noteq> [] \<and> hd s \<in> {CHR ''-'', CHR ''+''} then tl s else s);
          v = digits_value (takeWhile isdigit s);
          i = (if negative then - v else v)
      in if int_range i then Inr i else Inl (Undefined BadConversion))"

fun scalar_to_int :: "scalar \<Rightarrow> int res" where
  "scalar_to_int (PSFInt8Scalar (Some b)) = Inr (sint b)"
| "scalar_to_int (PSFInt32Scalar (Some w)) = Inr (sint w)"
| "scalar_to_int (PSFDoubleScalar (Some d)) = double_to_int d"
| "scalar_to_int (PSFComplexDoubleScalar re im) = Inl (Throw NotImplemented)"
| "scalar_to_int (PSFStringScalar s) = atoi s"
| "scalar_to_int (StructScalar s) = Inr (-1)"
| "scalar_to_int _ = Inl (Undefined Uninitialised)"

lemma scalar_to_int_range: "scalar_to_int v = Inr i \<Longrightarrow> int_range i"
proof (cases v rule: scalar_to_int.cases)
  case (1 b)
  assume "scalar_to_int v = Inr i"
  with 1 show ?thesis
    using sint_greater_eq [of b] sint_lt [of b] by (simp add: int_range_def)
qed (auto simp: double_to_int_def atoi_def Let_def split: if_splits)

end
