(* ===== verification/Properties.thy ===== *)
theory Properties
  imports Scalars
begin

section \<open>Properties and property blocks (src/psfproperty.cc, src/psfpropertyblock.cc)\<close>

text \<open>
  A property is a name with a string, 32-bit or double value, and the chunk type says which. A
  property block keeps the properties in order and a map of their values by name; the two are
  written together by \<open>append_prop\<close> and must agree (\<open>block_wf\<close>).
\<close>

subsection \<open>A property\<close>

definition property_ischunk :: "int \<Rightarrow> bool" where
  "property_ischunk chunktype \<longleftrightarrow> chunktype \<ge> 33 \<and> chunktype \<le> 35"

definition Property_value_deserialize :: "int \<Rightarrow> image \<Rightarrow> int \<Rightarrow> (scalar option \<times> int) res" where
  "Property_value_deserialize chunktype img buf =
     (if chunktype = 33 then rbind (StringScalar_deserialize img buf) (\<lambda>(v, n). Inr (Some v, n))
      else if chunktype = 34 then rbind (Int32Scalar_deserialize img buf) (\<lambda>(v, n). Inr (Some v, n))
      else if chunktype = 35 then rbind (DoubleScalar_deserialize img buf) (\<lambda>(v, n). Inr (Some v, n))
      else Inr (None, 0))"

definition Property_deserialize :: "image \<Rightarrow> int \<Rightarrow> (property \<times> int) res" where
  "Property_deserialize img startbuf =
     rbind (GET_INT32 img startbuf) (\<lambda>w. let m_chunktype = sint w; buf = startbuf + 4 in
     if \<not> property_ischunk m_chunktype then Inl (Throw (IncorrectChunk m_chunktype))
     else rbind (String_deserialize img buf) (\<lambda>(m_name, n). let buf = buf + n in
     rbind (Property_value_deserialize m_chunktype img buf) (\<lambda>(m_value, n). let buf = buf + n in
     Inr (Property m_chunktype m_name m_value, buf - startbuf))))"

text \<open>
  The copy constructor copies the name only together with a value, and leaves the chunk type
  at the \<open>-1\<close> of \<open>Chunk()\<close>.
\<close>

fun Property_copy :: "property \<Rightarrow> property" where
  "Property_copy (Property t name (Some v)) = Property (-1) name (Some v)"
| "Property_copy (Property t name None) = Property (-1) '''' None"

subsection \<open>A property block\<close>

definition empty_block :: propertyblock where
  "empty_block = PropertyBlock [] []"

definition PropertyBlock_find :: "propertyblock \<Rightarrow> string \<Rightarrow> scalar res" where
  "PropertyBlock_find pb name =
     (case map_find (m_propmap pb) name of
        None \<Rightarrow> Inl (Throw PropertyNotFound)
      | Some v \<Rightarrow> Inr v)"

definition PropertyBlock_hasprop :: "propertyblock \<Rightarrow> string \<Rightarrow> bool" where
  "PropertyBlock_hasprop pb name \<longleftrightarrow> map_find (m_propmap pb) name \<noteq> None"

definition PropertyBlock_findprop :: "propertyblock \<Rightarrow> string \<Rightarrow> property res" where
  "PropertyBlock_findprop pb name =
     (case List.find (\<lambda>p. prop_name p = name) (m_proplist pb) of
        None \<Rightarrow> Inl (Undefined EndIterator)
      | Some p \<Rightarrow> Inr p)"

definition append_prop :: "propertyblock \<Rightarrow> property \<Rightarrow> propertyblock res" where
  "append_prop pb prop =
     (case prop_value prop of
        None \<Rightarrow> Inl (Undefined NullPointer)
      | Some v \<Rightarrow> Inr (PropertyBlock (m_proplist pb @ [Property_copy prop])
          (map_put (prop_name prop) v (m_propmap pb))))"

lemma Property_deserialize_progress:
  "Property_deserialize img buf = Inr (p, n) \<Longrightarrow>
     4 \<le> n \<and> 0 \<le> buf \<and> buf + 4 \<le> int (length img) \<and> buf + n \<le> int (length img) + 3"
  by (auto simp: Property_deserialize_def Property_value_deserialize_def Let_def res_simps
      StringScalar_deserialize_def Int32Scalar_deserialize_def DoubleScalar_deserialize_def
      GET_DOUBLE_iff dest!: GET_INT32_bounds String_deserialize_progress seg_bound split: if_splits)

interpretation property_reader: reader Property_deserialize
  by unfold_locales (rule Property_deserialize_progress)

text \<open>\<open>PropertyBlock::deserialize\<close> reads properties as long as a property marker stands there.\<close>

function PropertyBlock_loop :: "image \<Rightarrow> propertyblock \<Rightarrow> int \<Rightarrow> (propertyblock \<times> int) res" where
  "PropertyBlock_loop img pb buf =
     rbind (GET_INT32 img buf) (\<lambda>w.
     if property_ischunk (sint w)
     then rbind (Property_deserialize img buf) (\<lambda>(prop, n).
          rbind (append_prop pb prop) (\<lambda>pb. PropertyBlock_loop img pb (buf + n)))
     else Inr (pb, buf))"
  by pat_completeness auto
termination
  by (relation "measure (\<lambda>(img, pb, buf). nat (int (length img) - buf))")
    (auto dest: property_reader.dec_start property_reader.dec_positive)

declare PropertyBlock_loop.simps [simp del]

definition PropertyBlock_deserialize ::
    "propertyblock \<Rightarrow> image \<Rightarrow> int \<Rightarrow> (propertyblock \<times> int) res" where
  "PropertyBlock_deserialize pb img startbuf =
     rbind (PropertyBlock_loop img pb startbuf) (\<lambda>(pb, buf). Inr (pb, buf - startbuf))"

text \<open>How reading a block can fail: never by a missing value, since the marker decides the class.\<close>

lemma fails_Property [fails_intros]:
  "small_image img \<Longrightarrow> fails_in format_errors (Property_deserialize img buf)"
  unfolding Property_deserialize_def Property_value_deserialize_def Let_def
    StringScalar_deserialize_def Int32Scalar_deserialize_def DoubleScalar_deserialize_def
  by (intro fails_intros) simp_all

lemma Property_deserialize_value:
  "Property_deserialize img buf = Inr (p, n) \<Longrightarrow> prop_value p \<noteq> None"
  by (auto simp: Property_deserialize_def Property_value_deserialize_def Let_def res_simps
      property_ischunk_def split: if_splits)

lemma fails_PropertyBlock_loop:
  "small_image img \<Longrightarrow> fails_in format_errors (PropertyBlock_loop img pb buf)"
proof (induction img pb buf rule: PropertyBlock_loop.induct)
  case (1 img pb buf)
  show ?case
    unfolding PropertyBlock_loop.simps [of img pb]
  proof (intro fails_intros "1.prems")
    fix w pr n x
    assume *: "GET_INT32 img buf = Inr w" "property_ischunk (sint w)"
      "Property_deserialize img buf = Inr x" "x = (pr, n)"
    then show "fails_in format_errors (append_prop pb pr)"
      by (auto simp: append_prop_def dest!: Property_deserialize_value)
    show "fails_in format_errors (PropertyBlock_loop img pb' (buf + n))"
      if "append_prop pb pr = Inr pb'" for pb'
      using * that "1.prems" by (auto intro: "1.IH")
  qed
qed

lemma fails_PropertyBlock [fails_intros]:
  "small_image img \<Longrightarrow> fails_in format_errors (PropertyBlock_deserialize pb img buf)"
  unfolding PropertyBlock_deserialize_def by (intro fails_intros fails_PropertyBlock_loop)

subsection \<open>The encoding of properties\<close>

fun enc_property :: "property \<Rightarrow> 8 word list" where
  "enc_property (Property t name v) = enc_int t @ enc_string name @
     (case v of
        Some (PSFStringScalar s) \<Rightarrow> enc_string s
      | Some (PSFInt32Scalar (Some w)) \<Rightarrow> enc32 w
      | Some (PSFDoubleScalar (Some d)) \<Rightarrow> enc64 d
      | _ \<Rightarrow> [])"

text \<open>The chunk type and the class of the value agree; the strings are of possible size.\<close>

fun property_ok :: "property \<Rightarrow> bool" where
  "property_ok (Property t name v) \<longleftrightarrow> string_ok name \<and>
     (case v of
        Some (PSFStringScalar s) \<Rightarrow> t = 33 \<and> string_ok s
      | Some (PSFInt32Scalar (Some w)) \<Rightarrow> t = 34
      | Some (PSFDoubleScalar (Some d)) \<Rightarrow> t = 35
      | _ \<Rightarrow> False)"

lemma property_okE:
  assumes "property_ok p"
  obtains (str) name s where "p = Property 33 name (Some (PSFStringScalar s))"
      "string_ok name" "string_ok s"
    | (i32) name w where "p = Property 34 name (Some (PSFInt32Scalar (Some w)))" "string_ok name"
    | (dbl) name d where "p = Property 35 name (Some (PSFDoubleScalar (Some d)))" "string_ok name"
  using assms by (cases p) (auto split: option.splits scalar.splits)

lemma int_range_chunk [simp]: "t \<in> {0..64} \<Longrightarrow> int_range t"
  by (simp add: int_range_def)

lemma property_ok_marker:
  "property_ok p \<Longrightarrow> property_ischunk (prop_chunktype p) \<and> int_range (prop_chunktype p)"
  by (erule property_okE) (simp_all add: property_ischunk_def)

lemma Property_deserialize_enc [decodes]:
  assumes "property_ok p" and "seg img buf (enc_property p)"
  shows "Property_deserialize img buf = Inr (p, int (length (enc_property p)))"
  using assms(1)
proof (cases rule: property_okE)
  case (str name s)
  with assms(2) have "seg img buf (enc_int 33)" "seg img (buf + 4) (enc_string name)"
    "seg img (buf + 4 + int (length (enc_string name))) (enc_string s)"
    by (simp_all add: seg_simps algebra_simps)
  with str show ?thesis
    by (simp add: Property_deserialize_def Property_value_deserialize_def
        StringScalar_deserialize_def property_ischunk_def Let_def decodes del: length_enc_string)
next
  case (i32 name w)
  with assms(2) have "seg img buf (enc_int 34)" "seg img (buf + 4) (enc_string name)"
    "seg img (buf + 4 + int (length (enc_string name))) (enc32 w)"
    by (simp_all add: seg_simps algebra_simps)
  with i32 show ?thesis
    by (simp add: Property_deserialize_def Property_value_deserialize_def
        Int32Scalar_deserialize_def property_ischunk_def Let_def decodes del: length_enc_string)
next
  case (dbl name d)
  with assms(2) have "seg img buf (enc_int 35)" "seg img (buf + 4) (enc_string name)"
    "seg img (buf + 4 + int (length (enc_string name))) (enc64 d)"
    by (simp_all add: seg_simps algebra_simps)
  with dbl show ?thesis
    by (simp add: Property_deserialize_def Property_value_deserialize_def
        DoubleScalar_deserialize_def property_ischunk_def Let_def decodes del: length_enc_string)
qed

interpretation property_codec: codec Property_deserialize enc_property property_ok
  by unfold_locales (rule Property_deserialize_enc)

subsection \<open>What a property block holds\<close>

definition prop_pair :: "property \<Rightarrow> string \<times> scalar" where
  "prop_pair p = (prop_name p, the (prop_value p))"

definition block_extend :: "propertyblock \<Rightarrow> property list \<Rightarrow> propertyblock" where
  "block_extend pb ps = PropertyBlock (m_proplist pb @ map Property_copy ps)
     (fold (\<lambda>(k, v). map_put k v) (map prop_pair ps) (m_propmap pb))"

definition block_wf :: "propertyblock \<Rightarrow> bool" where
  "block_wf pb \<longleftrightarrow> (\<forall>p \<in> set (m_proplist pb). prop_value p \<noteq> None) \<and>
     m_propmap pb = fold (\<lambda>(k, v). map_put k v) (map prop_pair (m_proplist pb)) []"

lemma block_wf_find:
  assumes "block_wf pb"
  shows "map_ok (m_propmap pb) \<and> map_find (m_propmap pb) k = map_of (rev (map prop_pair (m_proplist pb))) k"
  using assms std_map.find_fill [of "[]" "map prop_pair (m_proplist pb)" k]
    std_map.invar_fill [of "[]" "map prop_pair (m_proplist pb)"]
  by (simp add: block_wf_def split: option.splits)

lemma block_extend_Nil [simp]: "block_extend pb [] = pb"
  by (cases pb) (simp add: block_extend_def)

lemma block_extend_Cons: "prop_value p = Some v \<Longrightarrow>
    block_extend pb (p # ps) = block_extend (PropertyBlock (m_proplist pb @ [Property_copy p])
      (map_put (prop_name p) v (m_propmap pb))) ps"
  by (simp add: block_extend_def prop_pair_def)

lemma Property_copy_value [simp]: "prop_value (Property_copy p) = prop_value p"
  by (cases p rule: Property_copy.cases) simp_all

lemma Property_copy_name [simp]: "prop_value p \<noteq> None \<Longrightarrow> prop_name (Property_copy p) = prop_name p"
  by (cases p rule: Property_copy.cases) simp_all

lemma block_wf_empty [simp]: "block_wf empty_block"
  by (simp add: block_wf_def empty_block_def)

lemma append_prop_wf: "append_prop pb p = Inr pb' \<Longrightarrow> block_wf pb \<Longrightarrow> block_wf pb'"
  by (auto simp: append_prop_def block_wf_def prop_pair_def split: option.splits)

lemma append_prop_total: "prop_value p \<noteq> None \<Longrightarrow> append_prop pb p = Inr (block_extend pb [p])"
  by (auto simp: append_prop_def block_extend_def prop_pair_def)

lemma PropertyBlock_loop_wf:
  "PropertyBlock_loop img pb buf = Inr (pb', buf') \<Longrightarrow> block_wf pb \<Longrightarrow> block_wf pb'"
proof (induction img pb buf rule: PropertyBlock_loop.induct)
  case (1 img pb buf)
  from "1.prems" show ?case
    by (subst (asm) PropertyBlock_loop.simps)
      (auto simp: res_simps split: if_splits dest: append_prop_wf "1.IH")
qed

lemma PropertyBlock_loop_progress:
  "PropertyBlock_loop img pb buf = Inr (pb', buf') \<Longrightarrow>
     buf \<le> buf' \<and> 0 \<le> buf' \<and> buf' + 4 \<le> int (length img)"
proof (induction img pb buf rule: PropertyBlock_loop.induct)
  case (1 img pb buf)
  from "1.prems" show ?case
    by (subst (asm) PropertyBlock_loop.simps)
      (fastforce simp: res_simps split: if_splits
        dest: "1.IH" GET_INT32_bounds property_reader.dec_positive)
qed

lemma PropertyBlock_deserialize_progress:
  "PropertyBlock_deserialize empty_block img buf = Inr (pb, n) \<Longrightarrow>
     0 \<le> n \<and> 0 \<le> buf + n \<and> buf + n + 4 \<le> int (length img) \<and> block_wf pb"
  by (auto simp: PropertyBlock_deserialize_def res_simps
      dest: PropertyBlock_loop_progress PropertyBlock_loop_wf)

lemma PropertyBlock_loop_enc:
  "\<forall>p \<in> set ps. property_ok p \<Longrightarrow> \<not> property_ischunk t \<Longrightarrow> int_range t \<Longrightarrow>
   seg img buf (concat (map enc_property ps) @ enc_int t) \<Longrightarrow>
     PropertyBlock_loop img pb buf
       = Inr (block_extend pb ps, buf + int (length (concat (map enc_property ps))))"
proof (induction ps arbitrary: pb buf)
  case Nil
  then show ?case
    by (subst PropertyBlock_loop.simps) (simp add: decodes)
next
  case (Cons p ps)
  from Cons.prems have p: "property_ok p" and at: "seg img buf (enc_property p)"
    and rest: "seg img (buf + int (length (enc_property p))) (concat (map enc_property ps) @ enc_int t)"
    by (simp_all add: seg_simps algebra_simps)
  obtain v where v: "prop_value p = Some v"
    using p by (rule property_okE) simp_all
  from at have "GET_INT32 img buf = Inr (word_of_int (prop_chunktype p))"
    by (cases p) (simp add: seg_simps decodes)
  then show ?case
    using Cons.IH [of "buf + int (length (enc_property p))"] Cons.prems p at rest v
      property_ok_marker [OF p]
    by (subst PropertyBlock_loop.simps) (simp add: decodes append_prop_def block_extend_Cons)
qed

lemma PropertyBlock_deserialize_enc [decodes]:
  "\<forall>p \<in> set ps. property_ok p \<Longrightarrow> \<not> property_ischunk t \<Longrightarrow> int_range t \<Longrightarrow>
   seg img buf (concat (map enc_property ps) @ enc_int t) \<Longrightarrow>
     PropertyBlock_deserialize pb img buf
       = Inr (block_extend pb ps, int (length (concat (map enc_property ps))))"
  by (simp add: PropertyBlock_deserialize_def PropertyBlock_loop_enc)

subsection \<open>Blocks as they are encoded\<close>

text \<open>
  The copies in a block have lost their chunk type; \<open>retag\<close> gives it back from the class of the
  value. \<open>block_ok\<close> holds of the blocks that reading a file can produce.
\<close>

fun retag :: "property \<Rightarrow> property" where
  "retag (Property t name v) = Property
     (case v of Some (PSFStringScalar s) \<Rightarrow> 33 | Some (PSFInt32Scalar w) \<Rightarrow> 34 | _ \<Rightarrow> 35) name v"

definition enc_block :: "propertyblock \<Rightarrow> 8 word list" where
  "enc_block pb = concat (map enc_property (map retag (m_proplist pb)))"

definition block_ok :: "propertyblock \<Rightarrow> bool" where
  "block_ok pb \<longleftrightarrow> list_all (\<lambda>p. property_ok (retag p)) (m_proplist pb)
     \<and> pb = block_extend empty_block (map retag (m_proplist pb))"

lemma PropertyBlock_deserialize_enc_block [decodes]:
  assumes "block_ok pb" and "\<not> property_ischunk t" and "int_range t"
    and "seg img buf (enc_block pb @ enc_int t)"
  shows "PropertyBlock_deserialize empty_block img buf = Inr (pb, int (length (enc_block pb)))"
proof -
  have ok: "\<forall>p \<in> set (map retag (m_proplist pb)). property_ok p"
    using assms(1) by (simp add: block_ok_def list_all_iff)
  have "pb = block_extend empty_block (map retag (m_proplist pb))"
    using assms(1) by (simp add: block_ok_def)
  with PropertyBlock_deserialize_enc [OF ok assms(2,3), of img buf empty_block] assms(4)
  show ?thesis by (simp add: enc_block_def)
qed

lemma block_ok_of: "list_all property_ok ps \<Longrightarrow> block_ok (block_extend empty_block ps)"
proof -
  assume ok: "list_all property_ok ps"
  have retag: "retag (Property_copy p) = p" if "property_ok p" for p
    using that by (rule property_okE) simp_all
  have "map retag (map Property_copy ps) = ps"
    using ok retag by (simp add: list_all_iff comp_def map_idI)
  then show ?thesis
    using ok by (simp add: block_ok_def block_extend_def empty_block_def list_all_iff retag comp_def)
qed

lemma block_ok_empty [simp]: "block_ok empty_block"
  using block_ok_of [of "[]"] by simp

lemma enc_block_empty [simp]: "enc_block empty_block = []"
  by (simp add: enc_block_def empty_block_def)

subsection \<open>Chunks that end with a block\<close>

text \<open>
  A chunk whose last field is a property block is read back wherever the next word starts no
  property: \<open>block_codec\<close> is the interface that the definitions, the references, the groups and
  the values of the sections share. A sequence of such chunks is read back, each chunk being
  the end of the one before.
\<close>

locale block_codec = reader dec for dec :: "image \<Rightarrow> int \<Rightarrow> ('a \<times> int) res" +
  fixes enc :: "'a \<Rightarrow> 8 word list"
    and ok :: "'a \<Rightarrow> bool"
    and marker :: "'a \<Rightarrow> int"
  assumes dec_before:
    "ok x \<Longrightarrow> \<not> property_ischunk t \<Longrightarrow> int_range t \<Longrightarrow> seg img buf (enc x @ enc_int t) \<Longrightarrow>
       dec img buf = Inr (x, int (length (enc x)))"
    and enc_marker: "ok x \<Longrightarrow> seg img buf (enc x) \<Longrightarrow> seg img buf (enc_int (marker x))"
    and marker_ok: "ok x \<Longrightarrow> \<not> property_ischunk (marker x) \<and> int_range (marker x)"
begin

lemma enc_marker_word: "ok x \<Longrightarrow> seg img buf (enc x) \<Longrightarrow> GET_INT32 img buf = Inr (word_of_int (marker x))"
  by (auto dest: enc_marker simp: decodes)

text \<open>The word after a chunk is the marker of the next one, or the one that ends the sequence.\<close>

lemma next_marker:
  assumes "\<forall>x \<in> set xs. ok x" and "\<not> property_ischunk t" and "int_range t"
    and "seg img buf (concat (map enc xs) @ enc_int t)"
  obtains t' where "\<not> property_ischunk t'" "int_range t'" "seg img buf (enc_int t')"
  using assms by (cases xs) (auto simp: seg_simps dest: enc_marker marker_ok)

lemma dec_first:
  assumes "\<forall>y \<in> set (x # xs). ok y" and "\<not> property_ischunk t" and "int_range t"
    and "seg img buf (concat (map enc (x # xs)) @ enc_int t)"
  shows "dec img buf = Inr (x, int (length (enc x)))"
proof -
  have at: "seg img buf (enc x)"
    "seg img (buf + int (length (enc x))) (concat (map enc xs) @ enc_int t)"
    using assms(4) by (simp_all add: seg_simps algebra_simps)
  obtain t' where t': "\<not> property_ischunk t'" "int_range t'"
      "seg img (buf + int (length (enc x))) (enc_int t')"
    using next_marker [OF _ assms(2,3) at(2)] assms(1) by auto
  show ?thesis
    by (rule dec_before [OF _ t'(1,2)]) (use assms(1) at t' in \<open>auto simp: seg_simps\<close>)
qed

end

text \<open>The finite map that a property block stands for.\<close>

definition block_map :: "propertyblock \<Rightarrow> string \<Rightarrow> scalar option" where
  "block_map pb = map_of (rev (map prop_pair (m_proplist pb)))"

lemma append_prop_map:
  assumes "block_wf pb" and "append_prop pb p = Inr pb'"
  shows "block_map pb' = (block_map pb)(prop_name p := prop_value p)"
  using assms(2) by (auto simp: append_prop_def block_map_def prop_pair_def split: option.splits)

lemma block_map_find:
  assumes "block_wf pb"
  shows "PropertyBlock_find pb name = (case block_map pb name of None \<Rightarrow> Inl (Throw PropertyNotFound) | Some v \<Rightarrow> Inr v)"
    and "PropertyBlock_hasprop pb name \<longleftrightarrow> block_map pb name \<noteq> None"
  using block_wf_find [OF assms, of name]
  by (simp_all add: PropertyBlock_find_def PropertyBlock_hasprop_def block_map_def)

end
