(* ===== verification/TypeDefs.thy ===== *)
theory TypeDefs
  imports Properties
begin

section \<open>Type definitions (src/psftype.cc, src/psfstruct.cc, Container::deserialize_child)\<close>

text \<open>
  A \<open>DataTypeDef\<close> whose type is a struct holds a \<open>StructDef\<close>, whose children are again
  \<open>DataTypeDef\<close>s up to an end marker: the two \<open>deserialize\<close> methods call each other. They
  end because every definition consumes bytes of the image. The lemmas show the progress, that
  a definition never announces more data than the bytes its own description takes (so the sum of
  the sizes stays inside \<open>int\<close>), and that the encoding of a well-formed definition is read
  back, by induction on the tree of definitions.
\<close>

subsection \<open>The template method \<open>Container::deserialize_child\<close>\<close>

text \<open>
  The factory names the class of the child to make, or \<open>None\<close> for an end marker; the child's
  own \<open>deserialize\<close> is a virtual call on that class. The result is the child and the bytes
  consumed.
\<close>

definition deserialize_child ::
    "(int \<Rightarrow> ('cls option) res) \<Rightarrow> ('cls \<Rightarrow> image \<Rightarrow> int \<Rightarrow> ('c \<times> int) res)
     \<Rightarrow> image \<Rightarrow> int \<Rightarrow> ('c option \<times> int) res" where
  "deserialize_child child_factory deserialize img buf =
     rbind (GET_INT32 img buf) (\<lambda>w. let childtype = sint w in
     rbind (child_factory childtype) (\<lambda>child.
       case child of
         Some c \<Rightarrow> rbind (deserialize c img buf) (\<lambda>(ch, n). Inr (Some ch, n))
       | None \<Rightarrow> Inr (None, 4)))"

lemma deserialize_child_cong [fundef_cong]:
  assumes "f = f'" and "img = img'" and "buf = buf'" and "\<And>c. d c img' buf' = d' c img' buf'"
  shows "deserialize_child f d img buf = deserialize_child f' d' img' buf'"
  using assms by (simp add: deserialize_child_def cong: option.case_cong)

lemma deserialize_child_Some [res_simps]:
  "deserialize_child f d img buf = Inr (Some ch, n) \<longleftrightarrow>
     (\<exists>w c. GET_INT32 img buf = Inr w \<and> f (sint w) = Inr (Some c) \<and> d c img buf = Inr (ch, n))"
  by (auto simp: deserialize_child_def rbind_eq_Inr split: option.splits)

lemma deserialize_child_None [res_simps]:
  "deserialize_child f d img buf = Inr (None, n) \<longleftrightarrow>
     n = 4 \<and> (\<exists>w. GET_INT32 img buf = Inr w \<and> f (sint w) = Inr None)"
  by (auto simp: deserialize_child_def rbind_eq_Inr split: option.splits)

lemma deserialize_child_start:
  "deserialize_child f d img buf = Inr r \<Longrightarrow> 0 \<le> buf \<and> buf + 4 \<le> int (length img)"
  by (auto simp: deserialize_child_def res_simps dest: GET_INT32_bounds)

text \<open>One turn of a loop over children: a child, or the end marker.\<close>

lemma child_turnE:
  assumes "rbind (deserialize_child f d img buf)
      (\<lambda>(child, n). case child of Some ch \<Rightarrow> more ch n | None \<Rightarrow> stop n) = Inr r"
  obtains (more) w c ch n where "GET_INT32 img buf = Inr w" "f (sint w) = Inr (Some c)"
      "d c img buf = Inr (ch, n)" "more ch n = Inr r"
    | (stop) w where "GET_INT32 img buf = Inr w" "f (sint w) = Inr None" "stop 4 = Inr r"
proof -
  from assms obtain child n where turn: "deserialize_child f d img buf = Inr (child, n)"
    and r: "(case child of Some ch \<Rightarrow> more ch n | None \<Rightarrow> stop n) = Inr r"
    by (auto simp: rbind_eq_Inr)
  show thesis
  proof (cases child)
    case None
    with turn r that(2) show thesis by (auto simp: deserialize_child_None)
  next
    case (Some ch)
    with turn r that(1) show thesis by (auto simp: deserialize_child_Some)
  qed
qed

subsection \<open>The definitions\<close>

definition psfdata_size :: "int \<Rightarrow> int res" where
  "psfdata_size datatypeid =
     (if datatypeid = TYPEID_INT8 then Inr 4
      else if datatypeid = TYPEID_INT32 then Inr 4
      else if datatypeid = TYPEID_DOUBLE then Inr 8
      else if datatypeid = TYPEID_COMPLEXDOUBLE then Inr 16
      else Inl (Throw (UnknownType datatypeid)))"

definition DataTypeDef_ischunk :: "int \<Rightarrow> bool" where
  "DataTypeDef_ischunk chunktype \<longleftrightarrow> chunktype = 16"

definition StructDef_child_factory :: "int \<Rightarrow> (unit option) res" where
  "StructDef_child_factory chunktype =
     (if DataTypeDef_ischunk chunktype then Inr (Some ())
      else if chunktype = 18 then Inr None
      else Inl (Throw (IncorrectChunk chunktype)))"

text \<open>
  The body of \<open>DataTypeDef::deserialize\<close>, with the call of \<open>StructDef::deserialize\<close> as an
  argument, from the position in the image to the definition and its end. The congruence rule
  tells where that call can be made.
\<close>

definition DataTypeDef_fields ::
    "(int \<Rightarrow> (structdef \<times> int) res) \<Rightarrow> image \<Rightarrow> int \<Rightarrow> (datatypedef \<times> int) res" where
  "DataTypeDef_fields structdef_deserialize img startbuf =
     rbind (Chunk_deserialize 16 img startbuf) (\<lambda>n. let buf = startbuf + n in
     rbind (GET_INT32 img buf) (\<lambda>m_id. let buf = buf + 4 in
     rbind (String_deserialize img buf) (\<lambda>(m_name, n). let buf = buf + n in
     rbind (GET_INT32 img buf) (\<lambda>arraytype. let buf = buf + 4 in
     rbind (GET_INT32 img buf) (\<lambda>w. let m_datatypeid = sint w; buf = buf + 4 in
     rbind (if m_datatypeid = 16
            then rbind (structdef_deserialize buf) (\<lambda>(sd, n).
                 Inr (Some sd, sd_datasize sd, buf + n))
            else rbind (psfdata_size m_datatypeid) (\<lambda>size. Inr (None, size, buf)))
       (\<lambda>(m_structdef, datasize, buf).
     rbind (PropertyBlock_deserialize empty_block img buf) (\<lambda>(m_properties, n). let buf = buf + n in
     Inr (DataTypeDef (sint m_id) m_name m_datatypeid m_properties m_structdef datasize,
          buf - startbuf))))))))"

lemma DataTypeDef_fields_cong [fundef_cong]:
  assumes "img = img'" and "buf = buf'"
    and "\<And>b. 0 \<le> buf' \<Longrightarrow> buf' + 20 \<le> b \<Longrightarrow> b \<le> int (length img') \<Longrightarrow> sr b = sr' b"
  shows "DataTypeDef_fields sr img buf = DataTypeDef_fields sr' img' buf'"
  unfolding DataTypeDef_fields_def assms(1,2) Let_def
  by (intro rbind_cong if_cong refl prod.case_cong)
    (auto simp: res_simps dest!: GET_INT32_bounds String_deserialize_progress intro!: assms(3) rbind_cong)

lemma DataTypeDef_fields_Inr:
  "DataTypeDef_fields sr img buf = Inr (td, n) \<Longrightarrow>
     0 \<le> buf \<and> buf + n + 4 \<le> int (length img) \<and> block_wf (td_properties td) \<and>
     (\<exists>b. buf + 20 \<le> b \<and> b \<le> int (length img) \<and>
       (if td_datatypeid td = 16
       then \<exists>sd k. sr b = Inr (sd, k) \<and> td_structdef td = Some sd
              \<and> td_datasize td = sd_datasize sd \<and> b + k \<le> buf + n
       else psfdata_size (td_datatypeid td) = Inr (td_datasize td) \<and> td_structdef td = None
              \<and> b \<le> buf + n))"
  apply (auto simp: DataTypeDef_fields_def Let_def res_simps
      dest!: GET_INT32_bounds String_deserialize_progress PropertyBlock_deserialize_progress
      split: if_splits)
  subgoal for id name s w pb sd p k
    by (rule exI [of _ "16 + (buf + s)"]) simp
  done

function DataTypeDef_deserialize :: "image \<Rightarrow> int \<Rightarrow> (datatypedef \<times> int) res"
  and StructDef_deserialize :: "image \<Rightarrow> int \<Rightarrow> (structdef \<times> int) res"
  and StructDef_loop :: "image \<Rightarrow> datatypedef list \<Rightarrow> int \<Rightarrow> int \<Rightarrow> (structdef \<times> int) res"
where
  "DataTypeDef_deserialize img startbuf =
     DataTypeDef_fields (\<lambda>buf. StructDef_deserialize img buf) img startbuf"
| "StructDef_deserialize img startbuf =
     rbind (StructDef_loop img [] 0 startbuf) (\<lambda>(sd, buf). Inr (sd, buf - startbuf))"
| "StructDef_loop img children datasize buf =
     rbind (deserialize_child StructDef_child_factory
         (\<lambda>_ img buf. DataTypeDef_deserialize img buf) img buf) (\<lambda>(child, n).
     case child of
       Some td \<Rightarrow> rbind (c_int (datasize + td_datasize td)) (\<lambda>datasize.
         StructDef_loop img (children @ [td]) datasize (buf + n))
     | None \<Rightarrow> Inr (StructDef children datasize, buf + n))"
  by pat_completeness auto

text \<open>
  The recursion is nested: the loop goes on where the child ended, so that the child made
  progress is needed to show that the functions end. It is proved of every terminating call first.
\<close>

abbreviation typedef_dom where "typedef_dom \<equiv> DataTypeDef_deserialize_StructDef_deserialize_StructDef_loop_dom"

lemma DataTypeDef_partial_progress:
  "typedef_dom (Inl (img, buf)) \<Longrightarrow> DataTypeDef_deserialize img buf = Inr (td, n) \<Longrightarrow>
     4 \<le> n \<and> 0 \<le> buf \<and> buf + n + 4 \<le> int (length img)"
  and StructDef_partial_progress:
  "typedef_dom (Inr (Inl (img, buf))) \<Longrightarrow> StructDef_deserialize img buf = Inr (sd, n) \<Longrightarrow>
     4 \<le> n \<and> 0 \<le> buf \<and> buf + n \<le> int (length img)"
  and StructDef_loop_partial_progress:
  "typedef_dom (Inr (Inr (img, children, datasize, buf))) \<Longrightarrow>
     StructDef_loop img children datasize buf = Inr (sd, endbuf) \<Longrightarrow>
       buf + 4 \<le> endbuf \<and> 0 \<le> buf \<and> endbuf \<le> int (length img)"
proof (induct img buf and img buf and img children datasize buf
    arbitrary: td n and sd n and sd endbuf
    rule: DataTypeDef_deserialize_StructDef_deserialize_StructDef_loop.pinduct)
  case (1 img buf)
  from "1.prems" show ?case
    unfolding DataTypeDef_deserialize.psimps [OF "1.hyps"(1)]
    by (auto dest!: DataTypeDef_fields_Inr "1.hyps"(2) [rotated 3] split: if_splits)
next
  case (2 img buf)
  from "2.prems" show ?case
    unfolding StructDef_deserialize.psimps [OF "2.hyps"(1)]
    by (auto simp: res_simps dest!: "2.hyps"(2))
next
  case (3 img children datasize buf)
  from "3.prems" show ?case
    unfolding StructDef_loop.psimps [OF "3.hyps"(1)]
  proof (cases rule: child_turnE)
    case (more w c td n)
    then have "4 \<le> n" and "0 \<le> buf"
      by (auto dest: "3.hyps"(2))
    moreover have "buf + n + 4 \<le> endbuf \<and> endbuf \<le> int (length img)"
      using more "3.hyps"(3) [OF _ refl refl, of td n] by (auto simp: res_simps)
    ultimately show ?thesis by simp
  next
    case (stop w)
    then show ?thesis by (auto dest: GET_INT32_bounds)
  qed
qed

lemma typedef_dom_all: "All typedef_dom"
proof (relation "measure (\<lambda>x. case x of
    Inl (img, buf) \<Rightarrow> 3 * nat (int (length img) - buf)
  | Inr (Inl (img, buf)) \<Rightarrow> 3 * nat (int (length img) - buf) + 2
  | Inr (Inr (img, children, datasize, buf)) \<Rightarrow> 3 * nat (int (length img) - buf) + 1)")
qed (auto simp: deserialize_child_Some dest!: DataTypeDef_partial_progress)

termination DataTypeDef_deserialize
  by (rule typedef_dom_all)

declare DataTypeDef_deserialize.simps [simp del] StructDef_deserialize.simps [simp del]
  StructDef_loop.simps [simp del]

lemma DataTypeDef_deserialize_progress:
  "DataTypeDef_deserialize img buf = Inr (td, n) \<Longrightarrow>
     4 \<le> n \<and> 0 \<le> buf \<and> buf + n + 4 \<le> int (length img)"
  by (rule DataTypeDef_partial_progress [OF typedef_dom_all [THEN spec]])

lemma StructDef_deserialize_progress:
  "StructDef_deserialize img buf = Inr (sd, n) \<Longrightarrow>
     4 \<le> n \<and> 0 \<le> buf \<and> buf + n \<le> int (length img)"
  by (rule StructDef_partial_progress [OF typedef_dom_all [THEN spec]])

interpretation typedef_reader: reader DataTypeDef_deserialize
  by unfold_locales (auto dest: DataTypeDef_deserialize_progress)

interpretation structdef_reader: reader StructDef_deserialize
  by unfold_locales (auto dest: StructDef_deserialize_progress)

subsection \<open>Sizes\<close>

text \<open>
  The size of a struct is the sum of the sizes of its members, at every depth; a definition that
  was read never announces more bytes of data than its own description takes in the file.
\<close>

fun typedef_wf :: "datatypedef \<Rightarrow> bool" and structdef_wf :: "structdef \<Rightarrow> bool" where
  "typedef_wf (DataTypeDef tid name typeid pb None sz) \<longleftrightarrow>
     block_wf pb \<and> typeid \<noteq> 16 \<and> psfdata_size typeid = Inr sz"
| "typedef_wf (DataTypeDef tid name typeid pb (Some sd) sz) \<longleftrightarrow>
     block_wf pb \<and> typeid = 16 \<and> sz = sd_datasize sd \<and> structdef_wf sd"
| "structdef_wf (StructDef children sz) \<longleftrightarrow>
     (\<forall>td \<in> set children. typedef_wf td) \<and> sz = sum_list (map td_datasize children)"

lemma psfdata_size_Inr:
  "psfdata_size t = Inr sz \<Longrightarrow> t \<in> {1, 5, 11, 12} \<and> 4 \<le> sz \<and> sz \<le> 16"
  by (auto simp: psfdata_size_def typeid_defs split: if_splits)

lemma typedef_wf_iff:
  "typedef_wf td \<longleftrightarrow> block_wf (td_properties td) \<and>
     (if td_datatypeid td = 16
      then \<exists>sd. td_structdef td = Some sd \<and> td_datasize td = sd_datasize sd \<and> structdef_wf sd
      else td_structdef td = None \<and> psfdata_size (td_datatypeid td) = Inr (td_datasize td))"
proof (cases td)
  case (DataTypeDef tid name typeid pb sdo sz)
  then show ?thesis by (cases sdo) auto
qed

text \<open>Everything that is read is well-formed.\<close>

lemma DataTypeDef_deserialize_wf:
  "DataTypeDef_deserialize img buf = Inr (td, n) \<Longrightarrow> typedef_wf td"
  and StructDef_deserialize_wf:
  "StructDef_deserialize img buf = Inr (sd, n) \<Longrightarrow> structdef_wf sd"
  and StructDef_loop_wf:
  "StructDef_loop img children datasize buf = Inr (sd, endbuf) \<Longrightarrow>
     \<forall>td \<in> set children. typedef_wf td \<Longrightarrow> datasize = sum_list (map td_datasize children) \<Longrightarrow>
       structdef_wf sd"
proof (induct img buf and img buf and img children datasize buf
    arbitrary: td n and sd n and sd endbuf
    rule: DataTypeDef_deserialize_StructDef_deserialize_StructDef_loop.induct)
  case (1 img buf)
  from "1.prems" show ?case
    unfolding DataTypeDef_deserialize.simps typedef_wf_iff
    by (auto dest!: DataTypeDef_fields_Inr "1.hyps" [rotated 3] split: if_splits)
next
  case (2 img buf)
  from "2.prems" show ?case
    by (auto simp: StructDef_deserialize.simps res_simps dest!: "2.hyps")
next
  case (3 img children datasize buf)
  from "3.prems"(1) show ?case
    unfolding StructDef_loop.simps [of img children]
  proof (cases rule: child_turnE)
    case (more w c td n)
    then show ?thesis
      using "3.hyps"(1) [of td n] "3.hyps"(2) [OF _ refl refl, of td n] "3.prems"(2,3)
      by (auto simp: res_simps)
  next
    case (stop w)
    then show ?thesis using "3.prems"(2,3) by auto
  qed
qed

lemma DataTypeDef_datasize_bound:
  "DataTypeDef_deserialize img buf = Inr (td, n) \<Longrightarrow> 0 \<le> td_datasize td \<and> td_datasize td + 4 \<le> n"
  and StructDef_datasize_bound:
  "StructDef_deserialize img buf = Inr (sd, n) \<Longrightarrow> 0 \<le> sd_datasize sd \<and> sd_datasize sd + 4 \<le> n"
  and StructDef_loop_datasize_bound:
  "StructDef_loop img children datasize buf = Inr (sd, endbuf) \<Longrightarrow>
     datasize \<le> sd_datasize sd \<and> sd_datasize sd - datasize + 4 \<le> endbuf - buf"
proof (induct img buf and img buf and img children datasize buf
    arbitrary: td n and sd n and sd endbuf
    rule: DataTypeDef_deserialize_StructDef_deserialize_StructDef_loop.induct)
  case (1 img buf)
  from "1.prems" show ?case
    unfolding DataTypeDef_deserialize.simps
    by (auto dest!: DataTypeDef_fields_Inr psfdata_size_Inr "1.hyps" [rotated 3] split: if_splits)
next
  case (2 img buf)
  from "2.prems" show ?case
    by (auto simp: StructDef_deserialize.simps res_simps dest!: "2.hyps")
next
  case (3 img children datasize buf)
  from "3.prems" show ?case
    unfolding StructDef_loop.simps [of img children]
  proof (cases rule: child_turnE)
    case (more w c td n)
    then show ?thesis
      using "3.hyps"(1) [of td n] "3.hyps"(2) [OF _ refl refl, of td n "datasize + td_datasize td"]
      by (auto simp: res_simps)
  qed auto
qed

lemma fails_psfdata_size [fails_intros]: "fails_in format_errors (psfdata_size t)"
  by (simp add: psfdata_size_def)

lemma fails_StructDef_child_factory [fails_intros]:
  "fails_in format_errors (StructDef_child_factory t)"
  by (simp add: StructDef_child_factory_def)

lemma fails_deserialize_child [fails_intros]:
  assumes "\<And>t. fails_in format_errors (f t)" and "\<And>c. fails_in format_errors (d c img buf)"
  shows "fails_in format_errors (deserialize_child f d img buf)"
  unfolding deserialize_child_def Let_def by (intro fails_intros assms)

lemma fails_DataTypeDef_fields:
  assumes "small_image img"
    and "\<And>b. 0 \<le> buf \<Longrightarrow> buf + 20 \<le> b \<Longrightarrow> b \<le> int (length img) \<Longrightarrow> fails_in format_errors (sr b)"
  shows "fails_in format_errors (DataTypeDef_fields sr img buf)"
  unfolding DataTypeDef_fields_def Let_def
  by (intro fails_intros assms)
    (auto simp: res_simps dest!: GET_INT32_bounds String_deserialize_progress)

lemma fails_DataTypeDef:
  "small_image img \<Longrightarrow> fails_in format_errors (DataTypeDef_deserialize img buf)"
  and fails_StructDef:
  "small_image img \<Longrightarrow> 0 \<le> buf \<Longrightarrow> fails_in format_errors (StructDef_deserialize img buf)"
  and fails_StructDef_loop:
  "small_image img \<Longrightarrow> 0 \<le> datasize \<Longrightarrow> datasize \<le> buf \<Longrightarrow>
     fails_in format_errors (StructDef_loop img children datasize buf)"
proof (induct img buf and img buf and img children datasize buf
    rule: DataTypeDef_deserialize_StructDef_deserialize_StructDef_loop.induct)
  case (1 img buf)
  then show ?case
    unfolding DataTypeDef_deserialize.simps by (intro fails_DataTypeDef_fields) auto
next
  case (2 img buf)
  then show ?case
    unfolding StructDef_deserialize.simps by (intro fails_intros "2.hyps") auto
next
  case (3 img children datasize buf)
  show ?case
    unfolding StructDef_loop.simps [of img children]
  proof (intro fails_intros "3.hyps"(1) "3.prems")
    fix x child n td
    assume x: "deserialize_child StructDef_child_factory (\<lambda>_ img buf. DataTypeDef_deserialize img buf)
        img buf = Inr x" "x = (child, n)" "child = Some td"
    then have td: "DataTypeDef_deserialize img buf = Inr (td, n)"
      by (auto simp: deserialize_child_Some)
    note bounds = DataTypeDef_datasize_bound [OF td] DataTypeDef_deserialize_progress [OF td]
    then have "int_range (datasize + td_datasize td)"
      using "3.prems" by (auto simp: int_range_def small_image_def)
    then show "fails_in format_errors (c_int (datasize + td_datasize td))"
      by simp
    show "fails_in format_errors (StructDef_loop img (children @ [td]) d (buf + n))"
      if "c_int (datasize + td_datasize td) = Inr d" for d
      using that x bounds "3.prems" by (intro "3.hyps"(2)) auto
  qed
qed

subsection \<open>The encoding of type definitions\<close>

fun enc_typedef :: "datatypedef \<Rightarrow> 8 word list" and enc_members :: "datatypedef list \<Rightarrow> 8 word list" where
  "enc_typedef (DataTypeDef tid name typeid pb None sz) =
     enc_int 16 @ enc_int tid @ enc_string name @ enc_int 0 @ enc_int typeid @ enc_block pb"
| "enc_typedef (DataTypeDef tid name typeid pb (Some (StructDef children sdsize)) sz) =
     enc_int 16 @ enc_int tid @ enc_string name @ enc_int 0 @ enc_int typeid
       @ enc_members children @ enc_int 18 @ enc_block pb"
| "enc_members [] = []"
| "enc_members (td # tds) = enc_typedef td @ enc_members tds"

fun typedef_ok :: "datatypedef \<Rightarrow> bool" and members_ok :: "datatypedef list \<Rightarrow> bool" where
  "typedef_ok (DataTypeDef tid name typeid pb None sz) \<longleftrightarrow>
     int_range tid \<and> string_ok name \<and> block_ok pb \<and> psfdata_size typeid = Inr sz"
| "typedef_ok (DataTypeDef tid name typeid pb (Some (StructDef children sdsize)) sz) \<longleftrightarrow>
     int_range tid \<and> string_ok name \<and> block_ok pb \<and> typeid = 16 \<and> sz = sdsize \<and> int_range sdsize
       \<and> sdsize = sum_list (map td_datasize children) \<and> members_ok children"
| "members_ok [] \<longleftrightarrow> True"
| "members_ok (td # tds) \<longleftrightarrow> typedef_ok td \<and> members_ok tds"

lemma members_ok_sizes:
  "typedef_ok td \<Longrightarrow> 0 \<le> td_datasize td"
  "members_ok tds \<Longrightarrow> 0 \<le> sum_list (map td_datasize tds)"
  by (induct td and tds rule: typedef_ok_members_ok.induct) (auto dest: psfdata_size_Inr)

lemma enc_typedef_marker: "seg img buf (enc_typedef td) \<Longrightarrow> seg img buf (enc_int 16)"
  by (cases td rule: enc_typedef.cases) (auto simp: seg_simps)

lemma typedef_markers [simp]: "\<not> property_ischunk 16" "\<not> property_ischunk 17"
  "\<not> property_ischunk 18" "\<not> property_ischunk 19"
  "DataTypeDef_ischunk 16" "\<not> DataTypeDef_ischunk 18"
  by (simp_all add: property_ischunk_def DataTypeDef_ischunk_def)

lemma enc_members_marker:
  "seg img buf (enc_members tds @ enc_int 18) \<Longrightarrow> \<exists>t \<in> {16, 18}. seg img buf (enc_int t)"
  by (cases tds) (auto simp: seg_simps dest: enc_typedef_marker)

text \<open>
  The reader needs one more word than the definition: the block of properties at its end is
  finished by a marker that starts no property.
\<close>

lemma DataTypeDef_fields_enc:
  assumes "seg img buf (enc_int 16 @ enc_int tid @ enc_string name @ enc_int 0 @ enc_int typeid)"
    and "int_range tid" and "string_ok name" and "int_range typeid"
    and "if typeid = 16
      then sr (buf + (16 + int (length (enc_string name)))) = Inr (sd, k) \<and> sdo = Some sd
        \<and> sz = sd_datasize sd
      else psfdata_size typeid = Inr sz \<and> sdo = None \<and> k = 0"
    and "block_ok pb" and "\<not> property_ischunk t" and "int_range t"
    and "seg img (buf + (16 + int (length (enc_string name)) + k)) (enc_block pb @ enc_int t)"
  shows "DataTypeDef_fields sr img buf = Inr (DataTypeDef tid name typeid pb sdo sz,
     16 + int (length (enc_string name)) + k + int (length (enc_block pb)))"
proof -
  define l where "l = int (length (enc_string name))"
  have at: "Chunk_deserialize 16 img buf = Inr 4" "GET_INT32 img (4 + buf) = Inr (word_of_int tid)"
    "String_deserialize img (8 + buf) = Inr (name, l)"
    "GET_INT32 img (8 + (buf + l)) = Inr (word_of_int 0)"
    "GET_INT32 img (12 + (buf + l)) = Inr (word_of_int typeid)"
    using assms(1,3) unfolding l_def by (auto simp: seg_simps algebra_simps decodes simp del: length_enc_string)
  have block: "PropertyBlock_deserialize empty_block img (16 + (buf + (k + l)))
      = Inr (pb, int (length (enc_block pb)))"
    using assms(9) unfolding l_def
    by (intro PropertyBlock_deserialize_enc_block [OF assms(6-8)]) (simp add: algebra_simps)
  show ?thesis
    using assms(2,4,5) at block
    by (simp add: DataTypeDef_fields_def Let_def l_def [symmetric] algebra_simps
      del: length_enc_string split: if_splits)
qed

lemma DataTypeDef_deserialize_enc:
  "typedef_ok td \<Longrightarrow> \<not> property_ischunk t \<Longrightarrow> int_range t \<Longrightarrow>
     seg img buf (enc_typedef td @ enc_int t) \<Longrightarrow>
       DataTypeDef_deserialize img buf = Inr (td, int (length (enc_typedef td)))"
  and StructDef_loop_enc:
  "members_ok tds \<Longrightarrow> 0 \<le> datasize \<Longrightarrow> int_range (datasize + sum_list (map td_datasize tds)) \<Longrightarrow>
     seg img buf (enc_members tds @ enc_int 18) \<Longrightarrow>
       StructDef_loop img children datasize buf
         = Inr (StructDef (children @ tds) (datasize + sum_list (map td_datasize tds)),
             buf + int (length (enc_members tds)) + 4)"
proof (induct td and tds arbitrary: img buf t and img buf datasize children
    rule: typedef_ok_members_ok.induct)
  case (1 tid name typeid pb sz)
  then have typeid: "int_range typeid" "typeid \<noteq> 16"
    by (auto dest: psfdata_size_Inr)
  with 1 show ?case
    unfolding DataTypeDef_deserialize.simps
    by (subst DataTypeDef_fields_enc [where k = 0 and t = t])
      (auto simp: seg_simps algebra_simps simp del: length_enc_string)
next
  case (2 tid name typeid pb children sdsize sz)
  define m where "m = int (length (enc_members children))"
  have "StructDef_loop img [] 0 (buf + (16 + int (length (enc_string name))))
      = Inr (StructDef children sdsize, buf + (16 + int (length (enc_string name))) + m + 4)"
    using 2 unfolding m_def
    by (subst "2.hyps") (auto simp: seg_simps algebra_simps simp del: length_enc_string)
  then have "StructDef_deserialize img (buf + (16 + int (length (enc_string name))))
      = Inr (StructDef children sdsize, m + 4)"
    by (simp add: StructDef_deserialize.simps)
  with 2 show ?case
    unfolding DataTypeDef_deserialize.simps
    by (subst DataTypeDef_fields_enc [where k = "m + 4" and t = t and sd = "StructDef children sdsize"])
      (auto simp: seg_simps algebra_simps m_def simp del: length_enc_string)
next
  case 3
  then show ?case
    by (subst StructDef_loop.simps) (simp add: deserialize_child_def StructDef_child_factory_def decodes)
next
  case (4 td tds)
  define n where "n = int (length (enc_typedef td))"
  have seg: "seg img buf (enc_typedef td)" "seg img (buf + n) (enc_members tds @ enc_int 18)"
    using "4.prems"(4) by (auto simp: seg_simps n_def algebra_simps)
  obtain t where t: "t \<in> {16, 18}" "seg img (buf + n) (enc_int t)"
    using enc_members_marker [OF seg(2)] by auto
  have td: "DataTypeDef_deserialize img buf = Inr (td, n)"
    unfolding n_def
    by (rule "4.hyps"(1) [of t]) (use "4.prems" seg t in \<open>auto simp: seg_simps n_def\<close>)
  have sizes: "0 \<le> td_datasize td" "0 \<le> sum_list (map td_datasize tds)"
    using "4.prems"(1) members_ok_sizes by auto
  then have range: "int_range (datasize + td_datasize td)"
    using "4.prems"(2,3) by (simp add: int_range_def)
  have "StructDef_loop img (children @ [td]) (datasize + td_datasize td) (buf + n)
      = Inr (StructDef (children @ td # tds) (datasize + (td_datasize td + sum_list (map td_datasize tds))),
          buf + n + int (length (enc_members tds)) + 4)"
    using "4.hyps"(2) [of "datasize + td_datasize td" img "buf + n" "children @ [td]"]
      "4.prems" seg sizes by (simp add: algebra_simps)
  moreover have "GET_INT32 img buf = Inr 16"
    using enc_typedef_marker [OF seg(1)] by (auto dest: GET_INT32_enc_int)
  ultimately show ?case
    using td range
    by (subst StructDef_loop.simps)
      (simp add: deserialize_child_def StructDef_child_factory_def n_def algebra_simps)
qed

interpretation typedef_codec: block_codec DataTypeDef_deserialize enc_typedef typedef_ok "\<lambda>_. 16"
  by unfold_locales (auto intro: DataTypeDef_deserialize_enc enc_typedef_marker)

end
