(* ===== verification/StructData.thy ===== *)
theory StructData
  imports TypeDefs
begin

section \<open>Values of a type: structs, \<open>new_scalar\<close>, \<open>deserialize_data\<close>\<close>

text \<open>
  What \<open>src/psfdata.cc\<close> and \<open>src/psftype.cc\<close> do with the data of a type definition. A
  \<open>DataTypeDef\<close> makes fresh scalars (\<open>new_scalar\<close>) and reads data into an existing object
  (\<open>deserialize_data\<close>, whose \<open>void *\<close> is the object it points to); a \<open>Struct\<close> reads its
  members in the order of its definition. The lemmas say what is read (every member, with its
  type), how many bytes are consumed, and that a value encoded after its type is read back.
\<close>

subsection \<open>Fresh objects\<close>

text \<open>The class of an object, by the type identifier of its values.\<close>

fun scalar_typeid :: "scalar \<Rightarrow> int" where
  "scalar_typeid (PSFInt8Scalar _) = TYPEID_INT8"
| "scalar_typeid (PSFInt32Scalar _) = TYPEID_INT32"
| "scalar_typeid (PSFDoubleScalar _) = TYPEID_DOUBLE"
| "scalar_typeid (PSFComplexDoubleScalar _ _) = TYPEID_COMPLEXDOUBLE"
| "scalar_typeid (PSFStringScalar _) = TYPEID_STRING"
| "scalar_typeid (StructScalar _) = TYPEID_STRUCT"

definition new_scalar :: "datatypedef \<Rightarrow> scalar res" where
  "new_scalar td = (let t = td_datatypeid td in
     if t = TYPEID_INT8 then Inr (PSFInt8Scalar None)
     else if t = TYPEID_INT32 then Inr (PSFInt32Scalar None)
     else if t = TYPEID_DOUBLE then Inr (PSFDoubleScalar None)
     else if t = TYPEID_COMPLEXDOUBLE then Inr (PSFComplexDoubleScalar 0 0)
     else if t = TYPEID_STRUCT then Inr (StructScalar (Struct (td_structdef td) []))
     else Inl (Throw (UnknownType t)))"

text \<open>
  \<open>new_dataobject\<close> makes the bare value that \<open>new_scalar\<close> wraps; it has no case for complex
  numbers, and a struct without definition would be a call through \<open>NULL\<close>.
\<close>

definition StructDef_new_dataobject :: "structdef \<Rightarrow> scalar" where
  "StructDef_new_dataobject sd = StructScalar (Struct (Some sd) [])"

definition DataTypeDef_new_dataobject :: "datatypedef \<Rightarrow> scalar res" where
  "DataTypeDef_new_dataobject td = (let t = td_datatypeid td in
     if t = TYPEID_INT8 then Inr (PSFInt8Scalar None)
     else if t = TYPEID_INT32 then Inr (PSFInt32Scalar None)
     else if t = TYPEID_DOUBLE then Inr (PSFDoubleScalar None)
     else if t = TYPEID_STRUCT then
       (case td_structdef td of
          None \<Rightarrow> Inl (Undefined NullPointer)
        | Some sd \<Rightarrow> Inr (StructDef_new_dataobject sd))
     else Inl (Throw (UnknownType t)))"

lemma new_scalar_typeid: "new_scalar td = Inr v \<Longrightarrow> scalar_typeid v = td_datatypeid td"
  by (auto simp: new_scalar_def Let_def split: if_splits)

lemma new_scalar_wf: "typedef_wf td \<Longrightarrow> \<exists>v. new_scalar td = Inr v"
  by (auto simp: typedef_wf_iff new_scalar_def psfdata_size_def typeid_defs Let_def split: if_splits)

subsection \<open>Reading into an object\<close>

text \<open>
  \<open>scalar_deserialize\<close> is the virtual \<open>PSFScalar::deserialize\<close>. A struct makes a scalar for
  each member of its definition and stores it under the member's name, where a later member of
  the same name replaces an earlier one.
\<close>

definition scalar_measure :: "scalar \<Rightarrow> nat" where
  "scalar_measure v = (case v of
     StructScalar (Struct (Some sd) m) \<Rightarrow> 3 * size sd + 2 | StructScalar _ \<Rightarrow> 1 | _ \<Rightarrow> 0)"

lemma new_scalar_measure: "new_scalar td = Inr v \<Longrightarrow> scalar_measure v < 3 * size td"
  by (cases td) (auto simp: new_scalar_def Let_def scalar_measure_def split: if_splits option.splits)

lemma size_sd_children: "size_list size (sd_children sd) < size sd"
  by (cases sd) simp

function scalar_deserialize :: "image \<Rightarrow> int \<Rightarrow> scalar \<Rightarrow> (scalar \<times> int) res"
  and Struct_deserialize :: "image \<Rightarrow> int \<Rightarrow> struct \<Rightarrow> (struct \<times> int) res"
  and Struct_loop :: "image \<Rightarrow> (string \<times> scalar) list \<Rightarrow> datatypedef list \<Rightarrow> int
     \<Rightarrow> ((string \<times> scalar) list \<times> int) res"
where
  "scalar_deserialize img buf (PSFInt8Scalar v) = Int8Scalar_deserialize img buf"
| "scalar_deserialize img buf (PSFInt32Scalar v) = Int32Scalar_deserialize img buf"
| "scalar_deserialize img buf (PSFDoubleScalar v) = DoubleScalar_deserialize img buf"
| "scalar_deserialize img buf (PSFComplexDoubleScalar re im) = ComplexDoubleScalar_deserialize im img buf"
| "scalar_deserialize img buf (PSFStringScalar v) = StringScalar_deserialize img buf"
| "scalar_deserialize img buf (StructScalar s) =
     rbind (Struct_deserialize img buf s) (\<lambda>(s, n). Inr (StructScalar s, n))"
| "Struct_deserialize img startbuf (Struct None m) = Inl (Undefined NullPointer)"
| "Struct_deserialize img startbuf (Struct (Some structdef) m) =
     rbind (Struct_loop img m (sd_children structdef) startbuf) (\<lambda>(m, buf).
       Inr (Struct (Some structdef) m, buf - startbuf))"
| "Struct_loop img m [] buf = Inr (m, buf)"
| "Struct_loop img m (itemdef # itemdefs) buf =
     rbind (new_scalar itemdef) (\<lambda>itemvalue.
     rbind (scalar_deserialize img buf itemvalue) (\<lambda>(itemvalue, n).
     Struct_loop img (map_put (td_name itemdef) itemvalue m) itemdefs (buf + n)))"
  by pat_completeness auto

termination
proof (relation "measure (\<lambda>x. case x of
    Inl (img, buf, v) \<Rightarrow> scalar_measure v
  | Inr (Inl (img, buf, s)) \<Rightarrow> (case struct_def s of Some sd \<Rightarrow> 3 * size sd + 1 | None \<Rightarrow> 0)
  | Inr (Inr (img, m, tds, buf)) \<Rightarrow> 3 * size_list size tds)")
qed (auto simp: scalar_measure_def less_Suc_eq_le size_sd_children [THEN less_imp_le]
    split: struct.split option.split dest: new_scalar_measure)

text \<open>
  \<open>DataTypeDef::deserialize_data\<close>: \<open>data\<close> is the object behind the \<open>void *\<close>; the switch on the
  type decides what it is taken for.
\<close>

definition DataTypeDef_deserialize_data ::
    "datatypedef \<Rightarrow> scalar \<Rightarrow> image \<Rightarrow> int \<Rightarrow> (scalar \<times> int) res" where
  "DataTypeDef_deserialize_data td data img buf = (let t = td_datatypeid td in
     if t \<notin> {TYPEID_INT8, TYPEID_INT32, TYPEID_DOUBLE, TYPEID_COMPLEXDOUBLE, TYPEID_STRUCT}
     then Inl (Throw (UnknownType t))
     else if scalar_typeid data \<noteq> t then Inl (Undefined WrongType)
     else case data of
       PSFInt8Scalar _ \<Rightarrow> rbind (read_bytes img (buf + 3) 1) (\<lambda>bs. Inr (PSFInt8Scalar (Some (hd bs)), 4))
     | PSFInt32Scalar _ \<Rightarrow> rbind (GET_INT32 img buf) (\<lambda>w. Inr (PSFInt32Scalar (Some w), 4))
     | PSFDoubleScalar _ \<Rightarrow> rbind (GET_DOUBLE img buf) (\<lambda>w. Inr (PSFDoubleScalar (Some w), 8))
     | PSFComplexDoubleScalar _ _ \<Rightarrow>
         rbind (GET_DOUBLE img buf) (\<lambda>re. rbind (GET_DOUBLE img (buf + 8)) (\<lambda>im.
           Inr (PSFComplexDoubleScalar re im, 16)))
     | StructScalar s \<Rightarrow> rbind (Struct_deserialize img buf s) (\<lambda>(s, n). Inr (StructScalar s, n))
     | PSFStringScalar _ \<Rightarrow> Inl (Undefined WrongType))"

subsection \<open>What is read, and how much\<close>

text \<open>
  \<open>complex_leaves\<close> counts the complex numbers of a type. As a member of a struct each of them
  reads eight bytes less than \<open>psfdata_size\<close> says, because \<open>PSFComplexDoubleScalar::deserialize\<close>
  reads the real part only.
\<close>

fun complex_leaves :: "datatypedef \<Rightarrow> int" where
  "complex_leaves (DataTypeDef tid name typeid pb None sz) = (if typeid = TYPEID_COMPLEXDOUBLE then 1 else 0)"
| "complex_leaves (DataTypeDef tid name typeid pb (Some (StructDef children sdsize)) sz) =
     sum_list (map complex_leaves children)"

definition member_bytes :: "datatypedef \<Rightarrow> int" where
  "member_bytes td = td_datasize td - 8 * complex_leaves td"

definition determinate :: "scalar \<Rightarrow> bool" where
  "determinate v \<longleftrightarrow> v \<notin> {PSFInt8Scalar None, PSFInt32Scalar None, PSFDoubleScalar None}"

text \<open>A value that has been read: of its type, with a determinate value of its type for each member.\<close>

fun scalar_full :: "datatypedef \<Rightarrow> scalar \<Rightarrow> bool"
  and members_full :: "datatypedef list \<Rightarrow> (string \<times> scalar) list \<Rightarrow> bool" where
  "scalar_full (DataTypeDef tid name typeid pb None sz) v \<longleftrightarrow>
     scalar_typeid v = typeid \<and> determinate v"
| "scalar_full (DataTypeDef tid name typeid pb (Some (StructDef children sdsize)) sz) v \<longleftrightarrow>
     (case v of
        StructScalar s \<Rightarrow> struct_def s = Some (StructDef children sdsize) \<and> map_ok (struct_map s)
          \<and> fst ` set (struct_map s) = td_name ` set children \<and> members_full children (struct_map s)
      | _ \<Rightarrow> False)"
| "members_full [] m \<longleftrightarrow> True"
| "members_full (td # tds) m \<longleftrightarrow>
     (td_name td \<in> td_name ` set tds \<or>
        (case map_find m (td_name td) of None \<Rightarrow> False | Some v \<Rightarrow> scalar_full td v))
     \<and> members_full tds m"

lemmas typedef_induct = typedef_ok_members_ok.induct

lemmas basic_deserialize_defs = Int8Scalar_deserialize_def Int32Scalar_deserialize_def
  DoubleScalar_deserialize_def ComplexDoubleScalar_deserialize_def

lemma psfdata_size_cases:
  assumes "psfdata_size t = Inr sz"
  obtains "t = TYPEID_INT8" "sz = 4" | "t = TYPEID_INT32" "sz = 4" | "t = TYPEID_DOUBLE" "sz = 8"
    | "t = TYPEID_COMPLEXDOUBLE" "sz = 16"
  using assms by (auto simp: psfdata_size_def split: if_splits)

lemma sum_member_bytes:
  "sum_list (map member_bytes tds) =
     sum_list (map td_datasize tds) - 8 * sum_list (map complex_leaves tds)"
  by (induction tds) (simp_all add: member_bytes_def)

lemma member_bytes_struct:
  "member_bytes (DataTypeDef tid name typeid pb (Some (StructDef children sdsize)) sz)
     = sz - 8 * sum_list (map complex_leaves children)"
  by (simp add: member_bytes_def)

lemma scalar_deserialize_full:
  "typedef_wf td \<Longrightarrow> new_scalar td = Inr v0 \<Longrightarrow> scalar_deserialize img buf v0 = Inr (v, n) \<Longrightarrow>
     scalar_full td v \<and> n = member_bytes td"
  and Struct_loop_full:
  "\<forall>td \<in> set tds. typedef_wf td \<Longrightarrow> map_ok m \<Longrightarrow> Struct_loop img m tds buf = Inr (m', buf') \<Longrightarrow>
     members_full tds m' \<and> map_ok m' \<and> fst ` set m' = fst ` set m \<union> td_name ` set tds
     \<and> (\<forall>k. k \<notin> td_name ` set tds \<longrightarrow> map_find m' k = map_find m k)
     \<and> buf' = buf + sum_list (map member_bytes tds)"
proof (induct td and tds arbitrary: img buf v0 v n and img buf m m' buf' rule: typedef_induct)
  case (1 tid name typeid pb sz)
  then have "psfdata_size typeid = Inr sz" by simp
  then show ?case
    using 1 by (cases rule: psfdata_size_cases)
      (auto simp: new_scalar_def Let_def typeid_defs basic_deserialize_defs res_simps determinate_def
        member_bytes_def)
next
  case (2 tid name typeid pb children sdsize sz)
  from "2.prems" obtain m buf' where loop: "Struct_loop img [] children buf = Inr (m, buf')"
    and v: "v = StructScalar (Struct (Some (StructDef children sdsize)) m)" and n: "n = buf' - buf"
    by (auto simp: new_scalar_def Let_def typeid_defs res_simps)
  have "sum_list (map member_bytes children) = sdsize - 8 * sum_list (map complex_leaves children)"
    using "2.prems"(1) by (simp add: sum_member_bytes)
  then show ?case
    using "2.hyps" [OF _ _ loop] "2.prems"(1) v n by (simp add: member_bytes_struct)
next
  case 3
  then show ?case by simp
next
  case (4 td tds)
  from "4.prems" obtain v0 v n where v: "new_scalar td = Inr v0"
      "scalar_deserialize img buf v0 = Inr (v, n)"
    and loop: "Struct_loop img (map_put (td_name td) v m) tds (buf + n) = Inr (m', buf')"
    by (auto simp: res_simps)
  have head: "scalar_full td v \<and> n = member_bytes td"
    using "4.hyps"(1) [OF _ v] "4.prems"(1) by simp
  have "map_find m' (td_name td) = Some v" if "td_name td \<notin> td_name ` set tds"
    using that "4.hyps"(2) [OF _ _ loop] "4.prems"(1,2) by (simp add: map_find_put)
  then show ?case
    using head "4.hyps"(2) [OF _ _ loop] "4.prems"(1,2) by (auto simp: map_find_put keys_map_put)
qed

lemma complex_leaves_bounds:
  "typedef_wf td \<Longrightarrow> 0 \<le> complex_leaves td \<and> 16 * complex_leaves td \<le> td_datasize td"
  "\<forall>td \<in> set tds. typedef_wf td \<Longrightarrow> 0 \<le> sum_list (map complex_leaves tds)
     \<and> 16 * sum_list (map complex_leaves tds) \<le> sum_list (map td_datasize tds)"
proof (induct td and tds rule: typedef_induct)
  case (1 tid name typeid pb sz)
  then have "psfdata_size typeid = Inr sz" by simp
  then show ?case
    by (cases rule: psfdata_size_cases) (simp_all add: typeid_defs)
qed auto

lemma member_bytes_nonneg: "typedef_wf td \<Longrightarrow> 0 \<le> member_bytes td"
  using complex_leaves_bounds(1) [of td] by (simp add: member_bytes_def)

lemma member_bytes_sum_nonneg:
  "\<forall>td \<in> set tds. typedef_wf td \<Longrightarrow> 0 \<le> sum_list (map member_bytes tds)"
  using complex_leaves_bounds(2) [of tds] by (simp add: sum_member_bytes)

text \<open>Where the bytes are in the image the read succeeds.\<close>

lemma read_bytes_total:
  "0 \<le> buf \<Longrightarrow> buf + int n \<le> int (length img) \<Longrightarrow> \<exists>bs. read_bytes img buf n = Inr bs"
  by (simp add: read_bytes_def)

lemma GET_INT32_total: "0 \<le> buf \<Longrightarrow> buf + 4 \<le> int (length img) \<Longrightarrow> \<exists>w. GET_INT32 img buf = Inr w"
  by (simp add: GET_INT32_def read_bytes_def)

lemma GET_DOUBLE_total: "0 \<le> buf \<Longrightarrow> buf + 8 \<le> int (length img) \<Longrightarrow> \<exists>w. GET_DOUBLE img buf = Inr w"
  by (simp add: GET_DOUBLE_def read_bytes_def)

lemma scalar_deserialize_total:
  "typedef_wf td \<Longrightarrow> new_scalar td = Inr v0 \<Longrightarrow> 0 \<le> buf \<Longrightarrow> buf + member_bytes td \<le> int (length img) \<Longrightarrow>
     \<exists>r. scalar_deserialize img buf v0 = Inr r"
  and Struct_loop_total:
  "\<forall>td \<in> set tds. typedef_wf td \<Longrightarrow> 0 \<le> buf \<Longrightarrow>
     buf + sum_list (map member_bytes tds) \<le> int (length img) \<Longrightarrow> \<exists>r. Struct_loop img m tds buf = Inr r"
proof (induct td and tds arbitrary: img buf v0 and img buf m rule: typedef_induct)
  case (1 tid name typeid pb sz)
  then have "psfdata_size typeid = Inr sz" by simp
  then show ?case
    using 1 GET_INT32_total [of buf img] GET_DOUBLE_total [of buf img] read_bytes_total [of "buf + 3" 1 img]
    by (cases rule: psfdata_size_cases)
      (auto simp: new_scalar_def Let_def typeid_defs basic_deserialize_defs member_bytes_def)
next
  case (2 tid name typeid pb children sdsize sz)
  then have "buf + sum_list (map member_bytes children) \<le> int (length img)"
    by (simp add: member_bytes_struct sum_member_bytes)
  then obtain r where "Struct_loop img [] children buf = Inr r"
    using "2.hyps" [of buf img "[]"] "2.prems" by auto
  with "2.prems" show ?case
    by (cases r) (auto simp: new_scalar_def Let_def typeid_defs)
next
  case 3
  then show ?case by simp
next
  case (4 td tds)
  note bytes = member_bytes_nonneg [of td] member_bytes_sum_nonneg [of tds]
  obtain v0 where v0: "new_scalar td = Inr v0"
    using "4.prems"(1) new_scalar_wf by auto
  then obtain v n where v: "scalar_deserialize img buf v0 = Inr (v, n)"
    using "4.hyps"(1) [OF _ v0, of buf img] "4.prems" bytes by fastforce
  then have "n = member_bytes td"
    using scalar_deserialize_full [OF _ v0 v] "4.prems"(1) by simp
  then show ?case
    using v0 v "4.hyps"(2) [of "buf + n" img] "4.prems" bytes by auto
qed

text \<open>Reading data: the bytes consumed are those of the type, but for the complex members.\<close>

lemma DataTypeDef_deserialize_data_struct:
  "td_datatypeid td = TYPEID_STRUCT \<Longrightarrow>
     DataTypeDef_deserialize_data td (StructScalar s) img buf = scalar_deserialize img buf (StructScalar s)"
  by (simp add: DataTypeDef_deserialize_data_def Let_def typeid_defs)

lemma deserialize_data_full:
  assumes "typedef_wf td" and "new_scalar td = Inr v0"
    and "DataTypeDef_deserialize_data td v0 img buf = Inr (v, n)"
  shows "scalar_full td v \<and>
    n = (if td_datatypeid td = TYPEID_STRUCT then member_bytes td else td_datasize td)"
proof (cases td rule: complex_leaves.cases)
  case (1 tid name typeid pb sz)
  with assms(1) have "psfdata_size typeid = Inr sz" by simp
  then show ?thesis
    using 1 assms by (cases rule: psfdata_size_cases)
      (auto simp: DataTypeDef_deserialize_data_def Let_def typeid_defs new_scalar_def res_simps determinate_def)
next
  case (2 tid name typeid pb children sdsize sz)
  with assms have "scalar_deserialize img buf v0 = Inr (v, n)" "td_datatypeid td = TYPEID_STRUCT"
    by (auto simp: new_scalar_def Let_def typeid_defs DataTypeDef_deserialize_data_def)
  then show ?thesis
    using scalar_deserialize_full(1) [OF assms(1,2)] by simp
qed

lemma deserialize_data_total:
  assumes "typedef_wf td" and "new_scalar td = Inr v0" and "0 \<le> buf"
    and "buf + td_datasize td \<le> int (length img)"
  shows "\<exists>v n. DataTypeDef_deserialize_data td v0 img buf = Inr (v, n)"
proof (cases td rule: complex_leaves.cases)
  case (1 tid name typeid pb sz)
  with assms(1) have "psfdata_size typeid = Inr sz" by simp
  then show ?thesis
    using 1 assms(2-4) GET_INT32_total [of buf img] GET_DOUBLE_total [of buf img]
      GET_DOUBLE_total [of "buf + 8" img] read_bytes_total [of "buf + 3" 1 img]
    by (cases rule: psfdata_size_cases)
      (auto simp: DataTypeDef_deserialize_data_def Let_def typeid_defs new_scalar_def)
next
  case (2 tid name typeid pb children sdsize sz)
  with assms obtain s where "v0 = StructScalar s" "td_datatypeid td = TYPEID_STRUCT"
    by (auto simp: new_scalar_def Let_def typeid_defs)
  moreover have "\<exists>r. scalar_deserialize img buf v0 = Inr r"
    using assms complex_leaves_bounds(1) [of td]
    by (intro scalar_deserialize_total) (auto simp: member_bytes_def)
  ultimately show ?thesis by (auto simp: DataTypeDef_deserialize_data_struct)
qed

subsection \<open>The encoding of values\<close>

fun enc_value :: "datatypedef \<Rightarrow> scalar \<Rightarrow> 8 word list"
  and enc_member_values :: "datatypedef list \<Rightarrow> (string \<times> scalar) list \<Rightarrow> 8 word list" where
  "enc_value (DataTypeDef tid name typeid pb None sz) v =
     (case v of
        PSFInt8Scalar (Some b) \<Rightarrow> [0, 0, 0, b]
      | PSFInt32Scalar (Some w) \<Rightarrow> enc32 w
      | PSFDoubleScalar (Some d) \<Rightarrow> enc64 d
      | PSFComplexDoubleScalar re im \<Rightarrow> enc64 re @ enc64 im
      | _ \<Rightarrow> [])"
| "enc_value (DataTypeDef tid name typeid pb (Some (StructDef children sdsize)) sz) v =
     (case v of StructScalar s \<Rightarrow> enc_member_values children (struct_map s) | _ \<Rightarrow> [])"
| "enc_member_values [] m = []"
| "enc_member_values (td # tds) m =
     (case map_find m (td_name td) of Some v \<Rightarrow> enc_value td v | None \<Rightarrow> []) @ enc_member_values tds m"

text \<open>No two members of a struct share their name, at any depth.\<close>

fun distinct_members :: "datatypedef \<Rightarrow> bool" where
  "distinct_members (DataTypeDef tid name typeid pb None sz) \<longleftrightarrow> True"
| "distinct_members (DataTypeDef tid name typeid pb (Some (StructDef children sdsize)) sz) \<longleftrightarrow>
     distinct (map td_name children) \<and> (\<forall>td \<in> set children. distinct_members td)"

lemma determinateE:
  assumes "determinate v" and "scalar_typeid v = typeid" and "psfdata_size typeid = Inr sz"
  obtains (int8) b where "v = PSFInt8Scalar (Some b)" "typeid = 1" "sz = 4"
    | (int32) w where "v = PSFInt32Scalar (Some w)" "typeid = 5" "sz = 4"
    | (double) d where "v = PSFDoubleScalar (Some d)" "typeid = 11" "sz = 8"
    | (complex) re im where "v = PSFComplexDoubleScalar re im" "typeid = 12" "sz = 16"
  using assms(3)
proof (cases rule: psfdata_size_cases)
qed (use assms(1,2) that in \<open>cases v; auto simp: determinate_def typeid_defs\<close>)+

lemma read_int8_enc: "seg img buf [0, 0, 0, b] \<Longrightarrow> read_bytes img (buf + 3) (Suc 0) = Inr [b]"
  using seg_append [of img buf "[0, 0, 0]" "[b]"] by (simp add: decodes)

lemma scalar_deserialize_enc:
  "typedef_wf td \<Longrightarrow> distinct_members td \<Longrightarrow> complex_leaves td = 0 \<Longrightarrow> new_scalar td = Inr v0 \<Longrightarrow>
   scalar_full td v \<Longrightarrow> seg img buf (enc_value td v) \<Longrightarrow>
     scalar_deserialize img buf v0 = Inr (v, int (length (enc_value td v)))"
  and Struct_loop_enc:
  "\<forall>td \<in> set tds. typedef_wf td \<and> distinct_members td \<and> complex_leaves td = 0 \<Longrightarrow>
   distinct (map td_name tds) \<Longrightarrow> members_full tds mv \<Longrightarrow> map_ok m \<Longrightarrow>
   seg img buf (enc_member_values tds mv) \<Longrightarrow>
     \<exists>m'. Struct_loop img m tds buf = Inr (m', buf + int (length (enc_member_values tds mv))) \<and> map_ok m'
       \<and> (\<forall>k. map_find m' k = (if k \<in> td_name ` set tds then map_find mv k else map_find m k))"
proof (induct td and tds arbitrary: img buf v v0 and img buf m mv rule: typedef_induct)
  case (1 tid name typeid pb sz)
  then have *: "determinate v" "scalar_typeid v = typeid" "psfdata_size typeid = Inr sz" by simp_all
  then show ?case
    using 1 by (cases rule: determinateE)
      (auto simp: new_scalar_def Let_def typeid_defs basic_deserialize_defs decodes read_int8_enc)
next
  case (2 tid name typeid pb children sdsize sz)
  from "2.prems"(5) obtain s where v: "v = StructScalar s"
    and s: "struct_def s = Some (StructDef children sdsize)" "map_ok (struct_map s)"
      "fst ` set (struct_map s) = td_name ` set children" "members_full children (struct_map s)"
    by (auto split: scalar.splits)
  have leaves: "\<forall>td \<in> set children. complex_leaves td = 0"
    using "2.prems"(1,3) complex_leaves_bounds(1)
      sum_list_nonneg_eq_0_iff [of "map complex_leaves children"] by auto
  obtain m' where loop: "Struct_loop img [] children buf
      = Inr (m', buf + int (length (enc_member_values children (struct_map s))))" and "map_ok m'"
    and find: "map_find m' k = (if k \<in> td_name ` set children then map_find (struct_map s) k else None)" for k
    using "2.hyps" [of "struct_map s" "[]" img buf] "2.prems" leaves v s by auto
  moreover have "map_find m' k = map_find (struct_map s) k" for k
    unfolding find s(3) [symmetric] by (auto simp: map_find_def dest!: map_of_eq_None_iff [THEN iffD2])
  ultimately have "m' = struct_map s"
    using s(2) by (intro std_map.entries_unique) auto
  with loop "2.prems"(1,4) v s(1) show ?case
    by (cases s) (auto simp: new_scalar_def Let_def typeid_defs)
next
  case 3
  then show ?case by simp
next
  case (4 td tds)
  then obtain v0 v where v0: "new_scalar td = Inr v0" and v: "map_find mv (td_name td) = Some v"
    "scalar_full td v"
    using new_scalar_wf [of td] by (auto split: option.splits)
  have at: "seg img buf (enc_value td v)"
    "seg img (buf + int (length (enc_value td v))) (enc_member_values tds mv)"
    using "4.prems"(5) v by (simp_all add: seg_simps)
  have read: "scalar_deserialize img buf v0 = Inr (v, int (length (enc_value td v)))"
    using "4.hyps"(1) [OF _ _ _ v0 v(2) at(1)] "4.prems"(1) by simp
  obtain m' where "Struct_loop img (map_put (td_name td) v m) tds (buf + int (length (enc_value td v)))
      = Inr (m', buf + int (length (enc_value td v)) + int (length (enc_member_values tds mv)))"
    and "map_ok m'" and "\<And>k. map_find m' k = (if k \<in> td_name ` set tds then map_find mv k
      else map_find (map_put (td_name td) v m) k)"
    using "4.hyps"(2) [OF _ _ _ _ at(2), of "map_put (td_name td) v m"] "4.prems" by auto
  with v0 v read "4.prems"(2) show ?case
    by (intro exI [of _ m']) (auto simp: map_find_put algebra_simps)
qed

lemma deserialize_data_enc:
  assumes "typedef_wf td" and "distinct_members td" and "new_scalar td = Inr v0" and "scalar_full td v"
    and "td_datatypeid td = TYPEID_STRUCT \<Longrightarrow> complex_leaves td = 0"
    and "seg img buf (enc_value td v)"
  shows "DataTypeDef_deserialize_data td v0 img buf = Inr (v, int (length (enc_value td v)))"
proof (cases td rule: complex_leaves.cases)
  case (1 tid name typeid pb sz)
  with assms have *: "determinate v" "scalar_typeid v = typeid" "psfdata_size typeid = Inr sz" by simp_all
  then show ?thesis
    using 1 assms(3,6) by (cases rule: determinateE)
      (auto simp: new_scalar_def Let_def typeid_defs DataTypeDef_deserialize_data_def decodes read_int8_enc
        seg_simps)
next
  case (2 tid name typeid pb children sdsize sz)
  with assms have struct: "td_datatypeid td = TYPEID_STRUCT" and "\<exists>s. v0 = StructScalar s"
    by (auto simp: new_scalar_def Let_def typeid_defs)
  then show ?thesis
    using scalar_deserialize_enc(1) [OF assms(1,2) _ assms(3,4,6)] assms(5)
    by (auto simp: DataTypeDef_deserialize_data_struct)
qed

lemma fails_basic [fails_intros]:
  "fails_in format_errors (Int8Scalar_deserialize img buf)"
  "fails_in format_errors (Int32Scalar_deserialize img buf)"
  "fails_in format_errors (DoubleScalar_deserialize img buf)"
  "fails_in format_errors (ComplexDoubleScalar_deserialize im img buf)"
  unfolding basic_deserialize_defs by (intro fails_intros)+

lemma fails_new_scalar [fails_intros]: "fails_in format_errors (new_scalar td)"
  by (simp add: new_scalar_def Let_def)

text \<open>The types that were read never make a struct without definition, nor data of another class.\<close>

lemma fails_scalar_deserialize:
  "typedef_wf td \<Longrightarrow> new_scalar td = Inr v0 \<Longrightarrow> fails_in format_errors (scalar_deserialize img buf v0)"
  and fails_Struct_loop:
  "\<forall>td \<in> set tds. typedef_wf td \<Longrightarrow> fails_in format_errors (Struct_loop img m tds buf)"
proof (induct td and tds arbitrary: img buf v0 and img buf m rule: typedef_induct)
  case (1 tid name typeid pb sz)
  then have "psfdata_size typeid = Inr sz" by simp
  then show ?case
    using 1 by (cases rule: psfdata_size_cases)
      (auto simp: new_scalar_def Let_def typeid_defs intro: fails_basic)
next
  case (2 tid name typeid pb children sdsize sz)
  then have "v0 = StructScalar (Struct (Some (StructDef children sdsize)) [])"
    by (auto simp: new_scalar_def Let_def typeid_defs)
  then show ?case
    using 2 by (auto intro!: fails_intros)
next
  case 3
  then show ?case by simp
next
  case (4 td tds)
  then show ?case by (auto intro!: fails_intros)
qed

lemma fails_deserialize_data:
  assumes "typedef_wf td" and "new_scalar td = Inr v0"
  shows "fails_in format_errors (DataTypeDef_deserialize_data td v0 img buf)"
proof (cases "td_datatypeid td = TYPEID_STRUCT")
  case True
  then obtain s where "v0 = StructScalar s"
    using assms(2) by (auto simp: new_scalar_def Let_def typeid_defs)
  with True fails_scalar_deserialize(1) [OF assms] show ?thesis
    by (simp add: DataTypeDef_deserialize_data_struct del: scalar_deserialize.simps)
next
  case False
  with assms(2) show ?thesis
    by (auto simp: new_scalar_def Let_def typeid_defs DataTypeDef_deserialize_data_def
        intro!: fails_intros split: if_splits)
qed

lemma length_enc_value:
  "typedef_wf td \<Longrightarrow> distinct_members td \<Longrightarrow> scalar_full td v \<Longrightarrow>
     int (length (enc_value td v)) = td_datasize td"
  "\<forall>td \<in> set tds. typedef_wf td \<and> distinct_members td \<Longrightarrow> distinct (map td_name tds) \<Longrightarrow>
     members_full tds m \<Longrightarrow> int (length (enc_member_values tds m)) = sum_list (map td_datasize tds)"
proof (induct td and tds arbitrary: v and m rule: typedef_induct)
  case (1 tid name typeid pb sz)
  then have "determinate v" "scalar_typeid v = typeid" "psfdata_size typeid = Inr sz" by simp_all
  then show ?case
    by (cases rule: determinateE) simp_all
next
  case (2 tid name typeid pb children sdsize sz)
  then show ?case by (auto split: scalar.splits)
next
  case (4 td tds)
  then show ?case by (auto split: option.splits)
qed simp

end
