(* ===== verification/Vectors.thy ===== *)
theory Vectors
  imports StructData "HOL-Library.Sublist"
begin

section \<open>Vectors of values (include/psfdata.h, src/psfdata.cc)\<close>

text \<open>
  A \<open>PSFVectorT<T>\<close> is a \<open>std::vector<T>\<close> with the value that \<open>resize\<close> fills it with; the
  class \<open>T\<close> is that of the initial value. \<open>psf_vector\<close> states what the readers of traces rely
  on: \<open>ptr_at\<close> is checked, a store through the pointer changes one element. A \<open>VectorStruct\<close>
  is the transpose of a vector of structs, one vector per member.
\<close>

subsection \<open>The interface\<close>

locale psf_vector =
  fixes vsize :: "'v \<Rightarrow> int"
    and resize :: "'v \<Rightarrow> int \<Rightarrow> 'v res"
    and ptr_at :: "'v \<Rightarrow> int \<Rightarrow> 's res"
    and store :: "'v \<Rightarrow> int \<Rightarrow> 's \<Rightarrow> 'v"
    and init :: "'v \<Rightarrow> 's"
  assumes ptr_at_total: "0 \<le> i \<Longrightarrow> i < vsize v \<Longrightarrow> \<exists>x. ptr_at v i = Inr x"
    and ptr_at_range: "i < 0 \<or> vsize v \<le> i \<Longrightarrow> ptr_at v i = Inl (Throw OutOfRange)"
    and vsize_nonneg: "0 \<le> vsize v"
    and vsize_store: "vsize (store v i x) = vsize v"
    and ptr_at_store: "0 \<le> i \<Longrightarrow> i < vsize v \<Longrightarrow>
      ptr_at (store v i x) j = (if j = i then Inr x else ptr_at v j)"
    and resize_negative: "n < 0 \<Longrightarrow> resize v n = Inl (Throw LengthError)"
    and resize_total: "0 \<le> n \<Longrightarrow> \<exists>v'. resize v n = Inr v'"
    and vsize_resize: "resize v n = Inr v' \<Longrightarrow> vsize v' = n"
    and ptr_at_resize: "resize v n = Inr v' \<Longrightarrow> 0 \<le> i \<Longrightarrow> i < n \<Longrightarrow>
      ptr_at v' i = (if i < vsize v then ptr_at v i else Inr (init v))"
    and init_store: "init (store v i x) = init v"
    and init_resize: "resize v n = Inr v' \<Longrightarrow> init v' = init v"
begin

text \<open>Growing a vector keeps what it held and appends initial values.\<close>

lemma resize_old: "resize v n = Inr v' \<Longrightarrow> 0 \<le> i \<Longrightarrow> i < vsize v \<Longrightarrow> i < n \<Longrightarrow> ptr_at v' i = ptr_at v i"
  by (simp add: ptr_at_resize)

lemma resize_new: "resize v n = Inr v' \<Longrightarrow> vsize v \<le> i \<Longrightarrow> i < n \<Longrightarrow> ptr_at v' i = Inr (init v)"
  using vsize_nonneg [of v] by (simp add: ptr_at_resize)

lemma resize_resize:
  assumes "resize v n = Inr v'" and "resize v' m = Inr v''" and "n \<le> m" and "0 \<le> i" "i < vsize v" "i < n"
  shows "ptr_at v'' i = ptr_at v i"
  using assms vsize_resize [OF assms(1)] resize_old [OF assms(2), of i] resize_old [OF assms(1), of i]
  by simp

lemma store_other: "0 \<le> i \<Longrightarrow> i < vsize v \<Longrightarrow> j \<noteq> i \<Longrightarrow> ptr_at (store v i x) j = ptr_at v j"
  by (simp add: ptr_at_store)

lemma store_same: "0 \<le> i \<Longrightarrow> i < vsize v \<Longrightarrow> ptr_at (store v i x) i = Inr x"
  by (simp add: ptr_at_store)

lemma ptr_at_Inr: "ptr_at v i = Inr x \<Longrightarrow> 0 \<le> i \<and> i < vsize v"
  using ptr_at_range [of i v] by (cases "i < 0 \<or> vsize v \<le> i") auto

end

subsection \<open>\<open>PSFVectorT\<close>\<close>

datatype psfvector = PSFVectorT (pv_init: scalar) (pv_elems: "scalar list")

text \<open>The constructors: numbers start at zero but for \<open>PSFInt8Vector\<close>, which leaves its initial value open.\<close>

definition new_vector :: "datatypedef \<Rightarrow> psfvector res" where
  "new_vector td = (let t = td_datatypeid td in
     if t = TYPEID_INT8 then Inr (PSFVectorT (PSFInt8Scalar None) [])
     else if t = TYPEID_INT32 then Inr (PSFVectorT (PSFInt32Scalar (Some 0)) [])
     else if t = TYPEID_DOUBLE then Inr (PSFVectorT (PSFDoubleScalar (Some 0)) [])
     else if t = TYPEID_COMPLEXDOUBLE then Inr (PSFVectorT (PSFComplexDoubleScalar 0 0) [])
     else if t = TYPEID_STRUCT then
       Inr (PSFVectorT (StructScalar (Struct (td_structdef td) [])) [])
     else Inl (Throw (UnknownType t)))"

definition pv_size :: "psfvector \<Rightarrow> int" where
  "pv_size v = int (length (pv_elems v))"

text \<open>A negative size is converted to \<open>std::size_t\<close> and exceeds \<open>max_size()\<close>.\<close>

definition pv_resize :: "psfvector \<Rightarrow> int \<Rightarrow> psfvector res" where
  "pv_resize v n =
     (if n < 0 then Inl (Throw LengthError)
      else Inr (PSFVectorT (pv_init v)
        (take (nat n) (pv_elems v) @ replicate (nat n - length (pv_elems v)) (pv_init v))))"

text \<open>\<open>ptr_at(i)\<close> is a pointer to \<open>at(i)\<close>: what it points to, and the vector after a store through it.\<close>

definition pv_ptr_at :: "psfvector \<Rightarrow> int \<Rightarrow> scalar res" where
  "pv_ptr_at v i =
     (if 0 \<le> i \<and> i < pv_size v then Inr (pv_elems v ! nat i) else Inl (Throw OutOfRange))"

definition pv_store :: "psfvector \<Rightarrow> int \<Rightarrow> scalar \<Rightarrow> psfvector" where
  "pv_store v i x = PSFVectorT (pv_init v) ((pv_elems v)[nat i := x])"

definition pv_extend :: "psfvector \<Rightarrow> psfvector \<Rightarrow> psfvector res" where
  "pv_extend v w =
     (if scalar_typeid (pv_init w) \<noteq> scalar_typeid (pv_init v) then Inl (Throw BadCast)
      else Inr (PSFVectorT (pv_init v) (pv_elems v @ pv_elems w)))"

definition pv_assign_scalar :: "psfvector \<Rightarrow> int \<Rightarrow> scalar \<Rightarrow> psfvector res" where
  "pv_assign_scalar v i rhs =
     (if scalar_typeid rhs \<noteq> scalar_typeid (pv_init v) then Inl (Throw BadCast)
      else if 0 \<le> i \<and> i < pv_size v then Inr (pv_store v i rhs)
      else Inl (Undefined OutOfBounds))"

lemma pv_ptr_at_resize:
  assumes "pv_resize v n = Inr v'" and "0 \<le> i" "i < n"
  shows "pv_ptr_at v' i = (if i < pv_size v then pv_ptr_at v i else Inr (pv_init v))"
proof -
  have "nat i < nat n" using assms by simp
  then show ?thesis
    using assms by (auto simp: pv_resize_def pv_ptr_at_def pv_size_def nth_append min_def nat_less_iff
        split: if_splits)
qed

interpretation pv: psf_vector pv_size pv_resize pv_ptr_at pv_store pv_init
proof unfold_locales
  show "pv_ptr_at v' i = (if i < pv_size v then pv_ptr_at v i else Inr (pv_init v))"
    if "pv_resize v n = Inr v'" "0 \<le> i" "i < n" for v n v' i
    using that by (rule pv_ptr_at_resize)
qed (auto simp: pv_size_def pv_resize_def pv_ptr_at_def pv_store_def nth_list_update split: if_splits)

subsection \<open>Reading points into a vector\<close>

text \<open>
  The loop \<open>for(k) buf += def.deserialize_data(vec->ptr_at(start+k), buf)\<close>: the vector with
  \<open>n\<close> points more and the end of the data.
\<close>

definition deserialize_point ::
    "datatypedef \<Rightarrow> psfvector \<Rightarrow> int \<Rightarrow> image \<Rightarrow> int \<Rightarrow> (psfvector \<times> int) res" where
  "deserialize_point td vec i img buf =
     rbind (pv_ptr_at vec i) (\<lambda>data.
     rbind (DataTypeDef_deserialize_data td data img buf) (\<lambda>(data, n).
     Inr (pv_store vec i data, n)))"

fun deserialize_points ::
    "datatypedef \<Rightarrow> nat \<Rightarrow> psfvector \<Rightarrow> int \<Rightarrow> image \<Rightarrow> int \<Rightarrow> (psfvector \<times> int) res" where
  "deserialize_points td 0 vec start img buf = Inr (vec, buf)"
| "deserialize_points td (Suc n) vec start img buf =
     rbind (deserialize_point td vec start img buf) (\<lambda>(vec, m).
     deserialize_points td n vec (start + 1) img (buf + m))"

text \<open>
  An element that \<open>resize\<close> made is an object of the type; reading into it does not depend on what
  it held.
\<close>

definition fresh_for :: "datatypedef \<Rightarrow> scalar \<Rightarrow> bool" where
  "fresh_for td data \<longleftrightarrow> scalar_typeid data = td_datatypeid td \<and>
     (td_datatypeid td = TYPEID_STRUCT \<longrightarrow> data = StructScalar (Struct (td_structdef td) []))"

lemma new_vector_init: "new_vector td = Inr v \<Longrightarrow> pv_elems v = [] \<and> fresh_for td (pv_init v)"
  by (auto simp: new_vector_def fresh_for_def Let_def typeid_defs split: if_splits)

lemma new_vector_wf: "typedef_wf td \<Longrightarrow> \<exists>v. new_vector td = Inr v"
  by (auto simp: typedef_wf_iff new_vector_def psfdata_size_def typeid_defs Let_def split: if_splits)

lemma new_vector_new_scalar: "(\<exists>v. new_vector td = Inr v) \<longleftrightarrow> (\<exists>v. new_scalar td = Inr v)"
  by (simp add: new_vector_def new_scalar_def Let_def)

lemma deserialize_data_fresh:
  assumes "fresh_for td data" and "new_scalar td = Inr v0"
  shows "DataTypeDef_deserialize_data td data img buf = DataTypeDef_deserialize_data td v0 img buf"
  using assms
  by (cases data) (auto simp: fresh_for_def new_scalar_def Let_def typeid_defs
      DataTypeDef_deserialize_data_def split: if_splits)

definition value_ok :: "datatypedef \<Rightarrow> scalar \<Rightarrow> bool" where
  "value_ok td v \<longleftrightarrow> typedef_wf td \<and> distinct_members td \<and> scalar_full td v \<and>
     (td_datatypeid td = TYPEID_STRUCT \<longrightarrow> complex_leaves td = 0)"

lemma deserialize_point_enc:
  assumes "value_ok td v" and "pv_ptr_at vec i = Inr data" and "fresh_for td data"
    and "seg img buf (enc_value td v)"
  shows "deserialize_point td vec i img buf = Inr (pv_store vec i v, int (length (enc_value td v)))"
proof -
  obtain v0 where v0: "new_scalar td = Inr v0"
    using assms(1) new_scalar_wf by (auto simp: value_ok_def)
  have "DataTypeDef_deserialize_data td v0 img buf = Inr (v, int (length (enc_value td v)))"
    using assms(1,4) v0 by (intro deserialize_data_enc) (auto simp: value_ok_def)
  with assms(2,3) v0 show ?thesis
    by (simp add: deserialize_point_def deserialize_data_fresh)
qed

text \<open>A vector of \<open>n\<close> elements of which the first \<open>i\<close> have been read.\<close>

definition filled :: "scalar \<Rightarrow> scalar list \<Rightarrow> nat \<Rightarrow> nat \<Rightarrow> psfvector" where
  "filled i0 vs i n = PSFVectorT i0 (take i vs @ replicate (n - i) i0)"

lemma filled_ptr_at: "i < n \<Longrightarrow> n = length vs \<Longrightarrow> pv_ptr_at (filled i0 vs i n) (int i) = Inr i0"
  by (simp add: filled_def pv_ptr_at_def pv_size_def nth_append)

lemma filled_store:
  assumes "i < n" and "n = length vs"
  shows "pv_store (filled i0 vs i n) (int i) (vs ! i) = filled i0 vs (Suc i) n"
proof -
  have "replicate (n - i) i0 = i0 # replicate (n - Suc i) i0"
    using assms by (cases "n - i") (auto simp: Suc_diff_Suc)
  then show ?thesis
    using assms by (simp add: filled_def pv_store_def list_update_append take_Suc_conv_app_nth)
qed

lemma filled_all: "filled i0 vs (length vs) (length vs) = PSFVectorT i0 vs"
  by (simp add: filled_def)

lemma filled_none: "filled i0 vs 0 n = PSFVectorT i0 (replicate n i0)"
  by (simp add: filled_def)

lemma deserialize_point_filled:
  assumes "value_ok td (vs ! i)" and "fresh_for td i0" and "i < n" and "n = length vs"
    and "seg img buf (enc_value td (vs ! i))"
  shows "deserialize_point td (filled i0 vs i n) (int i) img buf
    = Inr (filled i0 vs (Suc i) n, int (length (enc_value td (vs ! i))))"
  using deserialize_point_enc [OF assms(1) filled_ptr_at assms(2,5)] assms(3,4)
  by (simp add: filled_store)

lemma deserialize_points_filled:
  assumes "\<forall>v \<in> set vs. value_ok td v" and "fresh_for td i0" and "i + k \<le> n" and "n = length vs"
    and "seg img buf (concat (map (enc_value td) (take k (drop i vs))))"
  shows "deserialize_points td k (filled i0 vs i n) (int i) img buf
    = Inr (filled i0 vs (i + k) n, buf + int (length (concat (map (enc_value td) (take k (drop i vs))))))"
  using assms
proof (induction k arbitrary: i buf)
  case 0
  then show ?case by simp
next
  case (Suc k)
  have "take (Suc k) (drop i vs) = vs ! i # take k (drop (Suc i) vs)"
    using Suc.prems(3,4) by (simp add: Cons_nth_drop_Suc [symmetric])
  with Suc show ?case
    using deserialize_point_filled [of td vs i i0 n img buf]
      Suc.IH [of "Suc i" "buf + int (length (enc_value td (vs ! i)))"]
    by (simp add: seg_simps algebra_simps)
qed

subsection \<open>\<open>VectorStruct\<close>\<close>

text \<open>
  One vector per member name. The length is set by \<open>copy_from_structvector\<close> only (\<open>None\<close> is
  indeterminate). A struct without a member is an end iterator dereferenced.
\<close>

datatype vectorstruct = VectorStruct (vs_n: "int option") (vs_map: "(string \<times> psfvector) list")

fun init_loop :: "datatypedef list \<Rightarrow> (string \<times> psfvector) list \<Rightarrow> (string \<times> psfvector) list res" where
  "init_loop [] m = Inr m"
| "init_loop (itemdef # itemdefs) m =
     rbind (new_vector itemdef) (\<lambda>vec. init_loop itemdefs (map_put (td_name itemdef) vec m))"

definition init_from_structdef :: "structdef option \<Rightarrow> vectorstruct \<Rightarrow> vectorstruct res" where
  "init_from_structdef sd vs =
     (case sd of
        None \<Rightarrow> Inl (Undefined NullPointer)
      | Some sd \<Rightarrow> rbind (init_loop (sd_children sd) (vs_map vs)) (\<lambda>m. Inr (VectorStruct (vs_n vs) m)))"

definition struct_member :: "string \<Rightarrow> scalar \<Rightarrow> scalar res" where
  "struct_member key v =
     (case v of
        StructScalar s \<Rightarrow>
          (case map_find (struct_map s) key of None \<Rightarrow> Inl (Undefined EndIterator) | Some x \<Rightarrow> Inr x)
      | _ \<Rightarrow> Inl (Undefined WrongType))"

fun assign_loop :: "string \<Rightarrow> scalar list \<Rightarrow> int \<Rightarrow> psfvector \<Rightarrow> psfvector res" where
  "assign_loop key [] jindex vec = Inr vec"
| "assign_loop key (j # js) jindex vec =
     rbind (struct_member key j) (\<lambda>rhs.
     rbind (pv_assign_scalar vec jindex rhs) (\<lambda>vec. assign_loop key js (jindex + 1) vec))"

fun copy_loop :: "psfvector \<Rightarrow> (string \<times> psfvector) list \<Rightarrow> (string \<times> psfvector) list res" where
  "copy_loop structvec [] = Inr []"
| "copy_loop structvec ((key, vec) # rest) =
     rbind (pv_resize vec (pv_size structvec)) (\<lambda>vec.
     rbind (assign_loop key (pv_elems structvec) 0 vec) (\<lambda>vec.
     rbind (copy_loop structvec rest) (\<lambda>rest. Inr ((key, vec) # rest))))"

definition copy_from_structvector :: "vectorstruct \<Rightarrow> psfvector \<Rightarrow> (vectorstruct \<times> int) res" where
  "copy_from_structvector vs structvec =
     rbind (copy_loop structvec (vs_map vs)) (\<lambda>m.
       Inr (VectorStruct (Some (pv_size structvec)) m, pv_size structvec))"

definition VectorStruct_of_structdef :: "structdef option \<Rightarrow> vectorstruct res" where
  "VectorStruct_of_structdef sd = init_from_structdef sd (VectorStruct None [])"

definition VectorStruct_of_structvec :: "psfvector \<Rightarrow> vectorstruct res" where
  "VectorStruct_of_structvec structvec =
     (case pv_init structvec of
        StructScalar s \<Rightarrow>
          rbind (init_from_structdef (struct_def s) (VectorStruct None [])) (\<lambda>vs.
          rbind (copy_from_structvector vs structvec) (\<lambda>(vs, n). Inr vs))
      | _ \<Rightarrow> Inl (Undefined WrongType))"

text \<open>The member vectors have the class of the last definition of their name.\<close>

lemma init_loop_find:
  assumes "\<forall>td \<in> set tds. typedef_wf td" and "map_ok m"
  shows "\<exists>m'. init_loop tds m = Inr m' \<and> map_ok m'
    \<and> fst ` set m' = fst ` set m \<union> td_name ` set tds
    \<and> (\<forall>k vec. map_find m' k = Some vec \<longrightarrow> (k \<notin> td_name ` set tds \<and> map_find m k = Some vec) \<or>
         (\<exists>td tds'. suffix (td # tds') tds \<and> td_name td = k \<and> k \<notin> td_name ` set tds' \<and> new_vector td = Inr vec))"
  using assms
proof (induction tds arbitrary: m)
  case Nil
  then show ?case by auto
next
  case (Cons td tds)
  obtain vec where vec: "new_vector td = Inr vec"
    using Cons.prems(1) new_vector_wf by auto
  obtain m' where m': "init_loop tds (map_put (td_name td) vec m) = Inr m'" "map_ok m'"
      "fst ` set m' = fst ` set (map_put (td_name td) vec m) \<union> td_name ` set tds"
    and find: "\<And>k vec'. map_find m' k = Some vec' \<Longrightarrow>
       (k \<notin> td_name ` set tds \<and> map_find (map_put (td_name td) vec m) k = Some vec') \<or>
       (\<exists>td tds'. suffix (td # tds') tds \<and> td_name td = k \<and> k \<notin> td_name ` set tds' \<and> new_vector td = Inr vec')"
    using Cons.IH [of "map_put (td_name td) vec m"] Cons.prems by auto
  show ?case
  proof (intro exI conjI allI impI)
    show "init_loop (td # tds) m = Inr m'" "map_ok m'"
      "fst ` set m' = fst ` set m \<union> td_name ` set (td # tds)"
      using vec m' by (auto simp: keys_map_put)
    show "(k \<notin> td_name ` set (td # tds) \<and> map_find m k = Some vec') \<or>
        (\<exists>td' tds'. suffix (td' # tds') (td # tds) \<and> td_name td' = k \<and> k \<notin> td_name ` set tds'
          \<and> new_vector td' = Inr vec')" if "map_find m' k = Some vec'" for k vec'
      using find [OF that] vec by (auto simp: map_find_put suffix_Cons split: if_splits)
  qed
qed

text \<open>Copying one member out of the structs.\<close>

lemma assign_loop_member:
  assumes "\<forall>j \<in> set js. \<exists>x. struct_member key j = Inr x \<and> scalar_typeid x = scalar_typeid (pv_init vec)"
    and "0 \<le> jindex" and "jindex + int (length js) \<le> pv_size vec"
  shows "\<exists>vec'. assign_loop key js jindex vec = Inr vec' \<and> pv_size vec' = pv_size vec \<and> pv_init vec' = pv_init vec
    \<and> (\<forall>i. pv_ptr_at vec' i = (if jindex \<le> i \<and> i < jindex + int (length js)
         then struct_member key (js ! nat (i - jindex)) else pv_ptr_at vec i))"
  using assms
proof (induction js arbitrary: jindex vec)
  case Nil
  then show ?case by auto
next
  case (Cons j js)
  then obtain x where x: "struct_member key j = Inr x" "scalar_typeid x = scalar_typeid (pv_init vec)"
    by auto
  have range: "0 \<le> jindex" "jindex < pv_size vec"
    using Cons.prems(2,3) by auto
  obtain vec' where loop: "assign_loop key js (jindex + 1) (pv_store vec jindex x) = Inr vec'"
    "pv_size vec' = pv_size vec" "pv_init vec' = pv_init vec"
    and at: "\<And>i. pv_ptr_at vec' i = (if jindex + 1 \<le> i \<and> i < jindex + 1 + int (length js)
      then struct_member key (js ! nat (i - (jindex + 1))) else pv_ptr_at (pv_store vec jindex x) i)"
    using Cons.IH [of "pv_store vec jindex x" "jindex + 1"] Cons.prems
    by (auto simp: pv.vsize_store pv.init_store)
  have "pv_ptr_at vec' i = (if jindex \<le> i \<and> i < jindex + int (length (j # js))
      then struct_member key ((j # js) ! nat (i - jindex)) else pv_ptr_at vec i)" for i
    using range x(1) at [of i] by (auto simp: pv.ptr_at_store nth_Cons' nat_diff_distrib' nat_add_distrib)
  with x range loop show ?case
    by (intro exI [of _ vec']) (simp add: pv_assign_scalar_def)
qed

lemma copy_loop_members:
  assumes "\<forall>(key, vec) \<in> set m. \<forall>j \<in> set (pv_elems structvec).
      \<exists>x. struct_member key j = Inr x \<and> scalar_typeid x = scalar_typeid (pv_init vec)"
  shows "\<exists>m'. copy_loop structvec m = Inr m' \<and> map fst m' = map fst m
    \<and> (\<forall>(key, vec) \<in> set m'. pv_size vec = pv_size structvec
        \<and> (\<exists>vec0. (key, vec0) \<in> set m \<and> pv_init vec = pv_init vec0)
        \<and> (\<forall>i. 0 \<le> i \<and> i < pv_size structvec \<longrightarrow>
             pv_ptr_at vec i = struct_member key (pv_elems structvec ! nat i)))"
  using assms
proof (induction m)
  case Nil
  then show ?case by simp
next
  case (Cons kv m)
  obtain key vec where kv: "kv = (key, vec)" by (cases kv)
  obtain vec1 where vec1: "pv_resize vec (pv_size structvec) = Inr vec1"
    using pv.resize_total [OF pv.vsize_nonneg] by blast
  have "\<forall>j \<in> set (pv_elems structvec). \<exists>x. struct_member key j = Inr x
      \<and> scalar_typeid x = scalar_typeid (pv_init vec1)"
    using Cons.prems kv pv.init_resize [OF vec1] by simp
  then obtain vec' where vec': "assign_loop key (pv_elems structvec) 0 vec1 = Inr vec'"
      "pv_size vec' = pv_size structvec" "pv_init vec' = pv_init vec"
    and at: "\<And>i. 0 \<le> i \<Longrightarrow> i < pv_size structvec \<Longrightarrow>
      pv_ptr_at vec' i = struct_member key (pv_elems structvec ! nat i)"
    using assign_loop_member [of "pv_elems structvec" key vec1 0] pv.vsize_resize [OF vec1] pv.init_resize [OF vec1]
    by (auto simp: pv_size_def)
  from Cons obtain m' where "copy_loop structvec m = Inr m'" "map fst m' = map fst m"
    "\<forall>(key, vec) \<in> set m'. pv_size vec = pv_size structvec
        \<and> (\<exists>vec0. (key, vec0) \<in> set m \<and> pv_init vec = pv_init vec0)
        \<and> (\<forall>i. 0 \<le> i \<and> i < pv_size structvec \<longrightarrow>
             pv_ptr_at vec i = struct_member key (pv_elems structvec ! nat i))"
    by auto
  with kv vec1 vec' at show ?case by fastforce
qed

lemma members_full_suffix:
  "members_full tds m \<Longrightarrow> suffix (td # tds') tds \<Longrightarrow> td_name td \<notin> td_name ` set tds' \<Longrightarrow>
     \<exists>x. map_find m (td_name td) = Some x \<and> scalar_full td x"
proof (induction tds)
  case (Cons td1 tds)
  then show ?case
    by (auto simp: suffix_Cons split: option.splits)
qed simp

lemma scalar_full_typeid: "typedef_wf td \<Longrightarrow> scalar_full td v \<Longrightarrow> scalar_typeid v = td_datatypeid td"
  by (cases td rule: complex_leaves.cases) (auto simp: typeid_defs split: scalar.splits)

text \<open>
  The transpose: a vector for each member, of its class, whose element \<open>i\<close> is that member of struct \<open>i\<close>.
\<close>

definition transposed :: "psfvector \<Rightarrow> structdef \<Rightarrow> (string, psfvector) stdmap \<Rightarrow> bool" where
  "transposed structvec sd m \<longleftrightarrow> map_ok m \<and> fst ` set m = td_name ` set (sd_children sd)
    \<and> (\<forall>(key, vec) \<in> set m. pv_size vec = pv_size structvec
        \<and> (\<exists>c \<in> set (sd_children sd). td_name c = key \<and> scalar_typeid (pv_init vec) = td_datatypeid c
             \<and> (\<forall>i. 0 \<le> i \<and> i < pv_size structvec \<longrightarrow>
               (\<exists>x. struct_member key (pv_elems structvec ! nat i) = Inr x \<and> pv_ptr_at vec i = Inr x \<and> scalar_full c x))))"

lemma VectorStruct_transpose:
  assumes wf: "typedef_wf td" and td: "td_structdef td = Some sd"
    and init: "pv_init structvec = StructScalar (Struct (Some sd) [])"
    and elems: "\<forall>v \<in> set (pv_elems structvec). scalar_full td v"
  shows "\<exists>m. VectorStruct_of_structvec structvec = Inr (VectorStruct (Some (pv_size structvec)) m) \<and> transposed structvec sd m"
proof -
  obtain tid name typeid pb children sdsize sz
    where td_eq: "td = DataTypeDef tid name typeid pb (Some (StructDef children sdsize)) sz"
      and sd: "sd = StructDef children sdsize"
    using td by (cases td rule: complex_leaves.cases) auto
  have children: "\<forall>td \<in> set children. typedef_wf td"
    using wf td_eq by simp
  obtain m where m: "init_loop children [] = Inr m" "map_ok m" "fst ` set m = td_name ` set children"
    and find: "\<And>k vec. map_find m k = Some vec \<Longrightarrow>
      \<exists>td tds'. suffix (td # tds') children \<and> td_name td = k \<and> k \<notin> td_name ` set tds' \<and> new_vector td = Inr vec"
    using init_loop_find [OF children, of "[]"] by fastforce
  have member: "\<exists>c \<in> set children. td_name c = key \<and> scalar_typeid (pv_init vec) = td_datatypeid c
      \<and> (\<forall>v \<in> set (pv_elems structvec). \<exists>x. struct_member key v = Inr x \<and> scalar_full c x)"
    if key: "(key, vec) \<in> set m" for key vec
  proof -
    have "map_find m key = Some vec"
      using key m(2) by (simp add: map_find_def map_ok_distinct map_of_is_SomeI)
    then obtain td' tds' where td': "suffix (td' # tds') children" "td_name td' = key"
        "key \<notin> td_name ` set tds'" "new_vector td' = Inr vec"
      using find by blast
    have "\<exists>x. struct_member key v = Inr x \<and> scalar_full td' x" if v: "v \<in> set (pv_elems structvec)" for v
    proof -
      obtain s where s: "v = StructScalar s" "members_full children (struct_map s)"
        using bspec [OF elems v] td_eq by (auto split: scalar.splits)
      with members_full_suffix [OF s(2) td'(1)] td'(2,3) show ?thesis
        by (auto simp: struct_member_def)
    qed
    moreover have "td' \<in> set children"
      using set_mono_suffix [OF td'(1)] by auto
    ultimately show ?thesis
      using td'(2) new_vector_init [OF td'(4)] by (auto simp: fresh_for_def)
  qed
  have "\<forall>j \<in> set (pv_elems structvec). \<exists>x. struct_member key j = Inr x \<and> scalar_typeid x = scalar_typeid (pv_init vec)"
    if key: "(key, vec) \<in> set m" for key vec
  proof -
    obtain c where "c \<in> set children" "scalar_typeid (pv_init vec) = td_datatypeid c"
      "\<forall>v \<in> set (pv_elems structvec). \<exists>x. struct_member key v = Inr x \<and> scalar_full c x"
      using member [OF key] by blast
    with children scalar_full_typeid [of c] show ?thesis by fastforce
  qed
  then have "\<forall>(key, vec) \<in> set m. \<forall>j \<in> set (pv_elems structvec).
      \<exists>x. struct_member key j = Inr x \<and> scalar_typeid x = scalar_typeid (pv_init vec)"
    by blast
  from copy_loop_members [OF this] obtain m' where m': "copy_loop structvec m = Inr m'" "map fst m' = map fst m"
    and at: "\<And>key vec. (key, vec) \<in> set m' \<Longrightarrow> pv_size vec = pv_size structvec
        \<and> (\<exists>vec0. (key, vec0) \<in> set m \<and> pv_init vec = pv_init vec0)
        \<and> (\<forall>i. 0 \<le> i \<and> i < pv_size structvec \<longrightarrow> pv_ptr_at vec i = struct_member key (pv_elems structvec ! nat i))"
    by blast
  have "\<exists>c \<in> set children. td_name c = key \<and> scalar_typeid (pv_init vec) = td_datatypeid c
      \<and> (\<forall>i. 0 \<le> i \<and> i < pv_size structvec \<longrightarrow>
          (\<exists>x. struct_member key (pv_elems structvec ! nat i) = Inr x \<and> pv_ptr_at vec i = Inr x \<and> scalar_full c x))"
    if vec: "(key, vec) \<in> set m'" for key vec
  proof -
    obtain vec0 where "(key, vec0) \<in> set m" "pv_init vec = pv_init vec0"
      using at [OF vec] by blast
    with member obtain c where c: "c \<in> set children" "td_name c = key" "scalar_typeid (pv_init vec) = td_datatypeid c"
      "\<forall>v \<in> set (pv_elems structvec). \<exists>x. struct_member key v = Inr x \<and> scalar_full c x"
      by metis
    have "pv_elems structvec ! nat i \<in> set (pv_elems structvec)" if "0 \<le> i" "i < pv_size structvec" for i
      using that by (simp add: pv_size_def nat_less_iff)
    with c at [OF vec] show ?thesis
      by (intro bexI [OF _ c(1)] conjI allI impI c(2,3)) metis
  qed
  moreover have "map_ok m'" "fst ` set m' = td_name ` set children"
    using m(2,3) m'(2) by (simp_all add: map_ok_def) (metis set_map)
  moreover have "VectorStruct_of_structvec structvec = Inr (VectorStruct (Some (pv_size structvec)) m')"
    using m(1) m'(1)
    by (simp add: VectorStruct_of_structvec_def init init_from_structdef_def copy_from_structvector_def sd)
  ultimately show ?thesis
    using at by (intro exI [of _ m']) (auto simp: sd transposed_def)
qed

lemma transposed_column:
  assumes "transposed structvec sd m" and "(key, vec) \<in> set m"
  shows "\<exists>c \<in> set (sd_children sd). td_name c = key \<and> scalar_typeid (pv_init vec) = td_datatypeid c
    \<and> pv_size vec = pv_size structvec
    \<and> list_all2 (\<lambda>s v. struct_member key s = Inr v) (pv_elems structvec) (pv_elems vec)
    \<and> (\<forall>x \<in> set (pv_elems vec). scalar_full c x)"
proof -
  obtain c where c: "c \<in> set (sd_children sd)" "td_name c = key" "scalar_typeid (pv_init vec) = td_datatypeid c"
    and size: "pv_size vec = pv_size structvec"
    and at: "\<And>i. 0 \<le> i \<Longrightarrow> i < pv_size structvec \<Longrightarrow>
      \<exists>x. struct_member key (pv_elems structvec ! nat i) = Inr x \<and> pv_ptr_at vec i = Inr x \<and> scalar_full c x"
    using assms unfolding transposed_def by blast
  have "struct_member key (pv_elems structvec ! i) = Inr (pv_elems vec ! i) \<and> scalar_full c (pv_elems vec ! i)"
    if "i < length (pv_elems vec)" for i
    using at [of "int i"] that size by (auto simp: pv_ptr_at_def pv_size_def)
  with c size show ?thesis
    by (intro bexI [of _ c]) (auto simp: list_all2_conv_all_nth in_set_conv_nth pv_size_def)
qed

end
