(* ===== verification/Refs.thy ===== *)
theory Refs
  imports Vectors
begin

section \<open>References to types and groups (src/psftype.cc, src/psfgroup.cc)\<close>

text \<open>
  A trace or a sweep parameter is a \<open>DataTypeRef\<close>: a name, an identifier, the identifier of its
  type and properties. A \<open>GroupDef\<close> is a list of references with an index by name and by
  identifier; its factory makes nothing else, so the children are a list of references.
\<close>

subsection \<open>\<open>DataTypeRef\<close>\<close>

record datatyperef =
  tr_id :: int
  tr_name :: string
  tr_datatypeid :: int
  tr_properties :: propertyblock

definition DataTypeRef_ischunk :: "int \<Rightarrow> bool" where
  "DataTypeRef_ischunk chunktype \<longleftrightarrow> chunktype = 16"

definition DataTypeRef_deserialize :: "image \<Rightarrow> int \<Rightarrow> (datatyperef \<times> int) res" where
  "DataTypeRef_deserialize img startbuf =
     rbind (Chunk_deserialize 16 img startbuf) (\<lambda>n. let buf = startbuf + n in
     rbind (GET_INT32 img buf) (\<lambda>m_id. let buf = buf + 4 in
     rbind (String_deserialize img buf) (\<lambda>(m_name, n). let buf = buf + n in
     rbind (GET_INT32 img buf) (\<lambda>m_datatypeid. let buf = buf + 4 in
     rbind (PropertyBlock_deserialize empty_block img buf) (\<lambda>(m_properties, n). let buf = buf + n in
     Inr (\<lparr>tr_id = sint m_id, tr_name = m_name, tr_datatypeid = sint m_datatypeid,
            tr_properties = m_properties\<rparr>, buf - startbuf))))))"

lemma DataTypeRef_deserialize_progress:
  "DataTypeRef_deserialize img buf = Inr (ref, n) \<Longrightarrow>
     16 \<le> n \<and> 0 \<le> buf \<and> buf + n + 4 \<le> int (length img) \<and> block_wf (tr_properties ref)"
  by (auto simp: DataTypeRef_deserialize_def Let_def res_simps
      dest!: GET_INT32_bounds String_deserialize_progress PropertyBlock_deserialize_progress)

interpretation typeref_reader: reader DataTypeRef_deserialize
  by unfold_locales (auto dest: DataTypeRef_deserialize_progress)

lemma fails_DataTypeRef [fails_intros]:
  "small_image img \<Longrightarrow> fails_in format_errors (DataTypeRef_deserialize img buf)"
  unfolding DataTypeRef_deserialize_def Let_def by (intro fails_intros)

definition enc_typeref :: "datatyperef \<Rightarrow> 8 word list" where
  "enc_typeref r = enc_int 16 @ enc_int (tr_id r) @ enc_string (tr_name r) @ enc_int (tr_datatypeid r)
     @ enc_block (tr_properties r)"

definition typeref_ok :: "datatyperef \<Rightarrow> bool" where
  "typeref_ok r \<longleftrightarrow> int_range (tr_id r) \<and> string_ok (tr_name r) \<and> int_range (tr_datatypeid r)
     \<and> block_ok (tr_properties r)"

lemma DataTypeRef_deserialize_enc:
  assumes "typeref_ok r" and "\<not> property_ischunk t" and "int_range t"
    and "seg img buf (enc_typeref r @ enc_int t)"
  shows "DataTypeRef_deserialize img buf = Inr (r, int (length (enc_typeref r)))"
proof -
  define l where "l = int (length (enc_string (tr_name r)))"
  have at: "Chunk_deserialize 16 img buf = Inr 4"
    "GET_INT32 img (4 + buf) = Inr (word_of_int (tr_id r))"
    "String_deserialize img (8 + buf) = Inr (tr_name r, l)"
    "GET_INT32 img (8 + (buf + l)) = Inr (word_of_int (tr_datatypeid r))"
    and block: "seg img (12 + (buf + l)) (enc_block (tr_properties r) @ enc_int t)"
    using assms(1,4) unfolding l_def enc_typeref_def typeref_ok_def
    by (auto simp: seg_simps algebra_simps decodes simp del: length_enc_string)
  have "PropertyBlock_deserialize empty_block img (12 + (buf + l))
      = Inr (tr_properties r, int (length (enc_block (tr_properties r))))"
    using assms(1-3) block by (intro PropertyBlock_deserialize_enc_block) (auto simp: typeref_ok_def)
  with at assms(1) show ?thesis
    by (simp add: DataTypeRef_deserialize_def Let_def typeref_ok_def enc_typeref_def l_def [symmetric]
        algebra_simps del: length_enc_string)
qed

lemma enc_typeref_marker: "seg img buf (enc_typeref r) \<Longrightarrow> seg img buf (enc_int 16)"
  by (simp add: enc_typeref_def seg_simps)

interpretation typeref_codec: block_codec DataTypeRef_deserialize enc_typeref typeref_ok "\<lambda>_. 16"
  by unfold_locales (auto intro: DataTypeRef_deserialize_enc enc_typeref_marker)

subsection \<open>\<open>GroupDef\<close>\<close>

record groupdef =
  gd_id :: int
  gd_name :: string
  gd_nchildren :: int
  gd_children :: "datatyperef list"
  gd_indexmap :: "(int, int) stdmap"
  gd_namemap :: "(string, int) stdmap"

definition GroupDef_ischunk :: "int \<Rightarrow> bool" where
  "GroupDef_ischunk chunktype \<longleftrightarrow> chunktype = 17"

definition GroupDef_child_factory :: "int \<Rightarrow> (unit option) res" where
  "GroupDef_child_factory chunktype =
     (if DataTypeRef_ischunk chunktype then Inr (Some ()) else Inl (Throw (IncorrectChunk chunktype)))"

text \<open>
  The loop makes \<open>m_nchildren\<close> children and enters the position of each under its name. The
  factory throws rather than return \<open>NULL\<close>, so the child is never missing.
\<close>

fun GroupDef_loop :: "image \<Rightarrow> nat \<Rightarrow> int \<Rightarrow> datatyperef list \<Rightarrow> (string, int) stdmap \<Rightarrow> int
    \<Rightarrow> (datatyperef list \<times> (string, int) stdmap \<times> int) res" where
  "GroupDef_loop img 0 i children m_namemap buf = Inr (children, m_namemap, buf)"
| "GroupDef_loop img (Suc k) i children m_namemap buf =
     rbind (deserialize_child GroupDef_child_factory
         (\<lambda>_ img buf. DataTypeRef_deserialize img buf) img buf) (\<lambda>(child, n).
     case child of
       Some ref \<Rightarrow> GroupDef_loop img k (i + 1) (children @ [ref]) (map_put (tr_name ref) i m_namemap) (buf + n)
     | None \<Rightarrow> Inl (Undefined NullPointer))"

definition create_valueindexmap :: "datatyperef list \<Rightarrow> (int, int) stdmap" where
  "create_valueindexmap children =
     fold (\<lambda>(i, ref). map_put (tr_id ref) (int i)) (enumerate 0 children) []"

definition GroupDef_deserialize :: "image \<Rightarrow> int \<Rightarrow> (groupdef \<times> int) res" where
  "GroupDef_deserialize img startbuf =
     rbind (Chunk_deserialize 17 img startbuf) (\<lambda>n. let buf = startbuf + n in
     rbind (GET_INT32 img buf) (\<lambda>m_id. let buf = buf + 4 in
     rbind (String_deserialize img buf) (\<lambda>(m_name, n). let buf = buf + n in
     rbind (GET_INT32 img buf) (\<lambda>w. let m_nchildren = sint w; buf = buf + 4 in
     rbind (GroupDef_loop img (nat m_nchildren) 0 [] [] buf) (\<lambda>(children, m_namemap, buf).
     Inr (\<lparr>gd_id = sint m_id, gd_name = m_name, gd_nchildren = m_nchildren, gd_children = children,
            gd_indexmap = create_valueindexmap children, gd_namemap = m_namemap\<rparr>, buf - startbuf))))))"

text \<open>\<open>get_child_index\<close> throws where \<open>IndexedContainer::get_child_index\<close> returns \<open>-1\<close>.\<close>

definition GroupDef_get_child_index :: "groupdef \<Rightarrow> string \<Rightarrow> int res" where
  "GroupDef_get_child_index g name =
     (case map_find (gd_namemap g) name of None \<Rightarrow> Inl (Throw NotFound) | Some i \<Rightarrow> Inr i)"

definition vector_at :: "'a list \<Rightarrow> int \<Rightarrow> 'a res" where
  "vector_at xs i = (if 0 \<le> i \<and> i < int (length xs) then Inr (xs ! nat i) else Inl (Throw OutOfRange))"

definition GroupDef_get_child_by_name :: "groupdef \<Rightarrow> string \<Rightarrow> datatyperef res" where
  "GroupDef_get_child_by_name g name =
     rbind (GroupDef_get_child_index g name) (\<lambda>i. vector_at (gd_children g) i)"

definition GroupDef_get_names :: "groupdef \<Rightarrow> string list" where
  "GroupDef_get_names g = map tr_name (gd_children g)"

lemma create_valueindexmap_eq: "create_valueindexmap children = index_map (map tr_id children)"
  by (induction children rule: rev_induct)
    (simp_all add: create_valueindexmap_def index_map_snoc enumerate_append_eq)

lemma GroupDef_child_factory_Inr [simp]: "GroupDef_child_factory t = Inr c \<longleftrightarrow> t = 16 \<and> c = Some ()"
  by (auto simp: GroupDef_child_factory_def DataTypeRef_ischunk_def)

text \<open>The loop adds the children it was asked for, and the names index them.\<close>

lemma GroupDef_loop_Inr:
  assumes "GroupDef_loop img k (int (length children)) children (index_map (map tr_name children)) buf
     = Inr (children', m_namemap, buf')"
  shows "m_namemap = index_map (map tr_name children') \<and> length children' = length children + k
    \<and> buf + 16 * int k \<le> buf'
    \<and> (k = 0 \<and> buf' = buf \<or> 0 \<le> buf \<and> buf' + 4 \<le> int (length img))"
  using assms
proof (induction k arbitrary: children buf)
  case 0
  then show ?case by auto
next
  case (Suc k)
  from Suc.prems obtain ref n where ref: "DataTypeRef_deserialize img buf = Inr (ref, n)"
    and rest: "GroupDef_loop img k (int (length children) + 1) (children @ [ref])
      (map_put (tr_name ref) (int (length children)) (index_map (map tr_name children))) (buf + n)
      = Inr (children', m_namemap, buf')"
    by (simp, elim child_turnE) auto
  show ?case
    using Suc.IH [of "children @ [ref]" "buf + n"] rest DataTypeRef_deserialize_progress [OF ref]
    by (auto simp: index_map_snoc algebra_simps)
qed

definition group_wf :: "groupdef \<Rightarrow> bool" where
  "group_wf g \<longleftrightarrow> gd_namemap g = index_map (map tr_name (gd_children g))
     \<and> gd_indexmap g = index_map (map tr_id (gd_children g))
     \<and> length (gd_children g) = nat (gd_nchildren g)"

lemma GroupDef_deserialize_progress:
  "GroupDef_deserialize img buf = Inr (g, n) \<Longrightarrow>
     16 \<le> n \<and> 0 \<le> buf \<and> buf + n \<le> int (length img) \<and> group_wf g"
  by (auto simp: GroupDef_deserialize_def Let_def res_simps group_wf_def create_valueindexmap_eq
      dest!: GET_INT32_bounds String_deserialize_progress
        GroupDef_loop_Inr [where children = "[]", simplified] split: if_splits)

interpretation group_reader: reader GroupDef_deserialize
  by unfold_locales (auto dest: GroupDef_deserialize_progress)

text \<open>A name that a group lists is found, and only such a name.\<close>

lemma GroupDef_get_child_found:
  assumes "group_wf g" and "name \<in> set (GroupDef_get_names g)"
  shows "\<exists>i ref. GroupDef_get_child_index g name = Inr i \<and> 0 \<le> i \<and> i < int (length (gd_children g))
    \<and> GroupDef_get_child_by_name g name = Inr ref \<and> ref = gd_children g ! nat i \<and> tr_name ref = name"
proof -
  obtain i where i: "map_find (gd_namemap g) name = Some i"
    using assms index_map_None [of "map tr_name (gd_children g)" name]
    by (fastforce simp: group_wf_def GroupDef_get_names_def)
  then have "0 \<le> i" "i < int (length (gd_children g))"
    and "map tr_name (gd_children g) ! nat i = name"
    using index_map_Some [of "map tr_name (gd_children g)" name i] assms(1)
    by (auto simp: group_wf_def)
  moreover from this have "tr_name (gd_children g ! nat i) = name"
    by (simp add: nat_less_iff)
  ultimately show ?thesis
    using i by (simp add: GroupDef_get_child_index_def GroupDef_get_child_by_name_def vector_at_def)
qed

lemma GroupDef_get_child_missing:
  assumes "group_wf g" and "name \<notin> set (GroupDef_get_names g)"
  shows "GroupDef_get_child_index g name = Inl (Throw NotFound)"
    and "GroupDef_get_child_by_name g name = Inl (Throw NotFound)"
  using assms index_map_None [of "map tr_name (gd_children g)" name]
  by (simp_all add: GroupDef_get_child_by_name_def GroupDef_get_child_index_def group_wf_def
      GroupDef_get_names_def)

lemma fails_GroupDef_loop:
  "small_image img \<Longrightarrow> fails_in format_errors (GroupDef_loop img k i children m buf)"
proof (induction k arbitrary: i children m buf)
  case (Suc k)
  show ?case
    unfolding GroupDef_loop.simps
  proof (intro fails_intros Suc)
    show "fails_in format_errors (GroupDef_child_factory t)" for t
      by (simp add: GroupDef_child_factory_def)
    show "fails_in format_errors (Inl (Undefined NullPointer))"
      if "deserialize_child GroupDef_child_factory (\<lambda>_ img buf. DataTypeRef_deserialize img buf) img buf
        = Inr x" "x = (child, n)" "child = None" for x n and child :: "datatyperef option"
      using that by (auto simp: deserialize_child_None)
  qed
qed simp

lemma fails_GroupDef [fails_intros]:
  "small_image img \<Longrightarrow> fails_in format_errors (GroupDef_deserialize img buf)"
  unfolding GroupDef_deserialize_def Let_def by (intro fails_intros fails_GroupDef_loop)

definition enc_group :: "groupdef \<Rightarrow> 8 word list" where
  "enc_group g = enc_int 17 @ enc_int (gd_id g) @ enc_string (gd_name g) @ enc_int (gd_nchildren g)
     @ concat (map enc_typeref (gd_children g))"

definition group_ok :: "groupdef \<Rightarrow> bool" where
  "group_ok g \<longleftrightarrow> int_range (gd_id g) \<and> string_ok (gd_name g) \<and> int_range (gd_nchildren g)
     \<and> 0 \<le> gd_nchildren g \<and> group_wf g \<and> (\<forall>r \<in> set (gd_children g). typeref_ok r)"

lemma GroupDef_loop_enc:
  "\<forall>r \<in> set refs. typeref_ok r \<Longrightarrow> \<not> property_ischunk t \<Longrightarrow> int_range t \<Longrightarrow>
   seg img buf (concat (map enc_typeref refs) @ enc_int t) \<Longrightarrow>
     GroupDef_loop img (length refs) (int (length children)) children (index_map (map tr_name children)) buf
       = Inr (children @ refs, index_map (map tr_name (children @ refs)),
           buf + int (length (concat (map enc_typeref refs))))"
proof (induction refs arbitrary: children buf)
  case Nil
  then show ?case by simp
next
  case (Cons ref refs)
  have ref: "DataTypeRef_deserialize img buf = Inr (ref, int (length (enc_typeref ref)))"
    by (rule typeref_codec.dec_first) (use Cons.prems in auto)
  have "GET_INT32 img buf = Inr 16"
    using Cons.prems(4) enc_typeref_marker [of img buf ref] by (auto simp: seg_simps decodes)
  moreover have "seg img (buf + int (length (enc_typeref ref))) (concat (map enc_typeref refs) @ enc_int t)"
    using Cons.prems(4) by (simp add: seg_simps algebra_simps)
  ultimately show ?case
    using ref Cons.IH [of "buf + int (length (enc_typeref ref))" "children @ [ref]"] Cons.prems(1-3)
    by (simp add: deserialize_child_def index_map_snoc algebra_simps
        GroupDef_child_factory_def DataTypeRef_ischunk_def)
qed

lemma GroupDef_deserialize_enc:
  assumes "group_ok g" and "\<not> property_ischunk t" and "int_range t"
    and "seg img buf (enc_group g @ enc_int t)"
  shows "GroupDef_deserialize img buf = Inr (g, int (length (enc_group g)))"
proof -
  define l where "l = int (length (enc_string (gd_name g)))"
  have at: "Chunk_deserialize 17 img buf = Inr 4"
    "GET_INT32 img (4 + buf) = Inr (word_of_int (gd_id g))"
    "String_deserialize img (8 + buf) = Inr (gd_name g, l)"
    "GET_INT32 img (8 + (buf + l)) = Inr (word_of_int (gd_nchildren g))"
    and children: "seg img (12 + (buf + l)) (concat (map enc_typeref (gd_children g)) @ enc_int t)"
    using assms(1,4) unfolding l_def enc_group_def group_ok_def
    by (auto simp: seg_simps algebra_simps decodes simp del: length_enc_string)
  have "GroupDef_loop img (length (gd_children g)) 0 [] [] (12 + (buf + l))
      = Inr (gd_children g, index_map (map tr_name (gd_children g)),
          12 + (buf + l) + int (length (concat (map enc_typeref (gd_children g)))))"
    using GroupDef_loop_enc [OF _ assms(2,3) children, of "[]"] assms(1) by (simp add: group_ok_def)
  moreover have "nat (gd_nchildren g) = length (gd_children g)"
    using assms(1) by (simp add: group_ok_def group_wf_def)
  ultimately show ?thesis
    using at assms(1) l_def
    by (cases g) (simp add: GroupDef_deserialize_def Let_def group_ok_def group_wf_def enc_group_def
        create_valueindexmap_eq algebra_simps del: length_enc_string)
qed

interpretation group_codec: block_codec GroupDef_deserialize enc_group group_ok "\<lambda>_. 17"
proof unfold_locales
  show "GroupDef_deserialize img buf = Inr (g, int (length (enc_group g)))"
    if "group_ok g" "\<not> property_ischunk t" "int_range t" "seg img buf (enc_group g @ enc_int t)"
    for g t img buf
    using that by (rule GroupDef_deserialize_enc)
qed (auto simp: enc_group_def seg_simps)

end
