(* ===== verification/Containers.thy ===== *)
theory Containers
  imports Refs
begin

section \<open>Chunks, containers and sections (src/psfcontainer.cc, psfindexedcontainer.cc, psfsections.cc, psfnonsweepvalue.cc)\<close>

text \<open>
  A section is a container of chunks. Which chunks it may hold is decided by its
  \<open>child_factory\<close>; reading goes on while the position is before the end that the section
  announces. An \<open>IndexedContainer\<close> has its children in a sub container, skips the index of the
  file and builds its own index by identifier and by name. The lemmas show that the loops end,
  what the index holds, which chunks each section has, and that encoded children are read back.
\<close>

subsection \<open>Chunks\<close>

record nonsweepvalue =
  nv_id :: int
  nv_name :: string
  nv_valuetypeid :: int
  nv_value :: scalar
  nv_propblock :: propertyblock

datatype chunk =
    PropertyChunk property
  | DataTypeDefChunk datatypedef
  | DataTypeRefChunk datatyperef
  | GroupDefChunk groupdef
  | NonSweepValueChunk nonsweepvalue

text \<open>The virtual functions; a class without its own \<open>get_id\<close> has \<open>-1\<close>.\<close>

fun get_id :: "chunk \<Rightarrow> int" where
  "get_id (PropertyChunk p) = -1"
| "get_id (DataTypeDefChunk td) = td_id td"
| "get_id (DataTypeRefChunk r) = tr_id r"
| "get_id (GroupDefChunk g) = -1"
| "get_id (NonSweepValueChunk v) = -1"

fun get_name :: "chunk \<Rightarrow> string" where
  "get_name (PropertyChunk p) = prop_name p"
| "get_name (DataTypeDefChunk td) = td_name td"
| "get_name (DataTypeRefChunk r) = tr_name r"
| "get_name (GroupDefChunk g) = gd_name g"
| "get_name (NonSweepValueChunk v) = nv_name v"

fun m_chunktype :: "chunk \<Rightarrow> int" where
  "m_chunktype (PropertyChunk p) = prop_chunktype p"
| "m_chunktype (DataTypeDefChunk td) = 16"
| "m_chunktype (DataTypeRefChunk r) = 16"
| "m_chunktype (GroupDefChunk g) = 17"
| "m_chunktype (NonSweepValueChunk v) = -1"

subsection \<open>Looking up children\<close>

record indexedcontainer =
  ic_children :: "chunk list"
  ic_idmap :: "(int, chunk) stdmap"
  ic_namemap :: "(string, int) stdmap"

definition IndexedContainer_get_child_by_id :: "indexedcontainer \<Rightarrow> int \<Rightarrow> chunk res" where
  "IndexedContainer_get_child_by_id c ident =
     (case map_find (ic_idmap c) ident of None \<Rightarrow> Inl (Undefined EndIterator) | Some ch \<Rightarrow> Inr ch)"

definition IndexedContainer_get_child_by_name :: "indexedcontainer \<Rightarrow> string \<Rightarrow> chunk res" where
  "IndexedContainer_get_child_by_name c name =
     (case map_find (ic_namemap c) name of
        None \<Rightarrow> Inl (Throw NotFound)
      | Some i \<Rightarrow> vector_at (ic_children c) i)"

definition IndexedContainer_get_child_index :: "indexedcontainer \<Rightarrow> string \<Rightarrow> int" where
  "IndexedContainer_get_child_index c name =
     (case map_find (ic_namemap c) name of None \<Rightarrow> -1 | Some i \<Rightarrow> i)"

text \<open>\<open>Container::get_child\<close> searches the children; where there is none it returns nothing.\<close>

definition Container_get_child_by_id :: "chunk list \<Rightarrow> int \<Rightarrow> chunk res" where
  "Container_get_child_by_id children ident =
     (case List.find (\<lambda>child. ident = get_id child) children of
        None \<Rightarrow> Inl (Undefined NoReturn) | Some ch \<Rightarrow> Inr ch)"

definition Container_get_child_by_name :: "chunk list \<Rightarrow> string \<Rightarrow> chunk res" where
  "Container_get_child_by_name children name =
     (case List.find (\<lambda>child. name = get_name child) children of
        None \<Rightarrow> Inl (Undefined NoReturn) | Some ch \<Rightarrow> Inr ch)"

definition Container_get_names :: "chunk list \<Rightarrow> string list" where
  "Container_get_names children = map get_name children"

text \<open>\<open>dynamic_cast\<close> to a reference.\<close>

definition cast_DataTypeDef :: "chunk \<Rightarrow> datatypedef res" where
  "cast_DataTypeDef ch = (case ch of DataTypeDefChunk td \<Rightarrow> Inr td | _ \<Rightarrow> Inl (Throw BadCast))"

definition cast_DataTypeRef :: "chunk \<Rightarrow> datatyperef res" where
  "cast_DataTypeRef ch = (case ch of DataTypeRefChunk r \<Rightarrow> Inr r | _ \<Rightarrow> Inl (Throw BadCast))"

definition cast_GroupDef :: "chunk \<Rightarrow> groupdef res" where
  "cast_GroupDef ch = (case ch of GroupDefChunk g \<Rightarrow> Inr g | _ \<Rightarrow> Inl (Throw BadCast))"

definition cast_NonSweepValue :: "chunk \<Rightarrow> nonsweepvalue res" where
  "cast_NonSweepValue ch = (case ch of NonSweepValueChunk v \<Rightarrow> Inr v | _ \<Rightarrow> Inl (Throw BadCast))"

text \<open>\<open>psf->get_type_section().get_typedef(id)\<close>; a file without type section has a null pointer there.\<close>

definition get_typedef :: "indexedcontainer option \<Rightarrow> int \<Rightarrow> datatypedef res" where
  "get_typedef types ident =
     (case types of
        None \<Rightarrow> Inl (Undefined NullPointer)
      | Some types \<Rightarrow> rbind (IndexedContainer_get_child_by_id types ident) cast_DataTypeDef)"

definition DataTypeRef_get_datatype :: "indexedcontainer option \<Rightarrow> datatyperef \<Rightarrow> datatypedef res" where
  "DataTypeRef_get_datatype types r = get_typedef types (tr_datatypeid r)"

definition DataTypeRef_new_vector :: "indexedcontainer option \<Rightarrow> datatyperef \<Rightarrow> psfvector res" where
  "DataTypeRef_new_vector types r = rbind (DataTypeRef_get_datatype types r) new_vector"

definition DataTypeRef_new_dataobject :: "indexedcontainer option \<Rightarrow> datatyperef \<Rightarrow> scalar res" where
  "DataTypeRef_new_dataobject types r = rbind (DataTypeRef_get_datatype types r) DataTypeDef_new_dataobject"

definition DataTypeRef_datasize :: "indexedcontainer option \<Rightarrow> datatyperef \<Rightarrow> int res" where
  "DataTypeRef_datasize types r = rbind (DataTypeRef_get_datatype types r) (\<lambda>td. Inr (td_datasize td))"

definition DataTypeRef_deserialize_data ::
    "indexedcontainer option \<Rightarrow> datatyperef \<Rightarrow> scalar \<Rightarrow> image \<Rightarrow> int \<Rightarrow> (scalar \<times> int) res" where
  "DataTypeRef_deserialize_data types r data img buf =
     rbind (DataTypeRef_get_datatype types r) (\<lambda>def. DataTypeDef_deserialize_data def data img buf)"

text \<open>The offsets that \<open>GroupDef::fill_offsetmap\<close> enters, and the bytes of the group.\<close>

fun fill_offsetmap_loop :: "indexedcontainer option \<Rightarrow> int \<Rightarrow> datatyperef list \<Rightarrow> int \<Rightarrow> (int, int) stdmap
    \<Rightarrow> ((int, int) stdmap \<times> int) res" where
  "fill_offsetmap_loop types windowsize [] offset m = Inr (m, offset)"
| "fill_offsetmap_loop types windowsize (ref # refs) offset m =
     (let m = map_put (tr_id ref) offset m in
      rbind (if windowsize \<noteq> 0 then c_int (offset + windowsize)
             else rbind (DataTypeRef_datasize types ref) (\<lambda>n. c_int (offset + n))) (\<lambda>offset.
      fill_offsetmap_loop types windowsize refs offset m))"

definition fill_offsetmap :: "indexedcontainer option \<Rightarrow> groupdef \<Rightarrow> (int, int) stdmap \<Rightarrow> int \<Rightarrow> int
    \<Rightarrow> ((int, int) stdmap \<times> int) res" where
  "fill_offsetmap types g offsetmap windowsize startoffset =
     rbind (fill_offsetmap_loop types windowsize (gd_children g) startoffset offsetmap) (\<lambda>(m, offset).
     rbind (c_int (offset - startoffset)) (\<lambda>n. Inr (m, n)))"

subsection \<open>\<open>NonSweepValue\<close>\<close>

definition NonSweepValue_ischunk :: "int \<Rightarrow> bool" where
  "NonSweepValue_ischunk chunktype \<longleftrightarrow> chunktype = 16"

definition NonSweepValue_deserialize ::
    "indexedcontainer option \<Rightarrow> image \<Rightarrow> int \<Rightarrow> (nonsweepvalue \<times> int) res" where
  "NonSweepValue_deserialize types img startbuf =
     rbind (Chunk_deserialize (-1) img startbuf) (\<lambda>n. let buf = startbuf + n in
     rbind (GET_INT32 img buf) (\<lambda>m_id. let buf = buf + 4 in
     rbind (String_deserialize img buf) (\<lambda>(m_name, n). let buf = buf + n in
     rbind (GET_INT32 img buf) (\<lambda>w. let m_valuetypeid = sint w; buf = buf + 4 in
     rbind (get_typedef types m_valuetypeid) (\<lambda>def.
     rbind (new_scalar def) (\<lambda>m_value.
     rbind (DataTypeDef_deserialize_data def m_value img buf) (\<lambda>(m_value, n). let buf = buf + n in
     rbind (PropertyBlock_deserialize empty_block img buf) (\<lambda>(m_propblock, n). let buf = buf + n in
     Inr (\<lparr>nv_id = sint m_id, nv_name = m_name, nv_valuetypeid = m_valuetypeid, nv_value = m_value,
            nv_propblock = m_propblock\<rparr>, buf - startbuf)))))))))"

lemma scalar_deserialize_nonneg:
  "scalar_deserialize img buf v = Inr (v', n) \<Longrightarrow> 0 \<le> n"
  "Struct_deserialize img buf s = Inr (s', n) \<Longrightarrow> 0 \<le> n"
  "Struct_loop img m tds buf = Inr (m', buf') \<Longrightarrow> buf \<le> buf'"
proof (induct img buf v and img buf s and img m tds buf
    arbitrary: v' n and s' n and m' buf'
    rule: scalar_deserialize_Struct_deserialize_Struct_loop.induct)
qed (auto simp: basic_deserialize_defs StringScalar_deserialize_def res_simps
    dest!: String_deserialize_progress; fastforce)+

lemma deserialize_data_nonneg:
  "DataTypeDef_deserialize_data td data img buf = Inr (v, n) \<Longrightarrow> 0 \<le> n"
  by (auto simp: DataTypeDef_deserialize_data_def Let_def res_simps dest: scalar_deserialize_nonneg(2)
      split: if_splits scalar.splits)

lemma NonSweepValue_deserialize_progress:
  "NonSweepValue_deserialize types img buf = Inr (v, n) \<Longrightarrow>
     16 \<le> n \<and> 0 \<le> buf \<and> buf + n + 4 \<le> int (length img) \<and> block_wf (nv_propblock v)"
  by (auto simp: NonSweepValue_deserialize_def Let_def res_simps
      dest!: GET_INT32_bounds String_deserialize_progress PropertyBlock_deserialize_progress
        deserialize_data_nonneg)

interpretation nonsweepvalue_reader: reader "NonSweepValue_deserialize types" for types
  by unfold_locales (auto dest: NonSweepValue_deserialize_progress)

subsection \<open>Children\<close>

text \<open>The classes that the factories make, and the virtual call of their \<open>deserialize\<close>.\<close>

datatype chunkclass = PropertyClass | DataTypeDefClass | DataTypeRefClass | GroupDefClass | NonSweepValueClass

fun chunk_deserialize ::
    "indexedcontainer option \<Rightarrow> chunkclass \<Rightarrow> image \<Rightarrow> int \<Rightarrow> (chunk \<times> int) res" where
  "chunk_deserialize types PropertyClass img buf =
     rbind (Property_deserialize img buf) (\<lambda>(x, n). Inr (PropertyChunk x, n))"
| "chunk_deserialize types DataTypeDefClass img buf =
     rbind (DataTypeDef_deserialize img buf) (\<lambda>(x, n). Inr (DataTypeDefChunk x, n))"
| "chunk_deserialize types DataTypeRefClass img buf =
     rbind (DataTypeRef_deserialize img buf) (\<lambda>(x, n). Inr (DataTypeRefChunk x, n))"
| "chunk_deserialize types GroupDefClass img buf =
     rbind (GroupDef_deserialize img buf) (\<lambda>(x, n). Inr (GroupDefChunk x, n))"
| "chunk_deserialize types NonSweepValueClass img buf =
     rbind (NonSweepValue_deserialize types img buf) (\<lambda>(x, n). Inr (NonSweepValueChunk x, n))"

interpretation chunk_reader: reader "chunk_deserialize types cls" for types cls
proof unfold_locales
  show "4 \<le> n \<and> 0 \<le> buf \<and> buf + 4 \<le> int (length img) \<and> buf + n \<le> int (length img) + 3"
    if "chunk_deserialize types cls img buf = Inr (x, n)" for img buf x n
    using that
    by (cases cls) (auto simp: res_simps dest!: property_reader.dec_progress typedef_reader.dec_progress
        typeref_reader.dec_progress group_reader.dec_progress nonsweepvalue_reader.dec_progress)
qed

text \<open>The factories of the sections.\<close>

definition HeaderSection_child_factory :: "int \<Rightarrow> (chunkclass option) res" where
  "HeaderSection_child_factory chunktype =
     (if property_ischunk chunktype then Inr (Some PropertyClass)
      else if chunktype = 1 then Inr None
      else Inl (Throw (IncorrectChunk chunktype)))"

definition TypeSection_child_factory :: "int \<Rightarrow> (chunkclass option) res" where
  "TypeSection_child_factory chunktype =
     (if DataTypeDef_ischunk chunktype then Inr (Some DataTypeDefClass)
      else Inl (Throw (IncorrectChunk chunktype)))"

definition SweepSection_child_factory :: "int \<Rightarrow> (chunkclass option) res" where
  "SweepSection_child_factory chunktype =
     (if DataTypeRef_ischunk chunktype then Inr (Some DataTypeRefClass)
      else if chunktype = 3 then Inr None
      else Inl (Throw (IncorrectChunk chunktype)))"

definition TraceSection_child_factory :: "int \<Rightarrow> (chunkclass option) res" where
  "TraceSection_child_factory chunktype =
     (if DataTypeRef_ischunk chunktype then Inr (Some DataTypeRefClass)
      else if GroupDef_ischunk chunktype then Inr (Some GroupDefClass)
      else Inl (Throw (IncorrectChunk chunktype)))"

definition ValueSectionNonSweep_child_factory :: "int \<Rightarrow> (chunkclass option) res" where
  "ValueSectionNonSweep_child_factory chunktype =
     (if NonSweepValue_ischunk chunktype then Inr (Some NonSweepValueClass)
      else Inl (Throw (IncorrectChunk chunktype)))"

lemmas child_factory_defs = HeaderSection_child_factory_def TypeSection_child_factory_def
  SweepSection_child_factory_def TraceSection_child_factory_def ValueSectionNonSweep_child_factory_def
  DataTypeDef_ischunk_def DataTypeRef_ischunk_def GroupDef_ischunk_def NonSweepValue_ischunk_def

text \<open>\<open>while(abspos + (buf-startbuf) < endpos)\<close>; \<open>endpos\<close> is unsigned and the comparison is made in \<open>long\<close>.\<close>

function children_loop :: "(int \<Rightarrow> (chunkclass option) res) \<Rightarrow> indexedcontainer option \<Rightarrow> image
    \<Rightarrow> int \<Rightarrow> int \<Rightarrow> int \<Rightarrow> chunk list \<Rightarrow> int \<Rightarrow> (chunk list \<times> int) res" where
  "children_loop child_factory types img abspos startbuf endpos children buf =
     (if abspos + (buf - startbuf) < endpos
      then rbind (deserialize_child child_factory (chunk_deserialize types) img buf) (\<lambda>(chunk, n).
        case chunk of
          Some ch \<Rightarrow>
            children_loop child_factory types img abspos startbuf endpos (children @ [ch]) (buf + n)
        | None \<Rightarrow> Inr (children, buf + n))
      else Inr (children, buf))"
  by pat_completeness auto
termination
  by (relation "measure (\<lambda>(f, types, img, a, s, e, children, buf). nat (int (length img) - buf))")
    (auto simp: deserialize_child_Some dest: chunk_reader.dec_start chunk_reader.dec_positive)

declare children_loop.simps [simp del]

definition SimpleContainer_deserialize :: "int \<Rightarrow> (int \<Rightarrow> (chunkclass option) res)
    \<Rightarrow> indexedcontainer option \<Rightarrow> image \<Rightarrow> int \<Rightarrow> int \<Rightarrow> (chunk list \<times> int) res" where
  "SimpleContainer_deserialize chunktype child_factory types img startbuf abspos =
     rbind (Chunk_deserialize chunktype img startbuf) (\<lambda>n. let buf = startbuf + n in
     rbind (GET_INT32 img buf) (\<lambda>w. let endpos = uint w; buf = buf + 4 in
     rbind (children_loop child_factory types img abspos startbuf endpos [] buf) (\<lambda>(children, buf).
     Inr (children, buf - startbuf))))"

text \<open>
  \<open>Index\<close> and \<open>TraceIndex\<close> read their entries, of two and of four words, and keep nothing.
  The \<open>int\<close> counter is compared as an unsigned number.
\<close>

fun read_words :: "image \<Rightarrow> int \<Rightarrow> nat \<Rightarrow> unit res" where
  "read_words img buf 0 = Inr ()"
| "read_words img buf (Suc k) = rbind (GET_INT32 img buf) (\<lambda>w. read_words img (buf + 4) k)"

definition index_words :: "bool \<Rightarrow> nat" where
  "index_words trace = (if trace then 4 else 2)"

function Index_loop :: "bool \<Rightarrow> image \<Rightarrow> int \<Rightarrow> int \<Rightarrow> int \<Rightarrow> unit res" where
  "Index_loop trace img buf nbytes i =
     (if i < nbytes
      then rbind (read_words img (buf + i) (index_words trace)) (\<lambda>u.
           rbind (c_int (i + 4 * int (index_words trace))) (\<lambda>i. Index_loop trace img buf nbytes i))
      else Inr ())"
  by pat_completeness auto
termination
  by (relation "measure (\<lambda>(trace, img, buf, nbytes, i). nat (nbytes - i))") (auto simp: index_words_def)

declare Index_loop.simps [simp del]

definition Index_deserialize :: "bool \<Rightarrow> image \<Rightarrow> int \<Rightarrow> int res" where
  "Index_deserialize trace img startbuf =
     rbind (Chunk_deserialize 19 img startbuf) (\<lambda>n. let buf = startbuf + n in
     rbind (GET_INT32 img buf) (\<lambda>w. let nbytes = uint w; buf = buf + 4 in
     rbind (Index_loop trace img buf nbytes 0) (\<lambda>u.
     Inr (sint (word_of_int (buf + nbytes - startbuf) :: 32 word)))))"

text \<open>
  The index that an \<open>IndexedContainer\<close> builds: \<open>idmap[id]\<close> is the last child with the
  identifier, \<open>namemap[name]\<close> the position of the last child with the name.
\<close>

definition create_idmap :: "chunk list \<Rightarrow> (int, chunk) stdmap" where
  "create_idmap children = fold (\<lambda>child. map_put (get_id child) child) children []"

definition create_namemap :: "chunk list \<Rightarrow> (string, int) stdmap" where
  "create_namemap children =
     fold (\<lambda>(i, child). map_put (get_name child) (int i)) (enumerate 0 children) []"

definition IndexedContainer_deserialize :: "int \<Rightarrow> bool \<Rightarrow> (int \<Rightarrow> (chunkclass option) res)
    \<Rightarrow> indexedcontainer option \<Rightarrow> image \<Rightarrow> int \<Rightarrow> int \<Rightarrow> (indexedcontainer \<times> int) res" where
  "IndexedContainer_deserialize chunktype is_trace child_factory types img startbuf abspos =
     rbind (Chunk_deserialize chunktype img startbuf) (\<lambda>n. let buf = startbuf + n in
     rbind (GET_INT32 img buf) (\<lambda>endpos. let buf = buf + 4 in
     rbind (GET_INT32 img buf) (\<lambda>subcontainer_typeid. let buf = buf + 4 in
     if subcontainer_typeid \<noteq> 22 then Inl Abort
     else rbind (GET_INT32 img buf) (\<lambda>subendpos. let buf = buf + 4 in
     rbind (children_loop child_factory types img abspos startbuf (uint subendpos) [] buf)
       (\<lambda>(children, buf).
     rbind (Index_deserialize is_trace img buf) (\<lambda>n.
     Inr (\<lparr>ic_children = children, ic_idmap = create_idmap children,
            ic_namemap = create_namemap children\<rparr>,
          sint (endpos - word_of_int abspos))))))))"

subsection \<open>The sections\<close>

definition HeaderSection_deserialize :: "image \<Rightarrow> int \<Rightarrow> int \<Rightarrow> (propertyblock \<times> int) res" where
  "HeaderSection_deserialize img buf abspos =
     rbind (SimpleContainer_deserialize 21 HeaderSection_child_factory None img buf abspos) (\<lambda>(children, n).
     rbind (fold (\<lambda>child r. rbind r (\<lambda>pb.
         case child of PropertyChunk prop \<Rightarrow> append_prop pb prop | _ \<Rightarrow> Inl (Undefined NullPointer)))
       children (Inr empty_block)) (\<lambda>m_properties.
     Inr (m_properties, n)))"

definition TypeSection_deserialize :: "image \<Rightarrow> int \<Rightarrow> int \<Rightarrow> (indexedcontainer \<times> int) res" where
  "TypeSection_deserialize img buf abspos =
     IndexedContainer_deserialize 21 False TypeSection_child_factory None img buf abspos"

definition SweepSection_deserialize ::
    "indexedcontainer option \<Rightarrow> image \<Rightarrow> int \<Rightarrow> int \<Rightarrow> (chunk list \<times> int) res" where
  "SweepSection_deserialize types img buf abspos =
     SimpleContainer_deserialize 21 SweepSection_child_factory types img buf abspos"

definition TraceSection_deserialize ::
    "indexedcontainer option \<Rightarrow> image \<Rightarrow> int \<Rightarrow> int \<Rightarrow> (indexedcontainer \<times> int) res" where
  "TraceSection_deserialize types img buf abspos =
     IndexedContainer_deserialize 21 True TraceSection_child_factory types img buf abspos"

definition ValueSectionNonSweep_deserialize ::
    "indexedcontainer option \<Rightarrow> image \<Rightarrow> int \<Rightarrow> int \<Rightarrow> (indexedcontainer \<times> int) res" where
  "ValueSectionNonSweep_deserialize types img buf abspos =
     IndexedContainer_deserialize (-1) False ValueSectionNonSweep_child_factory types img buf abspos"

subsection \<open>What the containers hold\<close>

text \<open>
  \<open>child_run\<close>: the chunks that stand one after the other in the image, each of a class that
  the factory makes. The loop returns such a run, which ends at the announced position or
  at an end marker.
\<close>

inductive child_run :: "(int \<Rightarrow> (chunkclass option) res) \<Rightarrow> indexedcontainer option \<Rightarrow> image
    \<Rightarrow> int \<Rightarrow> chunk list \<Rightarrow> int \<Rightarrow> bool"
  for child_factory types img where
  run_end: "child_run child_factory types img buf [] buf"
| run_child: "GET_INT32 img buf = Inr w \<Longrightarrow> child_factory (sint w) = Inr (Some cls) \<Longrightarrow>
    chunk_deserialize types cls img buf = Inr (ch, n) \<Longrightarrow>
    child_run child_factory types img (buf + n) chs buf' \<Longrightarrow>
    child_run child_factory types img buf (ch # chs) buf'"

inductive_simps child_run_Nil [simp]: "child_run child_factory types img buf [] buf'"
inductive_cases child_run_ConsE: "child_run child_factory types img buf (ch # chs) buf'"

lemma children_loop_run:
  "children_loop child_factory types img abspos startbuf endpos children buf = Inr (children', buf') \<Longrightarrow>
     \<exists>chs e. children' = children @ chs \<and> child_run child_factory types img buf chs e \<and>
       (if abspos + (e - startbuf) < endpos
        then buf' = e + 4 \<and> (\<exists>w. GET_INT32 img e = Inr w \<and> child_factory (sint w) = Inr None)
        else buf' = e)"
proof (induction child_factory types img abspos startbuf endpos children buf rule: children_loop.induct)
  case (1 child_factory types img abspos startbuf endpos children buf)
  note loop = children_loop.simps [of child_factory types img abspos startbuf endpos children buf]
  show ?case
  proof (cases "abspos + (buf - startbuf) < endpos")
    case True
    with "1.prems" have "rbind (deserialize_child child_factory (chunk_deserialize types) img buf)
        (\<lambda>(chunk, n). case chunk of
          Some ch \<Rightarrow> children_loop child_factory types img abspos startbuf endpos (children @ [ch]) (buf + n)
        | None \<Rightarrow> Inr (children, buf + n)) = Inr (children', buf')"
      by (simp add: loop)
    then show ?thesis
    proof (cases rule: child_turnE)
      case (more w cls ch n)
      have turn: "deserialize_child child_factory (chunk_deserialize types) img buf = Inr (Some ch, n)"
        using more(1-3) by (auto simp: deserialize_child_Some)
      from "1.IH" [OF True turn refl refl more(4)] obtain chs e where
        "children' = (children @ [ch]) @ chs" "child_run child_factory types img (buf + n) chs e"
        "if abspos + (e - startbuf) < endpos
          then buf' = e + 4 \<and> (\<exists>w. GET_INT32 img e = Inr w \<and> child_factory (sint w) = Inr None)
          else buf' = e"
        by blast
      with more(1-3) show ?thesis
        by (intro exI [of _ "ch # chs"] exI [of _ e]) (auto intro: run_child)
    next
      case (stop w)
      with True show ?thesis by (intro exI [of _ "[]"] exI [of _ buf]) auto
    qed
  next
    case False
    with "1.prems" show ?thesis by (simp add: loop)
  qed
qed

text \<open>Every child was made by the factory and read by its class.\<close>

lemma child_run_all:
  "child_run child_factory types img buf chs buf' \<Longrightarrow>
     (\<And>t cls buf ch n. child_factory t = Inr (Some cls) \<Longrightarrow>
        chunk_deserialize types cls img buf = Inr (ch, n) \<Longrightarrow> P ch) \<Longrightarrow> list_all P chs"
  by (induction rule: child_run.induct) auto

lemma child_run_progress:
  "child_run child_factory types img buf chs buf' \<Longrightarrow> buf + 4 * int (length chs) \<le> buf'"
  by (induction rule: child_run.induct) (auto dest!: chunk_reader.dec_progress)

definition container_wf :: "indexedcontainer \<Rightarrow> bool" where
  "container_wf c \<longleftrightarrow> ic_idmap c = create_idmap (ic_children c) \<and> ic_namemap c = create_namemap (ic_children c)"

lemma IndexedContainer_deserialize_Inr:
  assumes "IndexedContainer_deserialize chunktype is_trace child_factory types img startbuf abspos = Inr (c, n)"
  shows "container_wf c \<and> (\<exists>e. child_run child_factory types img (16 + startbuf) (ic_children c) e)"
  using assms
  by (auto simp: IndexedContainer_deserialize_def Let_def res_simps container_wf_def
      dest!: children_loop_run split: if_splits)

lemma SimpleContainer_deserialize_Inr:
  assumes "SimpleContainer_deserialize chunktype child_factory types img startbuf abspos = Inr (children, n)"
  shows "\<exists>e. child_run child_factory types img (8 + startbuf) children e"
  using assms
  by (auto simp: SimpleContainer_deserialize_def Let_def res_simps dest!: children_loop_run)

text \<open>What the index answers.\<close>

lemma create_namemap_eq: "create_namemap children = index_map (map get_name children)"
  by (induction children rule: rev_induct)
    (simp_all add: create_namemap_def index_map_snoc enumerate_append_eq)

lemma create_idmap_snoc: "create_idmap (children @ [child]) = map_put (get_id child) child (create_idmap children)"
  by (simp add: create_idmap_def)

lemma create_idmap_None: "map_find (create_idmap children) i = None \<longleftrightarrow> i \<notin> get_id ` set children"
  by (induction children rule: rev_induct) (auto simp: create_idmap_snoc map_find_put, simp add: create_idmap_def)

lemma create_idmap_Some:
  "map_find (create_idmap children) i = Some ch \<Longrightarrow>
     \<exists>before after. children = before @ ch # after \<and> get_id ch = i \<and> i \<notin> get_id ` set after"
proof (induction children rule: rev_induct)
  case Nil
  then show ?case by (simp add: create_idmap_def)
next
  case (snoc child children)
  show ?case
  proof (cases "get_id child = i")
    case True
    with snoc.prems show ?thesis
      by (intro exI [of _ children] exI [of _ "[]"]) (simp add: create_idmap_snoc map_find_put)
  next
    case False
    with snoc obtain before "after" where
      "children = before @ ch # after" "get_id ch = i" "i \<notin> get_id ` set after"
      by (auto simp: create_idmap_snoc map_find_put)
    with False show ?thesis
      by (intro exI [of _ before] exI [of _ "after @ [child]"]) auto
  qed
qed

text \<open>A name that a child has is found at the position of the last such child.\<close>

lemma get_child_by_name_found:
  assumes "container_wf c" and "name \<in> get_name ` set (ic_children c)"
  shows "\<exists>i ch. IndexedContainer_get_child_index c name = i \<and> 0 \<le> i \<and> i < int (length (ic_children c))
    \<and> IndexedContainer_get_child_by_name c name = Inr ch \<and> ch = ic_children c ! nat i \<and> get_name ch = name"
proof -
  obtain i where i: "map_find (ic_namemap c) name = Some i"
    using assms index_map_None [of "map get_name (ic_children c)" name]
    by (fastforce simp: container_wf_def create_namemap_eq)
  then have "0 \<le> i" "i < int (length (ic_children c))" "map get_name (ic_children c) ! nat i = name"
    using index_map_Some [of "map get_name (ic_children c)" name i] assms(1)
    by (auto simp: container_wf_def create_namemap_eq)
  moreover from this have "get_name (ic_children c ! nat i) = name"
    by (simp add: nat_less_iff)
  ultimately show ?thesis
    using i by (simp add: IndexedContainer_get_child_index_def IndexedContainer_get_child_by_name_def
        vector_at_def)
qed

lemma get_child_by_name_missing:
  assumes "container_wf c" and "name \<notin> get_name ` set (ic_children c)"
  shows "IndexedContainer_get_child_index c name = -1"
    and "IndexedContainer_get_child_by_name c name = Inl (Throw NotFound)"
  using assms index_map_None [of "map get_name (ic_children c)" name]
  by (simp_all add: IndexedContainer_get_child_index_def IndexedContainer_get_child_by_name_def
      container_wf_def create_namemap_eq)

lemma get_child_by_id_found:
  assumes "container_wf c" and "i \<in> get_id ` set (ic_children c)"
  shows "\<exists>ch before after. IndexedContainer_get_child_by_id c i = Inr ch \<and> get_id ch = i
    \<and> ic_children c = before @ ch # after \<and> i \<notin> get_id ` set after"
proof -
  obtain ch where "map_find (ic_idmap c) i = Some ch"
    using assms create_idmap_None [of "ic_children c" i] by (fastforce simp: container_wf_def)
  with create_idmap_Some [of "ic_children c" i ch] assms(1) show ?thesis
    by (auto simp: IndexedContainer_get_child_by_id_def container_wf_def)
qed

lemma get_child_by_id_missing:
  assumes "container_wf c" and "i \<notin> get_id ` set (ic_children c)"
  shows "IndexedContainer_get_child_by_id c i = Inl (Undefined EndIterator)"
  using assms create_idmap_None [of "ic_children c" i]
  by (simp add: IndexedContainer_get_child_by_id_def container_wf_def)

text \<open>The type section holds well-formed type definitions, so that the casts to them succeed.\<close>

definition types_wf :: "indexedcontainer \<Rightarrow> bool" where
  "types_wf types \<longleftrightarrow> container_wf types \<and>
     list_all (\<lambda>ch. case ch of DataTypeDefChunk td \<Rightarrow> typedef_wf td | _ \<Rightarrow> False) (ic_children types)"

lemma TypeSection_deserialize_wf:
  assumes "TypeSection_deserialize img buf abspos = Inr (types, n)"
  shows "types_wf types"
proof -
  obtain e where "container_wf types"
    and "child_run TypeSection_child_factory None img (16 + buf) (ic_children types) e"
    using assms by (auto simp: TypeSection_deserialize_def dest!: IndexedContainer_deserialize_Inr)
  then show ?thesis
    unfolding types_wf_def
    by (intro conjI child_run_all) (auto simp: child_factory_defs res_simps DataTypeDef_deserialize_wf
        split: if_splits)
qed

lemma get_typedef_found:
  assumes "types_wf types" and "i \<in> get_id ` set (ic_children types)"
  shows "\<exists>td. get_typedef (Some types) i = Inr td \<and> typedef_wf td \<and> td_id td = i
    \<and> DataTypeDefChunk td \<in> set (ic_children types)"
proof -
  obtain ch before "after" where ch: "IndexedContainer_get_child_by_id types i = Inr ch" "get_id ch = i"
    "ic_children types = before @ ch # after"
    using get_child_by_id_found [of types i] assms by (auto simp: types_wf_def)
  with assms(1) show ?thesis
    by (cases ch) (auto simp: types_wf_def get_typedef_def cast_DataTypeDef_def)
qed

lemma get_typedef_missing:
  assumes "types_wf types" and "i \<notin> get_id ` set (ic_children types)"
  shows "get_typedef (Some types) i = Inl (Undefined EndIterator)"
  using assms by (simp add: types_wf_def get_typedef_def get_child_by_id_missing)

lemma get_typedef_wf: "types_wf types \<Longrightarrow> get_typedef (Some types) i = Inr td \<Longrightarrow> typedef_wf td \<and> td_id td = i"
  using get_typedef_found [of types i] get_typedef_missing [of types i]
  by (cases "i \<in> get_id ` set (ic_children types)") auto

text \<open>A value outside a sweep has the type that it names.\<close>

definition values_wf :: "indexedcontainer \<Rightarrow> indexedcontainer \<Rightarrow> bool" where
  "values_wf types c \<longleftrightarrow> container_wf c \<and> list_all (\<lambda>ch. case ch of
       NonSweepValueChunk v \<Rightarrow> (case get_typedef (Some types) (nv_valuetypeid v) of
           Inr td \<Rightarrow> scalar_full td (nv_value v) | Inl e \<Rightarrow> False)
     | _ \<Rightarrow> False) (ic_children c)"

lemma NonSweepValue_deserialize_typed:
  assumes "types_wf types" and "NonSweepValue_deserialize (Some types) img buf = Inr (v, n)"
  shows "\<exists>td. get_typedef (Some types) (nv_valuetypeid v) = Inr td \<and> scalar_full td (nv_value v)"
  using assms by (auto simp: NonSweepValue_deserialize_def Let_def res_simps
      dest: deserialize_data_full [rotated 2] get_typedef_wf)

lemma ValueSectionNonSweep_deserialize_wf:
  assumes "types_wf types"
    and "ValueSectionNonSweep_deserialize (Some types) img buf abspos = Inr (c, n)"
  shows "values_wf types c"
proof -
  obtain e where "container_wf c"
    and "child_run ValueSectionNonSweep_child_factory (Some types) img (16 + buf) (ic_children c) e"
    using assms(2) by (auto simp: ValueSectionNonSweep_deserialize_def dest!: IndexedContainer_deserialize_Inr)
  then show ?thesis
    unfolding values_wf_def
    by (intro conjI child_run_all) (auto simp: child_factory_defs res_simps
        dest!: NonSweepValue_deserialize_typed [OF assms(1)] split: if_splits)
qed

text \<open>The header: the block of all its properties, in their order.\<close>

definition property_of :: "chunk \<Rightarrow> property" where
  "property_of ch = (case ch of PropertyChunk p \<Rightarrow> p | _ \<Rightarrow> Property (-1) '''' None)"

lemma append_props:
  "list_all (\<lambda>ch. \<exists>p. ch = PropertyChunk p \<and> prop_value p \<noteq> None) children \<Longrightarrow>
   fold (\<lambda>child r. rbind r (\<lambda>pb.
       case child of PropertyChunk prop \<Rightarrow> append_prop pb prop | _ \<Rightarrow> Inl (Undefined NullPointer)))
     children (Inr pb) = Inr (block_extend pb (map property_of children))"
proof (induction children arbitrary: pb)
  case (Cons ch children)
  then obtain p v where "ch = PropertyChunk p" "prop_value p = Some v" by auto
  with Cons show ?case
    by (simp add: append_prop_def block_extend_Cons property_of_def)
qed simp

lemma header_children:
  assumes "child_run HeaderSection_child_factory None img buf children e"
  shows "list_all (\<lambda>ch. \<exists>p. ch = PropertyChunk p \<and> prop_value p \<noteq> None) children"
  using assms by (rule child_run_all)
    (auto simp: child_factory_defs res_simps dest: Property_deserialize_value split: if_splits)

lemma HeaderSection_deserialize_Inr:
  assumes "HeaderSection_deserialize img buf abspos = Inr (pb, n)"
  shows "\<exists>children e. child_run HeaderSection_child_factory None img (8 + buf) children e
    \<and> pb = block_extend empty_block (map property_of children)"
proof -
  from assms obtain children e where children:
      "child_run HeaderSection_child_factory None img (8 + buf) children e"
    and "fold (\<lambda>child r. rbind r (\<lambda>pb. case child of PropertyChunk prop \<Rightarrow> append_prop pb prop
         | _ \<Rightarrow> Inl (Undefined NullPointer))) children (Inr empty_block) = Inr pb"
    by (auto simp: HeaderSection_deserialize_def res_simps dest!: SimpleContainer_deserialize_Inr)
  with append_props [OF header_children] show ?thesis by fastforce
qed

lemma block_extend_wf: "block_wf pb \<Longrightarrow> \<forall>p \<in> set ps. prop_value p \<noteq> None \<Longrightarrow> block_wf (block_extend pb ps)"
proof (induction ps arbitrary: pb)
  case (Cons p ps)
  then obtain v where v: "prop_value p = Some v" by auto
  then have "append_prop pb p = Inr (PropertyBlock (m_proplist pb @ [Property_copy p])
      (map_put (prop_name p) v (m_propmap pb)))"
    by (simp add: append_prop_def)
  with Cons v show ?case
    by (simp add: block_extend_Cons append_prop_wf)
qed simp

lemma HeaderSection_deserialize_wf:
  assumes "HeaderSection_deserialize img buf abspos = Inr (pb, n)"
  shows "block_wf pb"
proof -
  obtain children e where "child_run HeaderSection_child_factory None img (8 + buf) children e"
    and "pb = block_extend empty_block (map property_of children)"
    using HeaderSection_deserialize_Inr [OF assms] by blast
  with header_children show ?thesis
    by (fastforce intro!: block_extend_wf simp: list_all_iff property_of_def)
qed

subsection \<open>How a section can fail\<close>

text \<open>
  Beside a malformed chunk: the \<open>assert\<close> on the sub container, and, for the values outside a
  sweep, a type that the type section does not have, which the code does not check.
\<close>

definition section_errors :: "error set" where
  "section_errors = format_errors \<union> {Abort, Undefined EndIterator, Undefined NullPointer}"

lemma section_errors_format: "fails_in format_errors r \<Longrightarrow> fails_in section_errors r"
  by (auto simp: section_errors_def intro: fails_in_mono)

lemma fails_get_typedef:
  "\<forall>ts. types = Some ts \<longrightarrow> types_wf ts \<Longrightarrow> fails_in section_errors (get_typedef types i)"
  using get_typedef_found [of _ i] get_typedef_missing [of _ i]
  by (cases types; cases "i \<in> get_id ` set (ic_children (the types))")
    (fastforce simp: get_typedef_def [of None] section_errors_def)+

lemma fails_NonSweepValue:
  assumes "small_image img" and "\<forall>ts. types = Some ts \<longrightarrow> types_wf ts"
  shows "fails_in section_errors (NonSweepValue_deserialize types img buf)"
proof -
  have "typedef_wf td" if "get_typedef types i = Inr td" for i td
    using that assms(2) get_typedef_wf by (cases types) (auto simp: get_typedef_def [of None])
  with assms show ?thesis
    unfolding NonSweepValue_deserialize_def Let_def
    by (intro fails_in_rbind fails_in_prod fails_get_typedef fails_in_Inr
        section_errors_format [OF fails_Chunk] section_errors_format [OF fails_GET_INT32]
        section_errors_format [OF fails_String] section_errors_format [OF fails_new_scalar]
        section_errors_format [OF fails_deserialize_data] section_errors_format [OF fails_PropertyBlock]) auto
qed

lemma fails_chunk_deserialize:
  assumes "small_image img" and "\<forall>ts. types = Some ts \<longrightarrow> types_wf ts"
  shows "fails_in section_errors (chunk_deserialize types cls img buf)"
  using assms
  by (cases cls) (auto intro!: fails_in_rbind fails_in_prod fails_NonSweepValue
      section_errors_format [OF fails_Property] section_errors_format [OF fails_DataTypeDef]
      section_errors_format [OF fails_DataTypeRef] section_errors_format [OF fails_GroupDef])

lemma fails_children_loop:
  assumes "small_image img" and "\<forall>ts. types = Some ts \<longrightarrow> types_wf ts"
    and "\<And>t. fails_in format_errors (child_factory t)"
  shows "fails_in section_errors (children_loop child_factory types img abspos startbuf endpos children buf)"
  using assms
proof (induction child_factory types img abspos startbuf endpos children buf rule: children_loop.induct)
  case (1 child_factory types img abspos startbuf endpos children buf)
  have turn: "fails_in section_errors (deserialize_child child_factory (chunk_deserialize types) img buf)"
    unfolding deserialize_child_def Let_def using "1.prems"
    by (intro fails_in_rbind fails_in_prod fails_in_option fails_in_Inr fails_chunk_deserialize
        section_errors_format [OF fails_GET_INT32] section_errors_format) auto
  show ?case
    unfolding children_loop.simps [of child_factory types img abspos startbuf endpos children]
    using turn "1.prems" by (intro fails_in_if fails_in_rbind fails_in_prod fails_in_option fails_in_Inr "1.IH") auto
qed

lemma fails_read_words: "fails_in format_errors (read_words img buf k)"
  by (induction k arbitrary: buf) (auto intro!: fails_intros)

lemma read_words_Inr:
  "read_words img buf k = Inr u \<Longrightarrow> 0 < k \<Longrightarrow> 0 \<le> buf \<and> buf + 4 * int k \<le> int (length img)"
proof (induction k arbitrary: buf)
  case (Suc k)
  then show ?case
    by (cases k) (fastforce simp: res_simps dest: GET_INT32_bounds)+
qed simp

lemma index_words_pos [simp]: "0 < index_words trace"
  by (simp add: index_words_def)

lemma fails_Index_loop:
  "small_image img \<Longrightarrow> 0 \<le> buf \<Longrightarrow> 0 \<le> i \<Longrightarrow> fails_in section_errors (Index_loop trace img buf nbytes i)"
proof (induction trace img buf nbytes i rule: Index_loop.induct)
  case (1 trace img buf nbytes i)
  let ?w = "index_words trace"
  show ?case
    unfolding Index_loop.simps [of trace img buf nbytes i]
  proof (intro fails_in_if fails_in_rbind fails_in_Inr)
    show "fails_in section_errors (read_words img (buf + i) ?w)"
      by (rule section_errors_format) (rule fails_read_words)
    fix u
    assume i: "i < nbytes" and u: "read_words img (buf + i) ?w = Inr u"
    then have range: "int_range (i + 4 * int ?w)"
      using read_words_Inr [OF u] "1.prems" by (auto simp: small_image_def int_range_def)
    then show "fails_in section_errors (c_int (i + 4 * int ?w))"
      by simp
    show "fails_in section_errors (Index_loop trace img buf nbytes j)" if "c_int (i + 4 * int ?w) = Inr j" for j
      using "1.IH" [OF i u that] "1.prems" that by simp
  qed
qed

lemma fails_IndexedContainer:
  assumes "small_image img" and "\<forall>ts. types = Some ts \<longrightarrow> types_wf ts"
    and "\<And>t. fails_in format_errors (child_factory t)"
  shows "fails_in section_errors
    (IndexedContainer_deserialize chunktype is_trace child_factory types img buf abspos)"
proof -
  have index: "fails_in section_errors (Index_deserialize is_trace img b)" for b
    unfolding Index_deserialize_def Let_def
    by (intro fails_in_rbind fails_in_Inr section_errors_format [OF fails_GET_INT32]
        section_errors_format [OF fails_Chunk] fails_Index_loop assms(1))
      (auto simp: res_simps dest: GET_INT32_bounds)
  have "Abort \<in> section_errors"
    by (simp add: section_errors_def)
  with assms index show ?thesis
    unfolding IndexedContainer_deserialize_def Let_def
    by (intro fails_in_rbind fails_in_prod fails_in_if fails_in_Inr fails_children_loop
        section_errors_format [OF fails_GET_INT32] section_errors_format [OF fails_Chunk]) auto
qed

lemma fails_SimpleContainer:
  assumes "small_image img" and "\<forall>ts. types = Some ts \<longrightarrow> types_wf ts"
    and "\<And>t. fails_in format_errors (child_factory t)"
  shows "fails_in section_errors (SimpleContainer_deserialize chunktype child_factory types img buf abspos)"
  using assms unfolding SimpleContainer_deserialize_def Let_def
  by (intro fails_in_rbind fails_in_prod fails_in_Inr fails_children_loop
      section_errors_format [OF fails_GET_INT32] section_errors_format [OF fails_Chunk]) auto

lemma fails_child_factory:
  "fails_in format_errors (HeaderSection_child_factory t)"
  "fails_in format_errors (TypeSection_child_factory t)"
  "fails_in format_errors (SweepSection_child_factory t)"
  "fails_in format_errors (TraceSection_child_factory t)"
  "fails_in format_errors (ValueSectionNonSweep_child_factory t)"
  by (simp_all add: child_factory_defs)

lemma fails_HeaderSection:
  assumes "small_image img"
  shows "fails_in section_errors (HeaderSection_deserialize img buf abspos)"
proof -
  have "fold (\<lambda>child r. rbind r (\<lambda>pb. case child of PropertyChunk prop \<Rightarrow> append_prop pb prop
         | _ \<Rightarrow> Inl (Undefined NullPointer))) children (Inr empty_block)
       = Inr (block_extend empty_block (map property_of children))"
    if "SimpleContainer_deserialize 21 HeaderSection_child_factory None img buf abspos = Inr (children, n)"
    for children n
    using SimpleContainer_deserialize_Inr [OF that] append_props [OF header_children] by blast
  with assms show ?thesis
    unfolding HeaderSection_deserialize_def
    by (intro fails_in_rbind fails_in_prod fails_in_Inr fails_SimpleContainer fails_child_factory) auto
qed

lemma fails_sections:
  assumes "small_image img"
  shows "fails_in section_errors (TypeSection_deserialize img buf abspos)"
    and "\<forall>ts. types = Some ts \<longrightarrow> types_wf ts \<Longrightarrow>
      fails_in section_errors (SweepSection_deserialize types img buf abspos)"
    and "\<forall>ts. types = Some ts \<longrightarrow> types_wf ts \<Longrightarrow>
      fails_in section_errors (TraceSection_deserialize types img buf abspos)"
    and "\<forall>ts. types = Some ts \<longrightarrow> types_wf ts \<Longrightarrow>
      fails_in section_errors (ValueSectionNonSweep_deserialize types img buf abspos)"
  unfolding TypeSection_deserialize_def SweepSection_deserialize_def TraceSection_deserialize_def
    ValueSectionNonSweep_deserialize_def
  by (intro fails_IndexedContainer fails_SimpleContainer fails_child_factory assms; simp)+

end
