(* ===== verification/Traces.thy ===== *)
theory Traces
  imports Containers
begin

section \<open>The trace section and the layout of a sweep (src/psftrace.cc, src/psfgroup.cc, src/psfsweepvalue.cc)\<close>

text \<open>
  The trace section lists the signals, at the root or inside groups; a trace is found by name or
  by an index path. \<open>_create_valueoffsetmap\<close> lays the values of one sweep point, or of one
  window, out in the value section: the offset of each trace and the size of the whole. The
  lemmas show what the lookups find and that the offsets do not overlap and stay inside the size.
\<close>

subsection \<open>Looking up traces\<close>

fun TraceSection_names_loop :: "chunk list \<Rightarrow> string list" where
  "TraceSection_names_loop [] = []"
| "TraceSection_names_loop (i # is) =
     (case i of GroupDefChunk groupdef \<Rightarrow> GroupDef_get_names groupdef | _ \<Rightarrow> [get_name i])
       @ TraceSection_names_loop is"

definition TraceSection_get_names :: "indexedcontainer \<Rightarrow> string list" where
  "TraceSection_get_names traces = TraceSection_names_loop (ic_children traces)"

text \<open>The search in the groups returns from the first group, found or not.\<close>

fun search_groups :: "chunk list \<Rightarrow> string \<Rightarrow> datatyperef res" where
  "search_groups [] name = Inl (Throw NotFound)"
| "search_groups (i # is) name =
     (case i of GroupDefChunk groupdef \<Rightarrow> GroupDef_get_child_by_name groupdef name
      | _ \<Rightarrow> search_groups is name)"

definition get_trace_by_name :: "indexedcontainer \<Rightarrow> string \<Rightarrow> datatyperef res" where
  "get_trace_by_name traces name =
     (let r = rbind (IndexedContainer_get_child_by_name traces name) cast_DataTypeRef in
      if r = Inl (Throw NotFound) then search_groups (ic_children traces) name else r)"

fun traceindex_groups :: "chunk list \<Rightarrow> string \<Rightarrow> int \<Rightarrow> (int list) res" where
  "traceindex_groups [] name groupindex = Inr []"
| "traceindex_groups (i # is) name groupindex =
     (case i of
        GroupDefChunk groupdef \<Rightarrow>
          rbind (GroupDef_get_child_index groupdef name) (\<lambda>k.
          rbind (traceindex_groups is name (groupindex + 1)) (\<lambda>index. Inr (groupindex # k # index)))
      | _ \<Rightarrow> traceindex_groups is name (groupindex + 1))"

definition get_traceindex_by_name :: "indexedcontainer \<Rightarrow> string \<Rightarrow> (int list) res" where
  "get_traceindex_by_name traces name =
     (let i = IndexedContainer_get_child_index traces name in
      if i = -1 then traceindex_groups (ic_children traces) name 0 else Inr [i])"

text \<open>\<open>idx[0]\<close> of an empty path is an access outside the vector.\<close>

definition get_trace_by_index :: "indexedcontainer \<Rightarrow> int list \<Rightarrow> datatyperef res" where
  "get_trace_by_index traces idx =
     (case idx of
        [] \<Rightarrow> Inl (Undefined OutOfBounds)
      | [i] \<Rightarrow> rbind (vector_at (ic_children traces) i) cast_DataTypeRef
      | i # k # _ \<Rightarrow>
          rbind (vector_at (ic_children traces) i) (\<lambda>ch.
          rbind (cast_GroupDef ch) (\<lambda>groupdef. vector_at (gd_children groupdef) k)))"

subsection \<open>What the lookups find\<close>

text \<open>The trace section holds references and groups whose index is right.\<close>

definition traces_wf :: "indexedcontainer \<Rightarrow> bool" where
  "traces_wf traces \<longleftrightarrow> container_wf traces \<and>
     list_all (\<lambda>ch. case ch of DataTypeRefChunk r \<Rightarrow> True | GroupDefChunk g \<Rightarrow> group_wf g | _ \<Rightarrow> False)
       (ic_children traces)"

lemma TraceSection_deserialize_wf:
  assumes "TraceSection_deserialize types img buf abspos = Inr (traces, n)"
  shows "traces_wf traces"
proof -
  obtain e where "container_wf traces"
    and "child_run TraceSection_child_factory types img (16 + buf) (ic_children traces) e"
    using assms by (auto simp: TraceSection_deserialize_def dest!: IndexedContainer_deserialize_Inr)
  then show ?thesis
    unfolding traces_wf_def
    by (intro conjI child_run_all) (auto simp: child_factory_defs res_simps
        dest!: GroupDef_deserialize_progress split: if_splits)
qed

text \<open>\<open>groups\<close> are the groups of the section; the code looks into the first one only.\<close>

definition groups :: "chunk list \<Rightarrow> groupdef list" where
  "groups children = concat (map (\<lambda>ch. case ch of GroupDefChunk g \<Rightarrow> [g] | _ \<Rightarrow> []) children)"

lemma groups_simps [simp]:
  "groups [] = []"
  "groups (ch # children) = (case ch of GroupDefChunk g \<Rightarrow> [g] | _ \<Rightarrow> []) @ groups children"
  by (simp_all add: groups_def)

lemma groups_in: "g \<in> set (groups children) \<longleftrightarrow> GroupDefChunk g \<in> set children"
  by (induction children) (auto split: chunk.splits)

lemma search_groups_eq:
  "search_groups children name =
     (case groups children of [] \<Rightarrow> Inl (Throw NotFound) | g # gs \<Rightarrow> GroupDef_get_child_by_name g name)"
  by (induction children) (auto split: chunk.splits)

lemma traceindex_groups_none: "groups children = [] \<Longrightarrow> traceindex_groups children name i = Inr []"
  by (induction children arbitrary: i) (auto split: chunk.splits)

lemma names_in:
  "name \<in> set (TraceSection_names_loop children) \<longleftrightarrow>
     (\<exists>ch \<in> set children. case ch of GroupDefChunk g \<Rightarrow> name \<in> set (GroupDef_get_names g) | _ \<Rightarrow> get_name ch = name)"
  by (induction children) (auto split: chunk.splits)

text \<open>A name at the root.\<close>

lemma get_trace_by_name_root:
  assumes "traces_wf traces" and "name \<in> get_name ` set (ic_children traces)"
    and "\<forall>g \<in> set (groups (ic_children traces)). gd_name g \<noteq> name"
  shows "\<exists>i r. get_trace_by_name traces name = Inr r \<and> tr_name r = name
    \<and> get_traceindex_by_name traces name = Inr [i] \<and> get_trace_by_index traces [i] = Inr r"
proof -
  obtain i ch where ch: "IndexedContainer_get_child_index traces name = i" "0 \<le> i"
      "i < int (length (ic_children traces))" "IndexedContainer_get_child_by_name traces name = Inr ch"
      "ch = ic_children traces ! nat i" "get_name ch = name"
    using get_child_by_name_found [of traces name] assms(1,2) by (auto simp: traces_wf_def)
  have "ch \<in> set (ic_children traces)"
    using ch(2,3,5) by (simp add: nat_less_iff)
  then have "case ch of DataTypeRefChunk r \<Rightarrow> True | GroupDefChunk g \<Rightarrow> group_wf g | _ \<Rightarrow> False"
    and "ch = GroupDefChunk g \<Longrightarrow> gd_name g \<noteq> name" for g
    using assms(1,3) groups_in [of g "ic_children traces"] by (auto simp: traces_wf_def list_all_iff)
  then obtain r where r: "ch = DataTypeRefChunk r"
    using ch(6) by (cases ch) auto
  then have "ic_children traces ! nat i = DataTypeRefChunk r" "tr_name r = name"
    using ch(5,6) by simp_all
  with ch(1-4) r show ?thesis
    by (intro exI [of _ i] exI [of _ r])
      (simp add: get_trace_by_name_def get_traceindex_by_name_def get_trace_by_index_def
        vector_at_def cast_DataTypeRef_def Let_def)
qed

text \<open>A name in the first group.\<close>

lemma get_trace_by_name_first_group:
  assumes "traces_wf traces" and "name \<notin> get_name ` set (ic_children traces)"
    and "groups (ic_children traces) = g # gs" and "name \<in> set (GroupDef_get_names g)"
  shows "\<exists>r. get_trace_by_name traces name = Inr r \<and> tr_name r = name \<and> r \<in> set (gd_children g)"
proof -
  have "GroupDefChunk g \<in> set (ic_children traces)"
    using groups_in [of g "ic_children traces"] assms(3) by simp
  then have "group_wf g"
    using assms(1) by (auto simp: traces_wf_def list_all_iff)
  then obtain i r where r: "GroupDef_get_child_by_name g name = Inr r" "tr_name r = name"
      "r = gd_children g ! nat i" "0 \<le> i" "i < int (length (gd_children g))"
    using GroupDef_get_child_found [OF _ assms(4)] by blast
  moreover have "IndexedContainer_get_child_by_name traces name = Inl (Throw NotFound)"
    using assms(1,2) get_child_by_name_missing(2) by (auto simp: traces_wf_def)
  ultimately show ?thesis
    using assms(3) by (simp add: get_trace_by_name_def search_groups_eq nat_less_iff)
qed

text \<open>
  The other groups are never searched: a signal that \<open>get_names\<close> lists may be not found.
\<close>

lemma get_trace_by_name_hidden:
  assumes "traces_wf traces" and "name \<notin> get_name ` set (ic_children traces)"
    and "groups (ic_children traces) = g # gs" and "name \<notin> set (GroupDef_get_names g)"
  shows "get_trace_by_name traces name = Inl (Throw NotFound)"
proof -
  have "GroupDefChunk g \<in> set (ic_children traces)"
    using groups_in [of g "ic_children traces"] assms(3) by simp
  then have "GroupDef_get_child_by_name g name = Inl (Throw NotFound)"
    using assms(1,4) by (intro GroupDef_get_child_missing) (auto simp: traces_wf_def list_all_iff)
  moreover have "IndexedContainer_get_child_by_name traces name = Inl (Throw NotFound)"
    using assms(1,2) get_child_by_name_missing(2) by (auto simp: traces_wf_def)
  ultimately show ?thesis
    using assms(3) by (simp add: get_trace_by_name_def search_groups_eq)
qed

text \<open>
  With one group at most, every name that the section lists is found, unless a group has that
  name at the root.
\<close>

lemma get_trace_by_name_listed:
  assumes "traces_wf traces" and "name \<in> set (TraceSection_get_names traces)"
    and "length (groups (ic_children traces)) \<le> 1"
    and "\<forall>g \<in> set (groups (ic_children traces)). gd_name g \<noteq> name"
  shows "\<exists>r. get_trace_by_name traces name = Inr r \<and> tr_name r = name"
proof (cases "name \<in> get_name ` set (ic_children traces)")
  case True
  with get_trace_by_name_root [OF assms(1) _ assms(4)] show ?thesis by blast
next
  case False
  from assms(2) obtain ch where ch: "ch \<in> set (ic_children traces)"
    "case ch of GroupDefChunk g \<Rightarrow> name \<in> set (GroupDef_get_names g) | _ \<Rightarrow> get_name ch = name"
    by (auto simp: TraceSection_get_names_def names_in)
  with imageI [OF ch(1), of get_name] False obtain g where
    g: "ch = GroupDefChunk g" "name \<in> set (GroupDef_get_names g)"
    by (cases ch) auto
  then have "g \<in> set (groups (ic_children traces))"
    using ch(1) groups_in by simp
  then have "groups (ic_children traces) = [g]"
    using assms(3) by (cases "groups (ic_children traces)") auto
  with get_trace_by_name_first_group [OF assms(1) False _ g(2)] show ?thesis by blast
qed

subsection \<open>The offsets of a group\<close>

text \<open>The size that a reference adds: the window, or the size of its type.\<close>

definition ref_bytes :: "indexedcontainer option \<Rightarrow> int \<Rightarrow> datatyperef \<Rightarrow> int res" where
  "ref_bytes types windowsize ref =
     (if windowsize \<noteq> 0 then Inr windowsize else DataTypeRef_datasize types ref)"

lemma fill_offsetmap_step:
  "fill_offsetmap_loop types windowsize (ref # refs) offset m =
     rbind (rbind (ref_bytes types windowsize ref) (\<lambda>n. c_int (offset + n))) (\<lambda>offset'.
     fill_offsetmap_loop types windowsize refs offset' (map_put (tr_id ref) offset m))"
  by (simp add: ref_bytes_def Let_def)

text \<open>Reference \<open>i\<close> lies at the sum of the sizes of those before it.\<close>

lemma fill_offsetmap_loop_offsets:
  assumes "fill_offsetmap_loop types windowsize refs offset m = Inr (m', offset')" and "map_ok m"
  shows "\<exists>sizes. map (ref_bytes types windowsize) refs = map Inr sizes \<and> offset' = offset + sum_list sizes
    \<and> map_ok m' \<and> (\<forall>k. k \<notin> tr_id ` set refs \<longrightarrow> map_find m' k = map_find m k)
    \<and> (distinct (map tr_id refs) \<longrightarrow>
         (\<forall>i < length refs. map_find m' (tr_id (refs ! i)) = Some (offset + sum_list (take i sizes))))"
  using assms
proof (induction refs arbitrary: offset m)
  case Nil
  then show ?case by auto
next
  case (Cons ref refs)
  from Cons.prems(1) obtain n where n: "ref_bytes types windowsize ref = Inr n"
    and rest: "fill_offsetmap_loop types windowsize refs (offset + n) (map_put (tr_id ref) offset m) = Inr (m', offset')"
    unfolding fill_offsetmap_step by (auto simp: res_simps)
  from Cons.IH [OF rest] Cons.prems(2) obtain sizes where
    sizes: "map (ref_bytes types windowsize) refs = map Inr sizes" "offset' = offset + n + sum_list sizes"
      "map_ok m'"
    and other: "\<forall>k. k \<notin> tr_id ` set refs \<longrightarrow> map_find m' k = map_find (map_put (tr_id ref) offset m) k"
    and at: "distinct (map tr_id refs) \<longrightarrow> (\<forall>i < length refs.
        map_find m' (tr_id (refs ! i)) = Some (offset + n + sum_list (take i sizes)))"
    by auto
  show ?case
  proof (intro exI [of _ "n # sizes"] conjI impI allI)
    show "map_find m' (tr_id ((ref # refs) ! i)) = Some (offset + sum_list (take i (n # sizes)))"
      if "distinct (map tr_id (ref # refs))" "i < length (ref # refs)" for i
      using that other at by (cases i) (auto simp: map_find_put)
    show "map_find m' k = map_find m k" if "k \<notin> tr_id ` set (ref # refs)" for k
      using that other by (simp add: map_find_put)
  qed (use n sizes in simp_all)
qed

end
