(* ===== verification/SweepValues.thy ===== *)
theory SweepValues
  imports Traces
begin

section \<open>The value section of a sweep (src/psfsweepvalue.cc)\<close>

text \<open>
  The values of a sweep are read for a filter, a list of traces. In a simple sweep the section is
  a sequence of points; in a windowed sweep a sequence of windows, each with up to 65535 points
  and, for each trace, a window of fixed size whose values stand at its end. The state that the
  readers share is the open file; \<open>psffile\<close> holds its sections (a null pointer is \<open>None\<close>).
\<close>

subsection \<open>The state\<close>

record valuesectionsweep =
  vss_windowedsweep :: bool
  vss_valuesize :: int
  vss_ntraces :: int
  vss_offsetmap :: "(int, int) stdmap"
  vss_valuebuf :: int
  vss_endbuf :: int

record psffile =
  m_header :: "propertyblock option"
  m_types :: "indexedcontainer option"
  m_sweeps :: "chunk list option"
  m_traces :: "indexedcontainer option"
  m_sweepvalues :: "valuesectionsweep option"
  m_nonsweepvalues :: "indexedcontainer option"

definition deref :: "'a option \<Rightarrow> 'a res" where
  "deref p = (case p of None \<Rightarrow> Inl (Undefined NullPointer) | Some x \<Rightarrow> Inr x)"

definition get_header_properties :: "psffile \<Rightarrow> propertyblock res" where
  "get_header_properties psf = deref (m_header psf)"

definition get_trace_section :: "psffile \<Rightarrow> indexedcontainer res" where
  "get_trace_section psf = deref (m_traces psf)"

definition get_sweep_section :: "psffile \<Rightarrow> (chunk list) res" where
  "get_sweep_section psf = deref (m_sweeps psf)"

definition get_value_section_sweep :: "psffile \<Rightarrow> valuesectionsweep res" where
  "get_value_section_sweep psf = deref (m_sweepvalues psf)"

text \<open>\<open>int x = psf->get_header_properties().find(key)\<close>.\<close>

definition header_int :: "psffile \<Rightarrow> string \<Rightarrow> int res" where
  "header_int psf key =
     rbind (get_header_properties psf) (\<lambda>pb. rbind (PropertyBlock_find pb key) scalar_to_int)"

subsection \<open>The layout of the values\<close>

text \<open>
  \<open>"sweep" == value.tostring()\<close>: a property is a string or a number, and no number prints
  as that word.
\<close>

definition tostring_is_sweep :: "scalar \<Rightarrow> bool" where
  "tostring_is_sweep v = (case v of PSFStringScalar s \<Rightarrow> s = ''sweep'' | _ \<Rightarrow> False)"

text \<open>The bytes of one child of the trace section and the offsets of its traces; \<open>None\<close> for \<open>continue\<close>.\<close>

definition windowed_child :: "indexedcontainer option \<Rightarrow> int \<Rightarrow> chunk \<Rightarrow> int \<Rightarrow> (int, int) stdmap
    \<Rightarrow> ((int, int) stdmap \<times> int) res" where
  "windowed_child types windowsize itrace valueoffset offsetmap =
     (case itrace of
        GroupDefChunk groupdef \<Rightarrow> fill_offsetmap types groupdef offsetmap windowsize valueoffset
      | _ \<Rightarrow> Inl (Throw (IncorrectChunk (m_chunktype itrace))))"

definition simple_child :: "indexedcontainer option \<Rightarrow> chunk \<Rightarrow> int \<Rightarrow> (int, int) stdmap
    \<Rightarrow> ((int, int) stdmap \<times> int) option res" where
  "simple_child types itrace valueoffset offsetmap =
     (case itrace of
        DataTypeRefChunk ref \<Rightarrow>
          rbind (DataTypeRef_get_datatype types ref) (\<lambda>datatypedef.
          rbind (PropertyBlock_find (td_properties datatypedef) ''key'') (\<lambda>key.
          if tostring_is_sweep key then Inr None
          else rbind (c_int (valueoffset + 8)) (\<lambda>offset.
            Inr (Some (map_put (tr_id ref) offset offsetmap, td_datasize datatypedef)))))
      | GroupDefChunk groupdef \<Rightarrow>
          rbind (c_int (valueoffset + 8)) (\<lambda>offset.
          rbind (fill_offsetmap types groupdef offsetmap 0 offset) (\<lambda>r. Inr (Some r)))
      | _ \<Rightarrow> Inl (Throw (IncorrectChunk (m_chunktype itrace))))"

fun windowed_layout :: "indexedcontainer option \<Rightarrow> int \<Rightarrow> chunk list \<Rightarrow> int \<Rightarrow> int \<Rightarrow> (int, int) stdmap
    \<Rightarrow> ((int, int) stdmap \<times> int) res" where
  "windowed_layout types windowsize [] valueoffset m_valuesize m = Inr (m, m_valuesize)"
| "windowed_layout types windowsize (itrace # itraces) valueoffset m_valuesize m =
     rbind (windowed_child types windowsize itrace valueoffset m) (\<lambda>(m, child_datasize).
     rbind (c_int (m_valuesize + child_datasize)) (\<lambda>m_valuesize.
     rbind (c_int (valueoffset + child_datasize)) (\<lambda>valueoffset.
     windowed_layout types windowsize itraces valueoffset m_valuesize m)))"

fun simple_layout :: "indexedcontainer option \<Rightarrow> chunk list \<Rightarrow> int \<Rightarrow> int \<Rightarrow> (int, int) stdmap
    \<Rightarrow> ((int, int) stdmap \<times> int) res" where
  "simple_layout types [] valueoffset m_valuesize m = Inr (m, m_valuesize)"
| "simple_layout types (itrace # itraces) valueoffset m_valuesize m =
     rbind (simple_child types itrace valueoffset m) (\<lambda>child.
     case child of
       None \<Rightarrow> simple_layout types itraces valueoffset m_valuesize m
     | Some (m, child_datasize) \<Rightarrow>
         rbind (c_int (m_valuesize + (8 + child_datasize))) (\<lambda>m_valuesize.
         rbind (c_int (valueoffset + (8 + child_datasize))) (\<lambda>valueoffset.
         simple_layout types itraces valueoffset m_valuesize m)))"

definition create_valueoffsetmap :: "psffile \<Rightarrow> bool \<Rightarrow> ((int, int) stdmap \<times> int) res" where
  "create_valueoffsetmap psf windowedsweep =
     (if windowedsweep
      then rbind (header_int psf ''PSF window size'') (\<lambda>windowsize.
           rbind (get_trace_section psf) (\<lambda>traces.
           windowed_layout (m_types psf) windowsize (ic_children traces) 0 0 []))
      else rbind (get_trace_section psf) (\<lambda>traces.
           simple_layout (m_types psf) (ic_children traces) 0 0 []))"

subsection \<open>Opening the section\<close>

text \<open>\<open>ZeroPad\<close>: the size is unsigned, and the bytes are skipped, not read.\<close>

definition ZeroPad_deserialize :: "image \<Rightarrow> int \<Rightarrow> int res" where
  "ZeroPad_deserialize img startbuf =
     rbind (Chunk_deserialize 20 img startbuf) (\<lambda>n. let buf = startbuf + n in
     rbind (GET_INT32 img buf) (\<lambda>w. let buf = buf + 4 + uint w in
     Inr (sint (word_of_int (buf - startbuf) :: 32 word))))"

definition ValueSectionSweep_deserialize ::
    "psffile \<Rightarrow> image \<Rightarrow> int \<Rightarrow> int \<Rightarrow> (valuesectionsweep \<times> int) res" where
  "ValueSectionSweep_deserialize psf img startbuf abspos =
     rbind (get_header_properties psf) (\<lambda>header.
     let windowedsweep = PropertyBlock_hasprop header ''PSF window size'' in
     rbind (Chunk_deserialize 21 img startbuf) (\<lambda>n. let buf = startbuf + n in
     rbind (GET_INT32 img buf) (\<lambda>endpos. let buf = buf + 4 in
     rbind (if windowedsweep then ZeroPad_deserialize img buf else Inr 0) (\<lambda>n. let buf = buf + n in
     rbind (create_valueoffsetmap psf windowedsweep) (\<lambda>(offsetmap, valuesize).
     Inr (\<lparr>vss_windowedsweep = windowedsweep, vss_valuesize = valuesize, vss_ntraces = 0,
            vss_offsetmap = offsetmap, vss_valuebuf = buf,
            vss_endbuf = startbuf + uint endpos - abspos\<rparr>,
          sint (endpos - word_of_int abspos)))))))"

text \<open>An identifier without an offset is an end iterator dereferenced.\<close>

definition get_valueoffset :: "valuesectionsweep \<Rightarrow> int \<Rightarrow> int res" where
  "get_valueoffset vss ident =
     (case map_find (vss_offsetmap vss) ident of None \<Rightarrow> Inl (Undefined EndIterator) | Some n \<Rightarrow> Inr n)"

subsection \<open>Reading points\<close>

text \<open>\<open>typeref.deserialize_data(vec->ptr_at(i), buf)\<close>.\<close>

definition typeref_deserialize_point :: "indexedcontainer option \<Rightarrow> datatyperef \<Rightarrow> psfvector \<Rightarrow> int
    \<Rightarrow> image \<Rightarrow> int \<Rightarrow> (psfvector \<times> int) res" where
  "typeref_deserialize_point types ref vec i img buf =
     rbind (pv_ptr_at vec i) (\<lambda>data.
     rbind (DataTypeRef_deserialize_data types ref data img buf) (\<lambda>(data, n).
     Inr (pv_store vec i data, n)))"

fun typeref_deserialize_points :: "indexedcontainer option \<Rightarrow> datatyperef \<Rightarrow> nat \<Rightarrow> psfvector \<Rightarrow> int
    \<Rightarrow> image \<Rightarrow> int \<Rightarrow> (psfvector \<times> int) res" where
  "typeref_deserialize_points types ref 0 vec start img buf = Inr (vec, buf)"
| "typeref_deserialize_points types ref (Suc n) vec start img buf =
     rbind (typeref_deserialize_point types ref vec start img buf) (\<lambda>(vec, m).
     typeref_deserialize_points types ref n vec (start + 1) img (buf + m))"

text \<open>The vectors of the filter, each of \<open>n\<close> elements.\<close>

fun create_data_vectors :: "indexedcontainer option \<Rightarrow> int \<Rightarrow> datatyperef list \<Rightarrow> (psfvector list) res" where
  "create_data_vectors types n [] = Inr []"
| "create_data_vectors types n (trace # filt) =
     rbind (DataTypeRef_new_vector types trace) (\<lambda>vec.
     rbind (pv_resize vec n) (\<lambda>vec.
     rbind (create_data_vectors types n filt) (\<lambda>vecs. Inr (vec # vecs))))"

text \<open>\<open>*((DataTypeRef *)psf->get_sweep_section()[0])\<close>.\<close>

definition get_paramtype :: "psffile \<Rightarrow> datatyperef res" where
  "get_paramtype psf =
     rbind (get_sweep_section psf) (\<lambda>sweeps.
     case sweeps of
       [] \<Rightarrow> Inl (Undefined OutOfBounds)
     | ch # _ \<Rightarrow> (case ch of DataTypeRefChunk r \<Rightarrow> Inr r | _ \<Rightarrow> Inl (Undefined WrongType)))"

text \<open>\<open>SweepValueSimple\<close>: one point, then all of them. \<open>vecs\<close> are the vectors of the filter.\<close>

fun simple_traces :: "indexedcontainer option \<Rightarrow> valuesectionsweep \<Rightarrow> image \<Rightarrow> int \<Rightarrow> int
    \<Rightarrow> datatyperef list \<Rightarrow> psfvector list \<Rightarrow> (psfvector list) res" where
  "simple_traces types vss img valuebuf i [] vecs = Inr vecs"
| "simple_traces types vss img valuebuf i (trace # filt) [] = Inl (Throw OutOfRange)"
| "simple_traces types vss img valuebuf i (trace # filt) (vec # vecs) =
     rbind (get_valueoffset vss (tr_id trace)) (\<lambda>offset.
     rbind (typeref_deserialize_point types trace vec i img (valuebuf + offset)) (\<lambda>(vec, n).
     rbind (simple_traces types vss img valuebuf i filt vecs) (\<lambda>vecs. Inr (vec # vecs))))"

definition simple_point :: "indexedcontainer option \<Rightarrow> valuesectionsweep \<Rightarrow> image \<Rightarrow> datatyperef
    \<Rightarrow> datatyperef list \<Rightarrow> int \<Rightarrow> int \<Rightarrow> psfvector \<Rightarrow> psfvector list \<Rightarrow> int
    \<Rightarrow> (psfvector \<times> psfvector list \<times> int) res" where
  "simple_point types vss img paramtype filt paramstartidx i paramvalues vecs buf =
     rbind (Chunk_deserialize 16 img buf) (\<lambda>n. let buf = buf + n in
     rbind (GET_INT32 img buf) (\<lambda>w. let paramtypeid = sint w; buf = buf + 4 in
     if paramtypeid \<noteq> tr_id paramtype then Inl Abort
     else rbind (typeref_deserialize_point types paramtype paramvalues (paramstartidx + i) img buf)
       (\<lambda>(paramvalues, n). let valuebuf = buf + n in
     rbind (simple_traces types vss img valuebuf i filt vecs) (\<lambda>vecs.
     Inr (paramvalues, vecs, valuebuf + vss_valuesize vss)))))"

fun simple_loop :: "indexedcontainer option \<Rightarrow> valuesectionsweep \<Rightarrow> image \<Rightarrow> datatyperef
    \<Rightarrow> datatyperef list \<Rightarrow> int \<Rightarrow> nat \<Rightarrow> int \<Rightarrow> psfvector \<Rightarrow> psfvector list \<Rightarrow> int
    \<Rightarrow> (psfvector \<times> psfvector list \<times> int) res" where
  "simple_loop types vss img paramtype filt paramstartidx 0 i paramvalues vecs buf =
     Inr (paramvalues, vecs, buf)"
| "simple_loop types vss img paramtype filt paramstartidx (Suc k) i paramvalues vecs buf =
     rbind (simple_point types vss img paramtype filt paramstartidx i paramvalues vecs buf)
       (\<lambda>(paramvalues, vecs, buf).
     simple_loop types vss img paramtype filt paramstartidx k (i + 1) paramvalues vecs buf)"

text \<open>The result: parameter values, trace values, bytes.\<close>

definition SweepValueSimple_deserialize :: "psffile \<Rightarrow> image \<Rightarrow> int \<Rightarrow> int \<Rightarrow> datatyperef list
    \<Rightarrow> (psfvector \<times> psfvector list \<times> int) res" where
  "SweepValueSimple_deserialize psf img startbuf n filt =
     rbind (get_value_section_sweep psf) (\<lambda>vss.
     rbind (create_data_vectors (m_types psf) n filt) (\<lambda>vecs.
     rbind (get_paramtype psf) (\<lambda>paramtype.
     rbind (DataTypeRef_new_vector (m_types psf) paramtype) (\<lambda>paramvalues.
     let paramstartidx = pv_size paramvalues in
     rbind (pv_resize paramvalues (paramstartidx + n)) (\<lambda>paramvalues.
     rbind (simple_loop (m_types psf) vss img paramtype filt paramstartidx (nat n) 0
         paramvalues vecs startbuf) (\<lambda>(paramvalues, vecs, buf).
     Inr (paramvalues, vecs, buf - startbuf)))))))"

text \<open>
  \<open>SweepValueWindowed\<close>: the \<open>n\<close> values of a trace stand at the end of its window. One window is
  \<open>window_step\<close>. The position moves on by \<open>ntraces * windowsize\<close>, numbers that the header
  gives, so that the loop need not end: its value is then \<open>None\<close>.
\<close>

fun windowed_traces :: "indexedcontainer option \<Rightarrow> valuesectionsweep \<Rightarrow> image \<Rightarrow> int \<Rightarrow> int \<Rightarrow> int \<Rightarrow> int
    \<Rightarrow> datatyperef list \<Rightarrow> psfvector list \<Rightarrow> (psfvector list) res" where
  "windowed_traces types vss img windowsize valuebuf n i [] vecs = Inr vecs"
| "windowed_traces types vss img windowsize valuebuf n i (typeref # filt) [] = Inl (Undefined OutOfBounds)"
| "windowed_traces types vss img windowsize valuebuf n i (typeref # filt) (vec # vecs) =
     rbind (get_valueoffset vss (tr_id typeref)) (\<lambda>offset.
     rbind (DataTypeRef_datasize types typeref) (\<lambda>datasize.
     rbind (c_int (n * datasize)) (\<lambda>used.
     rbind (c_int (windowsize - used)) (\<lambda>unused.
     let buf = valuebuf + offset + unused in
     rbind (typeref_deserialize_points types typeref (nat n) vec i img buf) (\<lambda>(vec, buf).
     rbind (windowed_traces types vss img windowsize valuebuf n i filt vecs) (\<lambda>vecs.
     Inr (vec # vecs)))))))"

definition window_step :: "indexedcontainer option \<Rightarrow> valuesectionsweep \<Rightarrow> image \<Rightarrow> datatyperef
    \<Rightarrow> datatyperef list \<Rightarrow> int \<Rightarrow> int \<Rightarrow> int \<Rightarrow> psfvector \<Rightarrow> psfvector list \<Rightarrow> int
    \<Rightarrow> (int \<times> psfvector \<times> psfvector list \<times> int) res" where
  "window_step types vss img paramtype filt windowsize ntraces i paramvalues vecs buf =
     rbind (Chunk_deserialize 16 img buf) (\<lambda>k. let buf = buf + k in
     rbind (GET_INT32 img buf) (\<lambda>tmp. let n = take_bit 16 (uint tmp); buf = buf + 4 in
     let pwinstart = pv_size paramvalues in
     rbind (pv_resize paramvalues (pwinstart + n)) (\<lambda>paramvalues.
     rbind (typeref_deserialize_points types paramtype (nat n) paramvalues pwinstart img buf)
       (\<lambda>(paramvalues, valuebuf).
     rbind (windowed_traces types vss img windowsize valuebuf n i filt vecs) (\<lambda>vecs.
     rbind (c_int (ntraces * windowsize)) (\<lambda>k.
     rbind (c_int (i + n)) (\<lambda>i.
     Inr (i, paramvalues, vecs, valuebuf + k))))))))"

partial_function (option) windowed_loop :: "indexedcontainer option \<Rightarrow> valuesectionsweep \<Rightarrow> image
    \<Rightarrow> datatyperef \<Rightarrow> datatyperef list \<Rightarrow> int \<Rightarrow> int \<Rightarrow> int \<Rightarrow> int \<Rightarrow> psfvector \<Rightarrow> psfvector list \<Rightarrow> int
    \<Rightarrow> (psfvector \<times> psfvector list \<times> int) res option" where
  [code]: "windowed_loop types vss img paramtype filt windowsize ntraces totaln i paramvalues vecs buf =
     (if i < totaln
      then (case window_step types vss img paramtype filt windowsize ntraces i paramvalues vecs buf of
          Inl e \<Rightarrow> Some (Inl e)
        | Inr r \<Rightarrow> (case r of (i, paramvalues, vecs, buf) \<Rightarrow>
            windowed_loop types vss img paramtype filt windowsize ntraces totaln i paramvalues vecs buf))
      else Some (Inr (paramvalues, vecs, buf)))"

text \<open>\<open>SweepValueWindowed::deserialize\<close>: what comes before the loop, then the loop.\<close>

definition SweepValueWindowed_prepare :: "psffile \<Rightarrow> int \<Rightarrow> datatyperef list
    \<Rightarrow> (valuesectionsweep \<times> int \<times> int \<times> datatyperef \<times> psfvector \<times> psfvector list) res" where
  "SweepValueWindowed_prepare psf totaln filt =
     rbind (header_int psf ''PSF window size'') (\<lambda>windowsize.
     rbind (header_int psf ''PSF traces'') (\<lambda>ntraces.
     rbind (get_paramtype psf) (\<lambda>paramtype.
     rbind (DataTypeRef_new_vector (m_types psf) paramtype) (\<lambda>paramvalues.
     rbind (create_data_vectors (m_types psf) totaln filt) (\<lambda>vecs.
     rbind (get_value_section_sweep psf) (\<lambda>vss.
     Inr (vss, windowsize, ntraces, paramtype, paramvalues, vecs)))))))"

definition SweepValueWindowed_deserialize :: "psffile \<Rightarrow> image \<Rightarrow> int \<Rightarrow> int \<Rightarrow> datatyperef list
    \<Rightarrow> (psfvector \<times> psfvector list \<times> int) res option" where
  "SweepValueWindowed_deserialize psf img startbuf totaln filt =
     (case SweepValueWindowed_prepare psf totaln filt of
        Inl e \<Rightarrow> Some (Inl e)
      | Inr (vss, windowsize, ntraces, paramtype, paramvalues, vecs) \<Rightarrow>
          (case windowed_loop (m_types psf) vss img paramtype filt windowsize ntraces totaln 0
               paramvalues vecs startbuf of
             None \<Rightarrow> None
           | Some r \<Rightarrow> Some (rbind r (\<lambda>(paramvalues, vecs, buf). Inr (paramvalues, vecs, buf - startbuf)))))"

subsection \<open>The values of a sweep\<close>

definition ValueSectionSweep_get_values_filter :: "psffile \<Rightarrow> image \<Rightarrow> valuesectionsweep
    \<Rightarrow> datatyperef list \<Rightarrow> (psfvector \<times> psfvector list \<times> int) res option" where
  "ValueSectionSweep_get_values_filter psf img vss filt =
     (case header_int psf ''PSF sweep points'' of
        Inl e \<Rightarrow> Some (Inl e)
      | Inr n \<Rightarrow>
          if vss_windowedsweep vss
          then SweepValueWindowed_deserialize psf img (vss_valuebuf vss) n filt
          else Some (SweepValueSimple_deserialize psf img (vss_valuebuf vss) n filt))"

definition ValueSectionSweep_get_values :: "psffile \<Rightarrow> image \<Rightarrow> valuesectionsweep \<Rightarrow> string
    \<Rightarrow> psfvector res option" where
  "ValueSectionSweep_get_values psf img vss name =
     (case rbind (get_trace_section psf) (\<lambda>traces. get_trace_by_name traces name) of
        Inl e \<Rightarrow> Some (Inl e)
      | Inr trace \<Rightarrow> map_option (\<lambda>r. rbind r (\<lambda>(paramvalues, vecs, n). vector_at vecs 0))
          (ValueSectionSweep_get_values_filter psf img vss [trace]))"

definition ValueSectionSweep_get_param_values :: "psffile \<Rightarrow> image \<Rightarrow> valuesectionsweep
    \<Rightarrow> psfvector res option" where
  "ValueSectionSweep_get_param_values psf img vss =
     map_option (\<lambda>r. rbind r (\<lambda>(paramvalues, vecs, n). Inr paramvalues))
       (ValueSectionSweep_get_values_filter psf img vss [])"

subsection \<open>The points of a trace\<close>

lemma typeref_point_eq:
  "DataTypeRef_get_datatype types ref = Inr td \<Longrightarrow>
     typeref_deserialize_point types ref vec i img buf = deserialize_point td vec i img buf"
  by (simp add: typeref_deserialize_point_def deserialize_point_def DataTypeRef_deserialize_data_def)

lemma typeref_points_eq:
  "DataTypeRef_get_datatype types ref = Inr td \<Longrightarrow>
     typeref_deserialize_points types ref n vec start img buf = deserialize_points td n vec start img buf"
  by (induction n arbitrary: vec start buf) (simp_all add: typeref_point_eq)

lemma typeref_points_nonneg:
  "typeref_deserialize_points types ref n vec start img buf = Inr (vec', buf') \<Longrightarrow> buf \<le> buf'"
  by (induction n arbitrary: vec start buf)
    (fastforce simp: typeref_deserialize_point_def DataTypeRef_deserialize_data_def res_simps
      dest!: deserialize_data_nonneg)+

subsection \<open>The loop over windows ends\<close>

lemma window_step_progress:
  assumes "window_step types vss img paramtype filt windowsize ntraces i paramvalues vecs buf
      = Inr (i', paramvalues', vecs', buf')"
  shows "0 \<le> buf \<and> buf + 4 \<le> int (length img) \<and> i \<le> i' \<and> buf + 8 + ntraces * windowsize \<le> buf'"
  using assms by (auto simp: window_step_def Let_def res_simps dest!: GET_INT32_bounds typeref_points_nonneg)

lemma windowed_loop_ends:
  assumes "0 \<le> ntraces * windowsize"
  shows "\<exists>r. windowed_loop types vss img paramtype filt windowsize ntraces totaln i paramvalues vecs buf = Some r"
proof (induction "nat (int (length img) - buf)" arbitrary: i paramvalues vecs buf rule: less_induct)
  case less
  let ?step = "window_step types vss img paramtype filt windowsize ntraces i paramvalues vecs buf"
  note loop = windowed_loop.simps [of types vss img paramtype filt windowsize ntraces totaln i]
  show ?case
  proof (cases "\<exists>r. i < totaln \<and> ?step = Inr r")
    case True
    then obtain i' paramvalues' vecs' buf' where step: "i < totaln" "?step = Inr (i', paramvalues', vecs', buf')"
      by auto
    then have "nat (int (length img) - buf') < nat (int (length img) - buf)"
      using window_step_progress [OF step(2)] assms by auto
    from less [OF this, of i' paramvalues' vecs'] show ?thesis
      unfolding loop using step by simp
  next
    case False
    then show ?thesis unfolding loop by (cases ?step) auto
  qed
qed

text \<open>A window without points that leads back to itself is read for ever.\<close>

lemma windowed_loop_not_stuck:
  "windowed_loop types vss img paramtype filt windowsize ntraces totaln i paramvalues vecs buf = Some r \<Longrightarrow>
     i < totaln \<longrightarrow> window_step types vss img paramtype filt windowsize ntraces i paramvalues vecs buf
       \<noteq> Inr (i, paramvalues, vecs, buf)"
proof (erule windowed_loop.raw_induct [rotated])
  fix loop types vss img paramtype filt windowsize ntraces totaln i paramvalues vecs buf and r
  assume IH: "\<And>types vss img paramtype filt windowsize ntraces totaln i paramvalues vecs buf r.
      loop types vss img paramtype filt windowsize ntraces totaln i paramvalues vecs buf = Some r \<Longrightarrow>
      i < totaln \<longrightarrow> window_step types vss img paramtype filt windowsize ntraces i paramvalues vecs buf
        \<noteq> Inr (i, paramvalues, vecs, buf)"
    and "(if i < totaln
      then (case window_step types vss img paramtype filt windowsize ntraces i paramvalues vecs buf of
          Inl e \<Rightarrow> Some (Inl e)
        | Inr r \<Rightarrow> (case r of (i, paramvalues, vecs, buf) \<Rightarrow>
            loop types vss img paramtype filt windowsize ntraces totaln i paramvalues vecs buf))
      else Some (Inr (paramvalues, vecs, buf))) = Some r"
  then show "i < totaln \<longrightarrow> window_step types vss img paramtype filt windowsize ntraces i paramvalues vecs buf
      \<noteq> Inr (i, paramvalues, vecs, buf)"
    by auto
qed

lemma windowed_loop_stuck:
  assumes "window_step types vss img paramtype filt windowsize ntraces i paramvalues vecs buf
      = Inr (i, paramvalues, vecs, buf)" and "i < totaln"
  shows "windowed_loop types vss img paramtype filt windowsize ntraces totaln i paramvalues vecs buf = None"
  using windowed_loop_not_stuck [of types vss img paramtype filt windowsize ntraces totaln i paramvalues vecs buf]
    assms by (cases "windowed_loop types vss img paramtype filt windowsize ntraces totaln i paramvalues vecs buf") auto

subsection \<open>What the readers return\<close>

text \<open>
  A column of a sweep: a trace, its type, its offset in a point and its values. \<open>columns_ok\<close>
  says that the open file knows it so; \<open>N\<close> is the number of points.
\<close>

type_synonym column = "datatyperef \<times> datatypedef \<times> int \<times> scalar list"

definition column_ok :: "indexedcontainer option \<Rightarrow> valuesectionsweep \<Rightarrow> nat \<Rightarrow> column \<Rightarrow> bool" where
  "column_ok types vss N = (\<lambda>(ref, td, offset, vs).
     DataTypeRef_get_datatype types ref = Inr td \<and> get_valueoffset vss (tr_id ref) = Inr offset
     \<and> length vs = N \<and> typedef_wf td \<and> (\<forall>v \<in> set vs. value_ok td v))"

definition col_ref :: "column \<Rightarrow> datatyperef" where
  "col_ref = fst"

definition col_init :: "column \<Rightarrow> scalar" where
  "col_init = (\<lambda>(ref, td, offset, vs).
     case new_vector td of Inr v \<Rightarrow> pv_init v | Inl e \<Rightarrow> PSFStringScalar '''')"

definition col_filled :: "nat \<Rightarrow> nat \<Rightarrow> column \<Rightarrow> psfvector" where
  "col_filled i N c = (case c of (ref, td, offset, vs) \<Rightarrow> filled (col_init c) vs i N)"

text \<open>The vector that a column should be read as.\<close>

definition col_vector :: "column \<Rightarrow> psfvector" where
  "col_vector c = (case c of (ref, td, offset, vs) \<Rightarrow> PSFVectorT (col_init c) vs)"

lemma col_init_fresh:
  "typedef_wf td \<Longrightarrow> fresh_for td (col_init (ref, td, offset, vs))"
  using new_vector_wf [of td] by (auto simp: col_init_def dest: new_vector_init)

lemma new_vector_col:
  "typedef_wf td \<Longrightarrow> new_vector td = Inr (PSFVectorT (col_init (ref, td, offset, vs)) [])"
  using new_vector_wf [of td] by (fastforce simp: col_init_def dest: new_vector_init intro: psfvector.expand)

lemma pv_resize_empty: "pv_resize (PSFVectorT x []) (int n) = Inr (filled x vs 0 n)"
  by (simp add: pv_resize_def filled_none)

lemma create_data_vectors_cols:
  "\<forall>c \<in> set cols. column_ok types vss N c \<Longrightarrow>
     create_data_vectors types (int N) (map col_ref cols) = Inr (map (col_filled 0 N) cols)"
proof (induction cols)
  case (Cons c cols)
  obtain ref td offset vs where c: "c = (ref, td, offset, vs)" by (cases c)
  with Cons.prems have "DataTypeRef_new_vector types ref = Inr (PSFVectorT (col_init c) [])"
    using new_vector_col [of td ref offset vs]
    by (simp add: column_ok_def DataTypeRef_new_vector_def)
  with Cons c show ?case
    by (simp add: col_ref_def col_filled_def pv_resize_empty [of _ _ vs])
qed simp

lemma col_filled_all: "column_ok types vss N c \<Longrightarrow> col_filled N N c = col_vector c"
  by (auto simp: col_filled_def col_vector_def column_ok_def filled_all)

text \<open>A point: its marker, the parameter, and the value of each column at its offset.\<close>

definition point_at :: "image \<Rightarrow> datatyperef \<Rightarrow> datatypedef \<Rightarrow> scalar list \<Rightarrow> column list \<Rightarrow> nat \<Rightarrow> int \<Rightarrow> bool" where
  "point_at img paramtype ptd ps cols i buf \<longleftrightarrow>
     seg img buf (enc_int 16 @ enc_int (tr_id paramtype) @ enc_value ptd (ps ! i)) \<and>
     list_all (\<lambda>(ref, td, offset, vs). seg img (buf + 8 + td_datasize ptd + offset) (enc_value td (vs ! i))) cols"

lemma simple_traces_cols:
  assumes "\<forall>c \<in> set cols. column_ok types vss N c" and "i < N"
    and "list_all (\<lambda>(ref, td, offset, vs). seg img (valuebuf + offset) (enc_value td (vs ! i))) cols"
  shows "simple_traces types vss img valuebuf (int i) (map col_ref cols) (map (col_filled i N) cols)
    = Inr (map (col_filled (Suc i) N) cols)"
  using assms
proof (induction cols)
  case (Cons c cols)
  obtain ref td offset vs where c: "c = (ref, td, offset, vs)" by (cases c)
  with Cons.prems have col: "DataTypeRef_get_datatype types ref = Inr td"
    "get_valueoffset vss (tr_id ref) = Inr offset" "length vs = N" "typedef_wf td" "value_ok td (vs ! i)"
    and seg: "seg img (valuebuf + offset) (enc_value td (vs ! i))"
    by (auto simp: column_ok_def)
  have "deserialize_point td (filled (col_init c) vs i N) (int i) img (valuebuf + offset)
      = Inr (filled (col_init c) vs (Suc i) N, int (length (enc_value td (vs ! i))))"
    using deserialize_point_filled [OF col(5) col_init_fresh [OF col(4), of ref offset vs] Cons.prems(2) _ seg]
      col(3) c by simp
  with Cons c col show ?case
    by (simp add: col_ref_def col_filled_def typeref_point_eq)
qed simp

text \<open>The parameter of the sweep.\<close>

definition param_ok :: "indexedcontainer option \<Rightarrow> datatyperef \<Rightarrow> datatypedef \<Rightarrow> nat \<Rightarrow> scalar list \<Rightarrow> bool" where
  "param_ok types paramtype ptd N ps \<longleftrightarrow> DataTypeRef_get_datatype types paramtype = Inr ptd
     \<and> int_range (tr_id paramtype) \<and> length ps = N \<and> typedef_wf ptd \<and> (\<forall>p \<in> set ps. value_ok ptd p)"

lemma value_ok_length: "value_ok td v \<Longrightarrow> int (length (enc_value td v)) = td_datasize td"
  by (simp add: value_ok_def length_enc_value(1))

lemma simple_point_cols:
  assumes "\<forall>c \<in> set cols. column_ok types vss N c" and "param_ok types paramtype ptd N ps"
    and "fresh_for ptd i0" and "i < N" and "point_at img paramtype ptd ps cols i buf"
  shows "simple_point types vss img paramtype (map col_ref cols) 0 (int i) (filled i0 ps i N)
      (map (col_filled i N) cols) buf
    = Inr (filled i0 ps (Suc i) N, map (col_filled (Suc i) N) cols,
        buf + (8 + td_datasize ptd + vss_valuesize vss))"
proof -
  have p: "value_ok ptd (ps ! i)" "N = length ps" "DataTypeRef_get_datatype types paramtype = Inr ptd"
    "int_range (tr_id paramtype)"
    using assms(2,4) by (auto simp: param_ok_def)
  have at: "seg img buf (enc_int 16)" "seg img (4 + buf) (enc_int (tr_id paramtype))"
    "seg img (8 + buf) (enc_value ptd (ps ! i))"
    using assms(5) by (simp_all add: point_at_def seg_simps algebra_simps)
  have "simple_traces types vss img (8 + (buf + td_datasize ptd)) (int i) (map col_ref cols) (map (col_filled i N) cols)
    = Inr (map (col_filled (Suc i) N) cols)"
    using assms(1,4,5) by (intro simple_traces_cols) (auto simp: point_at_def list_all_iff algebra_simps)
  moreover have "deserialize_point ptd (filled i0 ps i N) (int i) img (8 + buf)
      = Inr (filled i0 ps (Suc i) N, td_datasize ptd)"
    using deserialize_point_filled [OF p(1) assms(3,4) p(2) at(3)] value_ok_length [OF p(1)] by simp
  ultimately show ?thesis
    using at p by (simp add: simple_point_def Let_def decodes typeref_point_eq algebra_simps)
qed

lemma simple_loop_cols:
  assumes "\<forall>c \<in> set cols. column_ok types vss N c" and "param_ok types paramtype ptd N ps"
    and "fresh_for ptd i0" and "i + k = N"
    and "\<forall>j < k. point_at img paramtype ptd ps cols (i + j)
        (buf + int j * (8 + td_datasize ptd + vss_valuesize vss))"
  shows "simple_loop types vss img paramtype (map col_ref cols) 0 k (int i) (filled i0 ps i N)
      (map (col_filled i N) cols) buf
    = Inr (PSFVectorT i0 ps, map col_vector cols, buf + int k * (8 + td_datasize ptd + vss_valuesize vss))"
  using assms(4,5)
proof (induction k arbitrary: i buf)
  case 0
  have "length ps = N"
    using assms(2) by (simp add: param_ok_def)
  with 0 assms(1) show ?case
    by (auto simp: filled_all intro!: map_cong col_filled_all)
next
  case (Suc k)
  let ?stride = "8 + td_datasize ptd + vss_valuesize vss"
  have "simple_point types vss img paramtype (map col_ref cols) 0 (int i) (filled i0 ps i N)
      (map (col_filled i N) cols) buf
    = Inr (filled i0 ps (Suc i) N, map (col_filled (Suc i) N) cols, buf + ?stride)"
    using Suc.prems by (intro simple_point_cols [OF assms(1-3)]) auto
  moreover have "point_at img paramtype ptd ps cols (Suc i + j) (buf + ?stride + int j * ?stride)" if "j < k" for j
    using spec [OF Suc.prems(2), of "Suc j"] that by (simp add: algebra_simps)
  ultimately show ?case
    using Suc.IH [of "Suc i" "buf + ?stride"] Suc.prems(1) by (simp add: algebra_simps)
qed

text \<open>
  A simple sweep is read as its columns, wherever the points stand in the image one after the
  other.
\<close>

lemma SweepValueSimple_deserialize_cols:
  assumes "m_sweepvalues psf = Some vss" and "get_paramtype psf = Inr paramtype"
    and "\<forall>c \<in> set cols. column_ok (m_types psf) vss N c" and "param_ok (m_types psf) paramtype ptd N ps"
    and "\<forall>i < N. point_at img paramtype ptd ps cols i
        (buf + int i * (8 + td_datasize ptd + vss_valuesize vss))"
  shows "\<exists>i0. fresh_for ptd i0 \<and> SweepValueSimple_deserialize psf img buf (int N) (map col_ref cols)
    = Inr (PSFVectorT i0 ps, map col_vector cols, int N * (8 + td_datasize ptd + vss_valuesize vss))"
proof -
  obtain v where v: "new_vector ptd = Inr v" "pv_elems v = []" "fresh_for ptd (pv_init v)"
    using assms(4) new_vector_wf new_vector_init by (fastforce simp: param_ok_def)
  then have vec: "DataTypeRef_new_vector (m_types psf) paramtype = Inr (PSFVectorT (pv_init v) [])"
    using assms(4) by (cases v) (simp add: param_ok_def DataTypeRef_new_vector_def)
  have "simple_loop (m_types psf) vss img paramtype (map col_ref cols) 0 N 0 (filled (pv_init v) ps 0 N)
      (map (col_filled 0 N) cols) buf
    = Inr (PSFVectorT (pv_init v) ps, map col_vector cols,
        buf + int N * (8 + td_datasize ptd + vss_valuesize vss))"
    using simple_loop_cols [OF assms(3,4) v(3), of 0 N img buf] assms(5) by simp
  with assms(1,2) v(3) vec create_data_vectors_cols [OF assms(3)] show ?thesis
    by (intro exI [of _ "pv_init v"])
      (simp add: SweepValueSimple_deserialize_def get_value_section_sweep_def deref_def pv_size_def
        pv_resize_empty [of _ _ ps])
qed

subsection \<open>What the reader of windows returns\<close>

text \<open>
  A window of \<open>n\<close> points from point \<open>i\<close> on: the values of each trace at the end of its part.
\<close>

definition window_at :: "image \<Rightarrow> datatypedef \<Rightarrow> scalar list \<Rightarrow> column list \<Rightarrow> int \<Rightarrow> nat \<Rightarrow> nat \<Rightarrow> int \<Rightarrow> bool" where
  "window_at img ptd ps cols windowsize i n buf \<longleftrightarrow>
     int n < 2 ^ 16 \<and> seg img buf (enc_int 16) \<and>
     (case GET_INT32 img (buf + 4) of Inr tmp \<Rightarrow> take_bit 16 (uint tmp) = int n | Inl e \<Rightarrow> False) \<and>
     seg img (buf + 8) (concat (map (enc_value ptd) (take n (drop i ps)))) \<and>
     list_all (\<lambda>(ref, td, offset, vs).
       int_range (int n * td_datasize td) \<and> int_range (windowsize - int n * td_datasize td) \<and>
       seg img (buf + 8 + int n * td_datasize ptd + offset + (windowsize - int n * td_datasize td))
         (concat (map (enc_value td) (take n (drop i vs))))) cols"

lemma length_values:
  "\<forall>v \<in> set vs. value_ok td v \<Longrightarrow> int (length (concat (map (enc_value td) vs))) = int (length vs) * td_datasize td"
  by (induction vs) (simp_all add: value_ok_length algebra_simps)

lemma windowed_traces_cols:
  assumes "\<forall>c \<in> set cols. column_ok types vss N c" and "i + n \<le> N"
    and "list_all (\<lambda>(ref, td, offset, vs).
       int_range (int n * td_datasize td) \<and> int_range (windowsize - int n * td_datasize td) \<and>
       seg img (valuebuf + offset + (windowsize - int n * td_datasize td))
         (concat (map (enc_value td) (take n (drop i vs))))) cols"
  shows "windowed_traces types vss img windowsize valuebuf (int n) (int i) (map col_ref cols)
      (map (col_filled i N) cols) = Inr (map (col_filled (i + n) N) cols)"
  using assms
proof (induction cols)
  case (Cons c cols)
  obtain ref td offset vs where c: "c = (ref, td, offset, vs)" by (cases c)
  with Cons.prems have col: "DataTypeRef_get_datatype types ref = Inr td"
    "get_valueoffset vss (tr_id ref) = Inr offset" "length vs = N" "typedef_wf td" "\<forall>v \<in> set vs. value_ok td v"
    and range: "int_range (int n * td_datasize td)" "int_range (windowsize - int n * td_datasize td)"
    and seg: "seg img (valuebuf + offset + (windowsize - int n * td_datasize td))
         (concat (map (enc_value td) (take n (drop i vs))))"
    by (auto simp: column_ok_def)
  note points = deserialize_points_filled [OF col(5) col_init_fresh [OF col(4), of ref offset vs] Cons.prems(2) _ seg]
  with Cons c col range show ?case
    by (simp add: col_ref_def col_filled_def typeref_points_eq DataTypeRef_datasize_def)
qed simp

lemma pv_resize_more:
  "i + n \<le> length ps \<Longrightarrow>
     pv_resize (PSFVectorT i0 (take i ps)) (int i + int n) = Inr (filled i0 (take (i + n) ps) i (i + n))"
  by (simp add: pv_resize_def filled_def nat_add_distrib min_def)

lemma window_step_cols:
  assumes "\<forall>c \<in> set cols. column_ok types vss N c" and "param_ok types paramtype ptd N ps"
    and "fresh_for ptd i0" and "i + n \<le> N" and "window_at img ptd ps cols windowsize i n buf"
    and "int_range (ntraces * windowsize)" and "int_range (int N)"
  shows "window_step types vss img paramtype (map col_ref cols) windowsize ntraces (int i)
      (PSFVectorT i0 (take i ps)) (map (col_filled i N) cols) buf
    = Inr (int (i + n), PSFVectorT i0 (take (i + n) ps), map (col_filled (i + n) N) cols,
        buf + (8 + int n * td_datasize ptd + ntraces * windowsize))"
proof -
  have p: "\<forall>p \<in> set ps. value_ok ptd p" "length ps = N" "DataTypeRef_get_datatype types paramtype = Inr ptd"
    using assms(2) by (simp_all add: param_ok_def)
  obtain tmp where at: "seg img buf (enc_int 16)" "GET_INT32 img (4 + buf) = Inr tmp"
      "take_bit 16 (uint tmp) = int n"
    and seg: "seg img (8 + buf) (concat (map (enc_value ptd) (take n (drop i (take (i + n) ps)))))"
    using assms(4,5) p(2) by (auto simp: window_at_def algebra_simps drop_take split: sum.splits)
  have size: "pv_size (PSFVectorT i0 (take i ps)) = int i"
    using assms(4) p(2) by (simp add: pv_size_def)
  have ps': "\<forall>p \<in> set (take (i + n) ps). value_ok ptd p" "length (take (i + n) ps) = i + n"
    using p assms(4) by (auto dest: in_set_takeD)
  define w where "w = take n (drop i (take (i + n) ps))"
  have "set w \<subseteq> set (take (i + n) ps)" "length w = n"
    using ps'(2) unfolding w_def by (auto dest: in_set_takeD in_set_dropD)
  then have len: "int (length (concat (map (enc_value ptd) w))) = int n * td_datasize ptd"
    using length_values [of w ptd] ps'(1) by auto
  have "deserialize_points ptd n (filled i0 (take (i + n) ps) i (i + n)) (int i) img (8 + buf)
    = Inr (filled i0 (take (i + n) ps) (i + n) (i + n), 8 + buf + int (length (concat (map (enc_value ptd) w))))"
    using deserialize_points_filled [OF ps'(1) assms(3) order.refl ps'(2) [symmetric] seg] unfolding w_def .
  then have params: "deserialize_points ptd n (filled i0 (take (i + n) ps) i (i + n)) (int i) img (8 + buf)
    = Inr (PSFVectorT i0 (take (i + n) ps), 8 + (buf + int n * td_datasize ptd))"
    using filled_all [of i0 "take (i + n) ps"] ps'(2) unfolding len by simp
  have "windowed_traces types vss img windowsize (8 + (buf + int n * td_datasize ptd)) (int n) (int i)
      (map col_ref cols) (map (col_filled i N) cols) = Inr (map (col_filled (i + n) N) cols)"
    using assms(1,4,5) by (intro windowed_traces_cols) (auto simp: window_at_def list_all_iff algebra_simps)
  moreover have "int_range (int i + int n)"
    using assms(4,7) by (simp add: int_range_def)
  ultimately show ?thesis
    using at size params assms(4,6) p
    by (simp add: window_step_def Let_def decodes typeref_points_eq pv_resize_more algebra_simps)
qed

text \<open>Windows one after the other, up to the last point.\<close>

fun windows_at :: "image \<Rightarrow> datatypedef \<Rightarrow> scalar list \<Rightarrow> column list \<Rightarrow> int \<Rightarrow> int \<Rightarrow> nat \<Rightarrow> nat list \<Rightarrow> nat \<Rightarrow> int \<Rightarrow> bool" where
  "windows_at img ptd ps cols windowsize ntraces N [] i buf \<longleftrightarrow> i = N"
| "windows_at img ptd ps cols windowsize ntraces N (n # ns) i buf \<longleftrightarrow>
     i < N \<and> i + n \<le> N \<and> window_at img ptd ps cols windowsize i n buf \<and>
     windows_at img ptd ps cols windowsize ntraces N ns (i + n)
       (buf + (8 + int n * td_datasize ptd + ntraces * windowsize))"

lemma windowed_loop_cols:
  assumes "\<forall>c \<in> set cols. column_ok types vss N c" and "param_ok types paramtype ptd N ps"
    and "fresh_for ptd i0" and "int_range (ntraces * windowsize)" and "int_range (int N)"
    and "windows_at img ptd ps cols windowsize ntraces N ns i buf"
  shows "\<exists>buf'. windowed_loop types vss img paramtype (map col_ref cols) windowsize ntraces (int N) (int i)
      (PSFVectorT i0 (take i ps)) (map (col_filled i N) cols) buf
    = Some (Inr (PSFVectorT i0 ps, map col_vector cols, buf'))"
  using assms(6)
proof (induction ns arbitrary: i buf)
  case Nil
  moreover have "length ps = N"
    using assms(2) by (simp add: param_ok_def)
  ultimately show ?case
    using assms(1) by (subst windowed_loop.simps) (auto intro!: map_cong col_filled_all)
next
  case (Cons n ns)
  from Cons.prems have
    step: "window_step types vss img paramtype (map col_ref cols) windowsize ntraces (int i)
      (PSFVectorT i0 (take i ps)) (map (col_filled i N) cols) buf
    = Inr (int (i + n), PSFVectorT i0 (take (i + n) ps), map (col_filled (i + n) N) cols,
        buf + (8 + int n * td_datasize ptd + ntraces * windowsize))"
    using assms(1-5) by (intro window_step_cols) auto
  have "i < N"
    using Cons.prems by simp
  with step show ?case
    using Cons.IH [of "i + n" "buf + (8 + int n * td_datasize ptd + ntraces * windowsize)"] Cons.prems
    by (subst windowed_loop.simps) simp
qed

lemma SweepValueWindowed_deserialize_cols:
  assumes "m_sweepvalues psf = Some vss" and "get_paramtype psf = Inr paramtype"
    and "header_int psf ''PSF window size'' = Inr windowsize" and "header_int psf ''PSF traces'' = Inr ntraces"
    and "\<forall>c \<in> set cols. column_ok (m_types psf) vss N c" and "param_ok (m_types psf) paramtype ptd N ps"
    and "int_range (ntraces * windowsize)" and "int_range (int N)"
    and "windows_at img ptd ps cols windowsize ntraces N ns 0 buf"
  shows "\<exists>i0 n. fresh_for ptd i0 \<and> SweepValueWindowed_deserialize psf img buf (int N) (map col_ref cols)
    = Some (Inr (PSFVectorT i0 ps, map col_vector cols, n))"
proof -
  obtain v where v: "new_vector ptd = Inr v" "pv_elems v = []" "fresh_for ptd (pv_init v)"
    using assms(6) new_vector_wf new_vector_init by (fastforce simp: param_ok_def)
  then have vec: "DataTypeRef_new_vector (m_types psf) paramtype = Inr (PSFVectorT (pv_init v) [])"
    using assms(6) by (cases v) (simp add: param_ok_def DataTypeRef_new_vector_def)
  obtain buf' where "windowed_loop (m_types psf) vss img paramtype (map col_ref cols) windowsize ntraces (int N) 0
      (PSFVectorT (pv_init v) []) (map (col_filled 0 N) cols) buf
    = Some (Inr (PSFVectorT (pv_init v) ps, map col_vector cols, buf'))"
    using windowed_loop_cols [OF assms(5,6) v(3) assms(7,8,9)] by auto
  with assms(1-4) v(3) vec create_data_vectors_cols [OF assms(5)] show ?thesis
    by (intro exI [of _ "pv_init v"])
      (simp add: SweepValueWindowed_deserialize_def SweepValueWindowed_prepare_def
        get_value_section_sweep_def deref_def)
qed

subsection \<open>The layout\<close>

text \<open>
  \<open>placed\<close>: the references have offsets in the map, one after the other between \<open>lo\<close> and \<open>hi\<close>,
  each with room for its bytes.
\<close>

fun placed :: "indexedcontainer option \<Rightarrow> int \<Rightarrow> (int, int) stdmap \<Rightarrow> datatyperef list \<Rightarrow> int \<Rightarrow> int \<Rightarrow> bool" where
  "placed types windowsize m [] lo hi \<longleftrightarrow> lo \<le> hi"
| "placed types windowsize m (ref # refs) lo hi \<longleftrightarrow>
     (case (map_find m (tr_id ref), ref_bytes types windowsize ref) of
        (Some offset, Inr n) \<Rightarrow> lo \<le> offset \<and> placed types windowsize m refs (offset + n) hi
      | _ \<Rightarrow> False)"

lemma placed_mono: "placed types windowsize m refs lo hi \<Longrightarrow> lo' \<le> lo \<Longrightarrow> hi \<le> hi' \<Longrightarrow> placed types windowsize m refs lo' hi'"
  by (induction refs arbitrary: lo lo') (auto split: option.splits sum.splits)

lemma placed_append:
  "placed types windowsize m refs lo mid \<Longrightarrow> placed types windowsize m refs' mid hi \<Longrightarrow>
     placed types windowsize m (refs @ refs') lo hi"
  by (induction refs arbitrary: lo) (auto split: option.splits sum.splits intro: placed_mono)

lemma placed_cong:
  "placed types windowsize m refs lo hi \<Longrightarrow> \<forall>r \<in> set refs. map_find m' (tr_id r) = map_find m (tr_id r) \<Longrightarrow>
     placed types windowsize m' refs lo hi"
  by (induction refs arbitrary: lo) (auto split: option.splits sum.splits)

lemma fill_placed:
  assumes "fill_offsetmap_loop types windowsize refs offset m = Inr (m', offset')" and "map_ok m"
    and "distinct (map tr_id refs)"
  shows "placed types windowsize m' refs offset offset'"
  using assms
proof (induction refs arbitrary: offset m)
  case (Cons ref refs)
  from Cons.prems(1) obtain n where n: "ref_bytes types windowsize ref = Inr n"
    and rest: "fill_offsetmap_loop types windowsize refs (offset + n) (map_put (tr_id ref) offset m) = Inr (m', offset')"
    unfolding fill_offsetmap_step by (auto simp: res_simps)
  have "map_find m' (tr_id ref) = Some offset"
    using fill_offsetmap_loop_offsets [OF rest] Cons.prems(2,3) by (auto simp: map_find_put)
  with Cons.IH [OF rest] Cons.prems(2,3) n show ?case by simp
qed simp

lemma fill_offsetmap_placed:
  assumes "fill_offsetmap types g m windowsize offset = Inr (m', n)" and "map_ok m"
  shows "map_ok m' \<and> (\<forall>k. k \<notin> tr_id ` set (gd_children g) \<longrightarrow> map_find m' k = map_find m k)
    \<and> (distinct (map tr_id (gd_children g)) \<longrightarrow> placed types windowsize m' (gd_children g) offset (offset + n))"
proof -
  from assms(1) have "fill_offsetmap_loop types windowsize (gd_children g) offset m = Inr (m', offset + n)"
    by (auto simp: fill_offsetmap_def res_simps)
  from fill_offsetmap_loop_offsets [OF this assms(2)] fill_placed [OF this assms(2)] show ?thesis
    by auto
qed

text \<open>The traces of the layout, in order: a trace whose type is that of the sweep is left out.\<close>

definition chunk_refs :: "indexedcontainer option \<Rightarrow> chunk \<Rightarrow> datatyperef list" where
  "chunk_refs types ch =
     (case ch of
        DataTypeRefChunk ref \<Rightarrow>
          (case rbind (DataTypeRef_get_datatype types ref) (\<lambda>td. PropertyBlock_find (td_properties td) ''key'') of
             Inr key \<Rightarrow> if tostring_is_sweep key then [] else [ref]
           | Inl e \<Rightarrow> [])
      | GroupDefChunk g \<Rightarrow> gd_children g
      | _ \<Rightarrow> [])"

definition layout_refs :: "indexedcontainer option \<Rightarrow> chunk list \<Rightarrow> datatyperef list" where
  "layout_refs types children = concat (map (chunk_refs types) children)"

lemma simple_child_placed:
  assumes "simple_child types ch offset m = Inr (Some (m', n))" and "map_ok m"
  shows "map_ok m' \<and> (\<forall>k. k \<notin> tr_id ` set (chunk_refs types ch) \<longrightarrow> map_find m' k = map_find m k)
    \<and> (distinct (map tr_id (chunk_refs types ch)) \<longrightarrow>
         placed types 0 m' (chunk_refs types ch) offset (offset + (8 + n)))"
proof (cases ch)
  case (DataTypeRefChunk ref)
  with assms obtain td where td: "DataTypeRef_get_datatype types ref = Inr td"
    "m' = map_put (tr_id ref) (offset + 8) m" "n = td_datasize td" and "chunk_refs types ch = [ref]"
    by (auto simp: simple_child_def chunk_refs_def res_simps split: if_splits)
  with assms(2) show ?thesis
    by (simp add: map_find_put ref_bytes_def DataTypeRef_datasize_def)
next
  case (GroupDefChunk g)
  with assms(1) have "fill_offsetmap types g m 0 (offset + 8) = Inr (m', n)"
    by (auto simp: simple_child_def res_simps)
  from fill_offsetmap_placed [OF this assms(2)] GroupDefChunk show ?thesis
    by (auto simp: chunk_refs_def elim: placed_mono)
qed (use assms in \<open>simp_all add: simple_child_def\<close>)

lemma simple_child_skip: "simple_child types ch offset m = Inr None \<Longrightarrow> chunk_refs types ch = []"
  by (cases ch) (auto simp: simple_child_def chunk_refs_def res_simps split: if_splits)

lemma simple_layout_placed:
  assumes "simple_layout types children offset valuesize m = Inr (m', valuesize')" and "map_ok m"
    and "distinct (map tr_id (layout_refs types children))"
  shows "(\<forall>k. k \<notin> tr_id ` set (layout_refs types children) \<longrightarrow> map_find m' k = map_find m k)
    \<and> placed types 0 m' (layout_refs types children) offset (offset + (valuesize' - valuesize))"
  using assms
proof (induction children arbitrary: offset valuesize m)
  case Nil
  then show ?case by (simp add: layout_refs_def)
next
  case (Cons ch children)
  have refs: "layout_refs types (ch # children) = chunk_refs types ch @ layout_refs types children"
    by (simp add: layout_refs_def)
  from Cons.prems(1) obtain child where child: "simple_child types ch offset m = Inr child"
    by (auto simp: res_simps)
  show ?case
  proof (cases child)
    case None
    with Cons child simple_child_skip [of types ch offset m] show ?thesis
      by (simp add: refs)
  next
    case (Some r)
    obtain m1 n where r: "r = (m1, n)" by (cases r)
    with Cons.prems(1) child Some have
      rest: "simple_layout types children (offset + (8 + n)) (valuesize + (8 + n)) m1 = Inr (m', valuesize')"
      by (auto simp: res_simps)
    note head = simple_child_placed [OF child [unfolded Some r] Cons.prems(2)]
    note tail = Cons.IH [OF rest]
    have dist: "distinct (map tr_id (chunk_refs types ch))" "distinct (map tr_id (layout_refs types children))"
      "\<forall>r \<in> set (chunk_refs types ch). tr_id r \<notin> tr_id ` set (layout_refs types children)"
      using Cons.prems(3) by (auto simp: refs)
    then have "placed types 0 m' (chunk_refs types ch) offset (offset + (8 + n))"
      using head tail by (intro placed_cong [where m = m1 and m' = m']) simp_all
    moreover have "placed types 0 m' (layout_refs types children) (offset + (8 + n))
        (offset + (valuesize' - valuesize))"
      using head tail dist(2) by (auto simp: algebra_simps)
    ultimately have "placed types 0 m' (layout_refs types (ch # children)) offset
        (offset + (valuesize' - valuesize))"
      unfolding refs by (rule placed_append)
    then show ?thesis
      using head tail dist(2) by (auto simp: refs image_Un)
  qed
qed

lemma windowed_layout_placed:
  assumes "windowed_layout types windowsize children offset valuesize m = Inr (m', valuesize')" and "map_ok m"
    and "distinct (map tr_id (concat (map gd_children (groups children))))"
  shows "(\<forall>k. k \<notin> tr_id ` set (concat (map gd_children (groups children))) \<longrightarrow> map_find m' k = map_find m k)
    \<and> placed types windowsize m' (concat (map gd_children (groups children))) offset
        (offset + (valuesize' - valuesize))"
  using assms
proof (induction children arbitrary: offset valuesize m)
  case Nil
  then show ?case by simp
next
  case (Cons ch children)
  from Cons.prems(1) obtain g m1 n where g: "ch = GroupDefChunk g"
    and head: "fill_offsetmap types g m windowsize offset = Inr (m1, n)"
    and rest: "windowed_layout types windowsize children (offset + n) (valuesize + n) m1 = Inr (m', valuesize')"
    by (cases ch) (auto simp: res_simps windowed_child_def)
  let ?refs = "concat (map gd_children (groups children))"
  note head = fill_offsetmap_placed [OF head Cons.prems(2)]
  note tail = Cons.IH [OF rest]
  have dist: "distinct (map tr_id (gd_children g))" "distinct (map tr_id ?refs)"
    "\<forall>r \<in> set (gd_children g). tr_id r \<notin> tr_id ` set ?refs"
    using Cons.prems(3) by (auto simp: g)
  then have "placed types windowsize m' (gd_children g) offset (offset + n)"
    using head tail by (intro placed_cong [where m = m1 and m' = m']) simp_all
  moreover have "placed types windowsize m' ?refs (offset + n) (offset + (valuesize' - valuesize))"
    using head tail dist(2) by (auto simp: algebra_simps)
  ultimately have "placed types windowsize m' (gd_children g @ ?refs) offset (offset + (valuesize' - valuesize))"
    by (rule placed_append)
  then show ?case
    using head tail dist(2) by (auto simp: g image_Un)
qed

end
