(* ===== verification/PsfFile.thy ===== *)
theory PsfFile
  imports SweepValues
begin

section \<open>The file (src/psffile.cc)\<close>

text \<open>
  \<open>PSFFile::deserialize\<close> reads the table of contents at the end of the file, then the header,
  the types, the sweeps, the traces and the values, each from the offset of its section. Each
  section needs the earlier ones. The sections that a file does not have keep the pointers they
  had. Around it stand \<open>open\<close>, \<open>validate\<close> and \<open>close\<close>, which map the file and release it, and
  the functions that the data set calls.
\<close>

subsection \<open>The table of contents\<close>

text \<open>The size is written later than the rest, or never: \<open>None\<close> is indeterminate.\<close>

record Section =
  sec_n :: "32 word"
  sec_offset :: "32 word"
  sec_size :: "int option"

type_synonym sections = "(int, Section) stdmap"

text \<open>\<open>sections[k].size = n\<close>, where \<open>sections[k]\<close> is made of zeros if it is missing.\<close>

definition zero_section :: Section where
  "zero_section = \<lparr>sec_n = 0, sec_offset = 0, sec_size = Some 0\<rparr>"

definition section_at :: "sections \<Rightarrow> int \<Rightarrow> Section" where
  "section_at sections k = (case map_find sections k of None \<Rightarrow> zero_section | Some s \<Rightarrow> s)"

definition set_section_size :: "int \<Rightarrow> int \<Rightarrow> sections \<Rightarrow> sections" where
  "set_section_size k n sections = map_put k ((section_at sections k)\<lparr>sec_size := Some n\<rparr>) sections"

text \<open>
  One entry after the other; the last one read is the state that the loop hands on, and it gives
  \<open>lastoffset\<close> and \<open>lastsectionnum\<close> of the next turn.
\<close>

fun toc_loop :: "image \<Rightarrow> int \<Rightarrow> nat \<Rightarrow> sections \<Rightarrow> Section option \<Rightarrow> (sections \<times> Section option) res" where
  "toc_loop img toc 0 sections section = Inr (sections, section)"
| "toc_loop img toc (Suc k) sections section =
     rbind (GET_INT32 img toc) (\<lambda>n.
     rbind (GET_INT32 img (toc + 4)) (\<lambda>offset.
     let sections = (case section of
           None \<Rightarrow> sections
         | Some prev \<Rightarrow> set_section_size (sint (sec_n prev)) (sint (offset - sec_offset prev)) sections);
         section = \<lparr>sec_n = n, sec_offset = offset, sec_size = None\<rparr>
     in toc_loop img (toc + 8) k (map_put (sint n) section sections) (Some section)))"

text \<open>The number of entries is computed without sign.\<close>

definition toc_nsections :: "int \<Rightarrow> 32 word \<Rightarrow> nat" where
  "toc_nsections nbytes datasize = unat ((word_of_int nbytes - datasize - 12) div 8)"

definition read_toc :: "image \<Rightarrow> int \<Rightarrow> sections res" where
  "read_toc img nbytes =
     rbind (GET_INT32 img (nbytes - 4)) (\<lambda>datasize.
     let nsections = toc_nsections nbytes datasize;
         toc = nbytes - 12 - int nsections * 8
     in rbind (toc_loop img toc nsections [] None) (\<lambda>(sections, section).
     case section of
       None \<Rightarrow> Inl (Undefined Uninitialised)
     | Some section \<Rightarrow> Inr (set_section_size (sint (sec_n section))
         (sint (word_of_int nbytes - sec_offset section)) sections)))"

subsection \<open>The sections\<close>

definition SECTION_HEADER :: int where "SECTION_HEADER = 0"
definition SECTION_TYPE :: int where "SECTION_TYPE = 1"
definition SECTION_SWEEP :: int where "SECTION_SWEEP = 2"
definition SECTION_TRACE :: int where "SECTION_TRACE = 3"
definition SECTION_VALUE :: int where "SECTION_VALUE = 4"

lemmas section_number_defs = SECTION_HEADER_def SECTION_TYPE_def SECTION_SWEEP_def SECTION_TRACE_def
  SECTION_VALUE_def

definition has_section :: "sections \<Rightarrow> int \<Rightarrow> bool" where
  "has_section sections k \<longleftrightarrow> map_find sections k \<noteq> None"

text \<open>
  \<open>section->deserialize(buf + offset, offset)\<close>: the pointer moves by the unsigned offset, the
  \<open>int\<close> argument is the signed one.
\<close>

definition at_section :: "(image \<Rightarrow> int \<Rightarrow> int \<Rightarrow> ('a \<times> int) res) \<Rightarrow> image \<Rightarrow> sections \<Rightarrow> int \<Rightarrow> 'a res" where
  "at_section deserialize img sections k =
     (let offset = sec_offset (section_at sections k) in
      rbind (deserialize img (uint offset) (sint offset)) (\<lambda>(x, n). Inr x))"

definition read_types :: "image \<Rightarrow> sections \<Rightarrow> psffile \<Rightarrow> psffile res" where
  "read_types img sections psf =
     (if has_section sections SECTION_TYPE
      then rbind (at_section TypeSection_deserialize img sections SECTION_TYPE) (\<lambda>x.
           Inr (psf\<lparr>m_types := Some x\<rparr>))
      else Inr psf)"

definition read_sweeps :: "image \<Rightarrow> sections \<Rightarrow> psffile \<Rightarrow> psffile res" where
  "read_sweeps img sections psf =
     (if has_section sections SECTION_SWEEP
      then rbind (at_section (SweepSection_deserialize (m_types psf)) img sections SECTION_SWEEP) (\<lambda>x.
           Inr (psf\<lparr>m_sweeps := Some x\<rparr>))
      else Inr psf)"

definition read_traces :: "image \<Rightarrow> sections \<Rightarrow> psffile \<Rightarrow> psffile res" where
  "read_traces img sections psf =
     (if has_section sections SECTION_TRACE
      then rbind (at_section (TraceSection_deserialize (m_types psf)) img sections SECTION_TRACE) (\<lambda>x.
           Inr (psf\<lparr>m_traces := Some x\<rparr>))
      else Inr psf)"

definition read_values :: "image \<Rightarrow> sections \<Rightarrow> psffile \<Rightarrow> psffile res" where
  "read_values img sections psf =
     (if has_section sections SECTION_VALUE
      then if m_sweeps psf \<noteq> None
        then rbind (at_section (ValueSectionSweep_deserialize psf) img sections SECTION_VALUE) (\<lambda>x.
             Inr (psf\<lparr>m_sweepvalues := Some x\<rparr>))
        else rbind (at_section (ValueSectionNonSweep_deserialize (m_types psf)) img sections SECTION_VALUE) (\<lambda>x.
             Inr (psf\<lparr>m_nonsweepvalues := Some x\<rparr>))
      else Inr psf)"

definition PSFFile_deserialize :: "psffile \<Rightarrow> image \<Rightarrow> int \<Rightarrow> psffile res" where
  "PSFFile_deserialize psf img nbytes =
     rbind (read_toc img nbytes) (\<lambda>sections.
     rbind (at_section HeaderSection_deserialize img sections SECTION_HEADER) (\<lambda>header.
     rbind (read_types img sections (psf\<lparr>m_header := Some header\<rparr>)) (\<lambda>psf.
     rbind (read_sweeps img sections psf) (\<lambda>psf.
     rbind (read_traces img sections psf) (\<lambda>psf.
     read_values img sections psf)))))"

text \<open>\<open>PSFFile::PSFFile\<close>.\<close>

definition new_psffile :: psffile where
  "new_psffile = \<lparr>m_header = None, m_types = None, m_sweeps = None, m_traces = None,
     m_sweepvalues = None, m_nonsweepvalues = None\<rparr>"

subsection \<open>Access to the values\<close>

definition PSFFile_get_param_names :: "psffile \<Rightarrow> string list" where
  "PSFFile_get_param_names psf =
     (case m_sweeps psf of Some sweeps \<Rightarrow> Container_get_names sweeps | None \<Rightarrow> [])"

text \<open>A vector, or \<open>NULL\<close> where there are no swept values.\<close>

definition PSFFile_get_param_values :: "psffile \<Rightarrow> image \<Rightarrow> (psfvector option) res option" where
  "PSFFile_get_param_values psf img =
     (case m_sweepvalues psf of
        Some vss \<Rightarrow> map_option (\<lambda>r. rbind r (\<lambda>v. Inr (Some v))) (ValueSectionSweep_get_param_values psf img vss)
      | None \<Rightarrow> Some (Inr None))"

definition PSFFile_get_values :: "psffile \<Rightarrow> image \<Rightarrow> string \<Rightarrow> (psfvector option) res option" where
  "PSFFile_get_values psf img name =
     (case m_sweepvalues psf of
        Some vss \<Rightarrow> map_option (\<lambda>r. rbind r (\<lambda>v. Inr (Some v))) (ValueSectionSweep_get_values psf img vss name)
      | None \<Rightarrow> Some (Inr None))"

definition get_nonsweepvalue :: "indexedcontainer \<Rightarrow> string \<Rightarrow> nonsweepvalue res" where
  "get_nonsweepvalue values name = rbind (IndexedContainer_get_child_by_name values name) cast_NonSweepValue"

definition ValueSectionNonSweep_get_value :: "indexedcontainer \<Rightarrow> string \<Rightarrow> scalar res" where
  "ValueSectionNonSweep_get_value values name = rbind (get_nonsweepvalue values name) (\<lambda>v. Inr (nv_value v))"

definition ValueSectionNonSweep_get_value_properties :: "indexedcontainer \<Rightarrow> string \<Rightarrow> propertyblock res" where
  "ValueSectionNonSweep_get_value_properties values name =
     rbind (get_nonsweepvalue values name) (\<lambda>v. Inr (nv_propblock v))"

definition PSFFile_get_value_properties :: "psffile \<Rightarrow> string \<Rightarrow> propertyblock res" where
  "PSFFile_get_value_properties psf name =
     rbind (deref (m_nonsweepvalues psf)) (\<lambda>values. ValueSectionNonSweep_get_value_properties values name)"

definition PSFFile_get_value :: "psffile \<Rightarrow> string \<Rightarrow> scalar res" where
  "PSFFile_get_value psf name =
     (case m_nonsweepvalues psf of
        Some values \<Rightarrow> ValueSectionNonSweep_get_value values name
      | None \<Rightarrow> Inl (Undefined NoReturn))"

definition PSFFile_get_names :: "psffile \<Rightarrow> (string list) res" where
  "PSFFile_get_names psf =
     (case m_traces psf of
        Some traces \<Rightarrow> Inr (TraceSection_get_names traces)
      | None \<Rightarrow> (case m_nonsweepvalues psf of
          Some values \<Rightarrow> Inr (Container_get_names (ic_children values))
        | None \<Rightarrow> Inl (Undefined NoReturn)))"

subsection \<open>Opening a file\<close>

text \<open>
  \<open>validate\<close> reads eight bytes at twelve before the end. In a shorter file the seek fails and
  \<open>clarissa\<close> is compared without having been written.
\<close>

definition PSFFile_validate :: "image \<Rightarrow> bool res" where
  "PSFFile_validate file =
     (if length file < 12 then Inl (Undefined Uninitialised)
      else Inr (take 8 (drop (length file - 12) file) = bytes_of_string ''Clarissa''))"

text \<open>
  \<open>disk\<close> is what the operating system has under the name, \<open>None\<close> where \<open>::open\<close> fails. The size
  is cut to an \<open>int\<close>, and \<open>mmap\<close> maps that many bytes; a size that is not positive maps none.
  The result is the sections and the mapped image.
\<close>

definition mapped_size :: "image \<Rightarrow> int" where
  "mapped_size file = sint (word_of_nat (length file) :: 32 word)"

definition mapped :: "image \<Rightarrow> image" where
  "mapped file = take (nat (mapped_size file)) file"

definition PSFFile_open :: "image option \<Rightarrow> psffile \<Rightarrow> (psffile \<times> image) res" where
  "PSFFile_open disk psf =
     (case disk of
        None \<Rightarrow> Inl (Throw FileOpenError)
      | Some file \<Rightarrow>
          rbind (PSFFile_validate file) (\<lambda>valid.
          if valid
          then rbind (PSFFile_deserialize psf (mapped file) (mapped_size file)) (\<lambda>psf.
               Inr (psf, mapped file))
          else Inl (Throw InvalidFileError)))"

lemma mapped_small: "small_image file \<Longrightarrow> mapped file = file \<and> mapped_size file = int (length file)"
proof -
  assume "small_image file"
  then have "int_range (int (length file))"
    by (simp add: small_image_def int_range_def)
  then have "mapped_size file = int (length file)"
    using sint_of_nat_range by (simp add: mapped_size_def)
  then show ?thesis by (simp add: mapped_def)
qed

subsection \<open>The table of contents, read back\<close>

definition enc_toc :: "(32 word \<times> 32 word) list \<Rightarrow> 8 word list" where
  "enc_toc entries = concat (map (\<lambda>(n, offset). enc32 n @ enc32 offset) entries)"

lemma length_enc_toc [simp]: "length (enc_toc entries) = 8 * length entries"
  by (induction entries) (auto simp: enc_toc_def)

definition toc_offset :: "sections \<Rightarrow> int \<Rightarrow> 32 word option" where
  "toc_offset sections k = map_option sec_offset (map_find sections k)"

lemma toc_offset_put: "toc_offset (map_put k s m) k' = (if k' = k then Some (sec_offset s) else toc_offset m k')"
  by (simp add: toc_offset_def map_find_put)

lemma toc_offset_set_size:
  "toc_offset m k \<noteq> None \<Longrightarrow> toc_offset (set_section_size k n m) k' = toc_offset m k'"
  by (auto simp: toc_offset_def set_section_size_def section_at_def map_find_put)

lemma toc_loop_enc:
  assumes "seg img toc (enc_toc entries)"
    and "\<forall>s. cur = Some s \<longrightarrow> toc_offset sections (sint (sec_n s)) \<noteq> None"
  shows "\<exists>sections' cur'. toc_loop img toc (length entries) sections cur = Inr (sections', cur')
    \<and> (\<forall>s. cur' = Some s \<longrightarrow> toc_offset sections' (sint (sec_n s)) \<noteq> None)
    \<and> (cur' = None \<longleftrightarrow> entries = [] \<and> cur = None)
    \<and> (\<forall>k. toc_offset sections' k = (case map_of (rev (map (\<lambda>(n, offset). (sint n, offset)) entries)) k of
         Some offset \<Rightarrow> Some offset | None \<Rightarrow> toc_offset sections k))"
  using assms
proof (induction entries arbitrary: toc sections cur)
  case Nil
  then show ?case by auto
next
  case (Cons e entries)
  obtain n offset where e: "e = (n, offset)" by (cases e)
  define s where "s = \<lparr>sec_n = n, sec_offset = offset, sec_size = None\<rparr>"
  define secs where "secs = (case cur of
        None \<Rightarrow> sections
      | Some prev \<Rightarrow> set_section_size (sint (sec_n prev)) (sint (offset - sec_offset prev)) sections)"
  have same: "toc_offset secs k = toc_offset sections k" for k
    using Cons.prems(2) by (cases cur) (auto simp: secs_def toc_offset_set_size)
  from Cons.prems(1) have at: "GET_INT32 img toc = Inr n" "GET_INT32 img (toc + 4) = Inr offset"
    and rest: "seg img (toc + 8) (enc_toc entries)"
    by (simp_all add: enc_toc_def e seg_simps decodes add.commute)
  then have step: "toc_loop img toc (length (e # entries)) sections cur
      = toc_loop img (toc + 8) (length entries) (map_put (sint n) s secs) (Some s)"
    by (simp add: s_def secs_def Let_def)
  have "\<forall>s'. Some s = Some s' \<longrightarrow> toc_offset (map_put (sint n) s secs) (sint (sec_n s')) \<noteq> None"
    by (simp add: s_def toc_offset_put)
  from Cons.IH [OF rest this] obtain sections' cur' where
    "toc_loop img (toc + 8) (length entries) (map_put (sint n) s secs) (Some s) = Inr (sections', cur')"
    "\<forall>s. cur' = Some s \<longrightarrow> toc_offset sections' (sint (sec_n s)) \<noteq> None" "cur' \<noteq> None"
    "\<forall>k. toc_offset sections' k = (case map_of (rev (map (\<lambda>(n, offset). (sint n, offset)) entries)) k of
         Some offset \<Rightarrow> Some offset | None \<Rightarrow> toc_offset (map_put (sint n) s secs) k)"
    by auto
  with step same show ?case
    by (auto simp: e s_def toc_offset_put map_add_def split: option.splits)
qed

lemma toc_nsections_eq:
  assumes "nbytes = int b + 8 * int k + 12" and "nbytes < 2 ^ 31"
  shows "toc_nsections nbytes (word_of_nat b) = k"
proof -
  have "word_of_int nbytes - word_of_nat b - 12 = (word_of_nat (8 * k) :: 32 word)"
    using assms(1) by (simp add: of_int_of_nat_eq)
  moreover have "unat (word_of_nat (8 * k) :: 32 word) = 8 * k"
    using assms by (subst unat_of_nat) simp
  ultimately show ?thesis
    by (simp add: toc_nsections_def unat_div)
qed

lemma read_toc_enc:
  assumes img: "img = body @ enc_toc entries @ bytes_of_string ''Clarissa'' @ enc32 (word_of_nat (length body))"
    and "int (length img) < 2 ^ 31" and "entries \<noteq> []"
  shows "\<exists>sections. read_toc img (int (length img)) = Inr sections
    \<and> (\<forall>k. toc_offset sections k = map_of (rev (map (\<lambda>(n, offset). (sint n, offset)) entries)) k)"
proof -
  have len: "int (length img) = int (length body) + 8 * int (length entries) + 12"
    unfolding img by simp
  have "GET_INT32 img (int (length img) - 4) = Inr (word_of_nat (length body))"
    using seg_intro [of "body @ enc_toc entries @ bytes_of_string ''Clarissa''" "enc32 (word_of_nat (length body))" "[]"]
    by (simp add: len img [symmetric] decodes algebra_simps)
  moreover have "seg img (int (length img) - 12 - int (length entries) * 8) (enc_toc entries)"
    using seg_intro [of body "enc_toc entries"] by (simp add: len) (simp add: img)
  moreover note toc_nsections_eq [OF len assms(2)]
  ultimately show ?thesis
    using toc_loop_enc [of img "int (length img) - 12 - int (length entries) * 8" entries None "[]"] assms(3)
    by (auto simp: read_toc_def Let_def toc_offset_set_size) (auto simp: toc_offset_def split: option.splits)
qed

subsection \<open>What an open file holds\<close>

text \<open>The sweep parameters are references; a casted child of another class would be undefined.\<close>

definition sweeps_wf :: "chunk list \<Rightarrow> bool" where
  "sweeps_wf sweeps \<longleftrightarrow> list_all (\<lambda>ch. case ch of DataTypeRefChunk r \<Rightarrow> True | _ \<Rightarrow> False) sweeps"

lemma SweepSection_deserialize_wf:
  assumes "SweepSection_deserialize types img buf abspos = Inr (sweeps, n)"
  shows "sweeps_wf sweeps"
proof -
  obtain e where "child_run SweepSection_child_factory types img (8 + buf) sweeps e"
    using assms by (auto simp: SweepSection_deserialize_def dest!: SimpleContainer_deserialize_Inr)
  then show ?thesis
    unfolding sweeps_wf_def
    by (rule child_run_all) (auto simp: child_factory_defs res_simps split: if_splits)
qed

text \<open>The state between two sections: every section that is there is well-formed.\<close>

definition psf_sections_wf :: "psffile \<Rightarrow> bool" where
  "psf_sections_wf psf \<longleftrightarrow>
     (\<forall>pb. m_header psf = Some pb \<longrightarrow> block_wf pb) \<and>
     (\<forall>types. m_types psf = Some types \<longrightarrow> types_wf types) \<and>
     (\<forall>sweeps. m_sweeps psf = Some sweeps \<longrightarrow> sweeps_wf sweeps) \<and>
     (\<forall>traces. m_traces psf = Some traces \<longrightarrow> traces_wf traces)"

text \<open>The values, of which a file has one kind: swept values come with traces and a sweep.\<close>

definition psf_wf :: "psffile \<Rightarrow> bool" where
  "psf_wf psf \<longleftrightarrow> psf_sections_wf psf \<and> m_header psf \<noteq> None \<and>
     (m_sweepvalues psf \<noteq> None \<longrightarrow> m_sweeps psf \<noteq> None \<and> m_traces psf \<noteq> None \<and> m_nonsweepvalues psf = None) \<and>
     (\<forall>vals. m_nonsweepvalues psf = Some vals \<longrightarrow> m_sweeps psf = None \<and>
        (\<forall>types. m_types psf = Some types \<longrightarrow> values_wf types vals))"

lemma at_section_Inr:
  "at_section deserialize img sections k = Inr x \<Longrightarrow> \<exists>buf abspos n. deserialize img buf abspos = Inr (x, n)"
  by (auto simp: at_section_def Let_def res_simps)

lemma at_sectionE:
  assumes "at_section deserialize img sections k = Inr x"
  obtains buf abspos n where "deserialize img buf abspos = Inr (x, n)"
  using at_section_Inr [OF assms] by blast

lemma read_types_wf:
  assumes "read_types img sections psf = Inr psf'" and "psf_sections_wf psf"
  shows "psf_sections_wf psf' \<and> m_header psf' = m_header psf \<and> m_sweeps psf' = m_sweeps psf
    \<and> m_sweepvalues psf' = m_sweepvalues psf \<and> m_nonsweepvalues psf' = m_nonsweepvalues psf"
  using assms
  by (auto simp: read_types_def psf_sections_wf_def res_simps split: if_splits
      elim!: at_sectionE dest: TypeSection_deserialize_wf)

lemma read_sweeps_wf:
  assumes "read_sweeps img sections psf = Inr psf'" and "psf_sections_wf psf"
  shows "psf_sections_wf psf' \<and> m_header psf' = m_header psf \<and> m_types psf' = m_types psf
    \<and> m_sweepvalues psf' = m_sweepvalues psf \<and> m_nonsweepvalues psf' = m_nonsweepvalues psf"
  using assms
  by (auto simp: read_sweeps_def psf_sections_wf_def res_simps split: if_splits
      elim!: at_sectionE dest: SweepSection_deserialize_wf)

lemma read_traces_wf:
  assumes "read_traces img sections psf = Inr psf'" and "psf_sections_wf psf"
  shows "psf_sections_wf psf' \<and> m_header psf' = m_header psf \<and> m_types psf' = m_types psf
    \<and> m_sweeps psf' = m_sweeps psf
    \<and> m_sweepvalues psf' = m_sweepvalues psf \<and> m_nonsweepvalues psf' = m_nonsweepvalues psf"
  using assms
  by (auto simp: read_traces_def psf_sections_wf_def res_simps split: if_splits
      elim!: at_sectionE dest: TraceSection_deserialize_wf)

text \<open>A sweep is only read with the traces at hand.\<close>

lemma ValueSectionSweep_deserialize_traces:
  "ValueSectionSweep_deserialize psf img buf abspos = Inr (vss, n) \<Longrightarrow> m_traces psf \<noteq> None"
  by (auto simp: ValueSectionSweep_deserialize_def Let_def res_simps create_valueoffsetmap_def
      get_trace_section_def deref_def split: if_splits option.splits)

text \<open>Values outside a sweep are only read with the types at hand, unless there are none.\<close>

lemma read_values_wf:
  assumes "read_values img sections psf = Inr psf'" and "psf_sections_wf psf" and "m_header psf \<noteq> None"
    and "m_sweepvalues psf = None" and "m_nonsweepvalues psf = None"
  shows "psf_wf psf'"
proof (cases "has_section sections SECTION_VALUE")
  case True
  show ?thesis
  proof (cases "m_sweeps psf")
    case None
    with assms(1) True obtain vals where psf': "psf' = psf\<lparr>m_nonsweepvalues := Some vals\<rparr>"
      and "at_section (ValueSectionNonSweep_deserialize (m_types psf)) img sections SECTION_VALUE = Inr vals"
      by (auto simp: read_values_def res_simps)
    then obtain buf abspos n where
      "ValueSectionNonSweep_deserialize (m_types psf) img buf abspos = Inr (vals, n)"
      by (elim at_sectionE)
    then have "values_wf types vals" if "m_types psf = Some types" for types
      using ValueSectionNonSweep_deserialize_wf [of types img buf abspos vals n] assms(2) that
      by (simp add: psf_sections_wf_def)
    with None assms(2-5) show ?thesis
      by (simp add: psf' psf_wf_def psf_sections_wf_def)
  next
    case (Some sweeps)
    with assms(1) True obtain vss where psf': "psf' = psf\<lparr>m_sweepvalues := Some vss\<rparr>"
      and "at_section (ValueSectionSweep_deserialize psf) img sections SECTION_VALUE = Inr vss"
      by (auto simp: read_values_def res_simps)
    then have "m_traces psf \<noteq> None"
      using ValueSectionSweep_deserialize_traces by (elim at_sectionE) blast
    with Some assms(2-5) show ?thesis
      by (auto simp: psf' psf_wf_def psf_sections_wf_def)
  qed
next
  case False
  with assms show ?thesis
    by (auto simp: read_values_def psf_wf_def)
qed

lemma PSFFile_deserialize_wf:
  assumes "PSFFile_deserialize new_psffile img nbytes = Inr psf"
  shows "psf_wf psf"
proof -
  from assms obtain sections header psf1 psf2 psf3 where
    header: "at_section HeaderSection_deserialize img sections SECTION_HEADER = Inr header"
    and types: "read_types img sections (new_psffile\<lparr>m_header := Some header\<rparr>) = Inr psf1"
    and sweeps: "read_sweeps img sections psf1 = Inr psf2"
    and traces: "read_traces img sections psf2 = Inr psf3"
    and nonsweep: "read_values img sections psf3 = Inr psf"
    by (auto simp: PSFFile_deserialize_def res_simps)
  have "block_wf header"
    using header HeaderSection_deserialize_wf by (elim at_sectionE) blast
  then have "psf_sections_wf (new_psffile\<lparr>m_header := Some header\<rparr>)"
    by (simp add: psf_sections_wf_def new_psffile_def)
  note wf1 = read_types_wf [OF types this]
  note wf2 = read_sweeps_wf [OF sweeps wf1 [THEN conjunct1]]
  note wf3 = read_traces_wf [OF traces wf2 [THEN conjunct1]]
  show ?thesis
    using wf1 wf2 wf3 by (intro read_values_wf [OF nonsweep]) (auto simp: new_psffile_def)
qed

text \<open>The names that the values outside a sweep list are those that are found, with their types.\<close>

lemma PSFFile_get_value_found:
  assumes "psf_wf psf" and "m_nonsweepvalues psf = Some vals" and "m_types psf = Some types"
    and "name \<in> set (Container_get_names (ic_children vals))"
  shows "\<exists>(v :: nonsweepvalue) td. PSFFile_get_value psf name = Inr (nv_value v) \<and> nv_name v = name
    \<and> PSFFile_get_value_properties psf name = Inr (nv_propblock v)
    \<and> get_typedef (Some types) (nv_valuetypeid v) = Inr td \<and> scalar_full td (nv_value v)"
proof -
  have wf: "values_wf types vals"
    using assms(1-3) by (simp add: psf_wf_def)
  then obtain i ch where ch: "IndexedContainer_get_child_by_name vals name = Inr ch" "get_name ch = name"
      "0 \<le> i" "i < int (length (ic_children vals))" "ch = ic_children vals ! nat i"
    using get_child_by_name_found [of vals name] assms(4)
    by (auto simp: values_wf_def Container_get_names_def)
  then have "ch \<in> set (ic_children vals)"
    by (simp add: nat_less_iff)
  then have "case ch of NonSweepValueChunk v \<Rightarrow> (case get_typedef (Some types) (nv_valuetypeid v) of
      Inr td \<Rightarrow> scalar_full td (nv_value v) | Inl e \<Rightarrow> False) | _ \<Rightarrow> False"
    using wf by (auto simp: values_wf_def list_all_iff)
  then obtain v td where "ch = NonSweepValueChunk v" "get_typedef (Some types) (nv_valuetypeid v) = Inr td"
      "scalar_full td (nv_value v)"
    by (auto split: chunk.splits sum.splits)
  with ch(1,2) assms(2) show ?thesis
    by (intro exI [of _ v] exI [of _ td])
      (simp add: PSFFile_get_value_def PSFFile_get_value_properties_def deref_def get_nonsweepvalue_def
        ValueSectionNonSweep_get_value_def ValueSectionNonSweep_get_value_properties_def cast_NonSweepValue_def)
qed

lemma PSFFile_get_value_missing:
  assumes "psf_wf psf" and "m_nonsweepvalues psf = Some vals" and "m_types psf = Some types"
    and "name \<notin> set (Container_get_names (ic_children vals))"
  shows "PSFFile_get_value psf name = Inl (Throw NotFound)"
proof -
  have "container_wf vals"
    using assms(1-3) by (simp add: psf_wf_def values_wf_def)
  with assms(2,4) show ?thesis
    by (simp add: PSFFile_get_value_def ValueSectionNonSweep_get_value_def get_nonsweepvalue_def
        get_child_by_name_missing Container_get_names_def)
qed

subsection \<open>How opening a file can fail\<close>

text \<open>
  What opening a file can end with, beside a malformed section: a missing property, a number of
  the header or a size that does not fit, a file too short. No cast fails, no position is outside
  of a vector, and no object is taken for one of another class.
\<close>

definition open_failures :: "error set" where
  "open_failures = section_errors \<union> {Throw InvalidFileError, Throw PropertyNotFound, Throw NotImplemented,
     Undefined Uninitialised, Undefined SignedOverflow, Undefined BadConversion}"

lemma open_failures_section: "fails_in section_errors r \<Longrightarrow> fails_in open_failures r"
  by (auto simp: open_failures_def intro: fails_in_mono)

lemma open_failures_format: "fails_in format_errors r \<Longrightarrow> fails_in open_failures r"
  by (intro open_failures_section section_errors_format)

lemma open_failuresI [simp]:
  "Throw InvalidFileError \<in> open_failures" "Throw PropertyNotFound \<in> open_failures"
  "Throw NotImplemented \<in> open_failures" "Undefined Uninitialised \<in> open_failures"
  "Undefined SignedOverflow \<in> open_failures" "Undefined BadConversion \<in> open_failures"
  "Undefined NullPointer \<in> open_failures" "Throw (IncorrectChunk t) \<in> open_failures"
  by (simp_all add: open_failures_def section_errors_def)

lemma fails_c_int: "fails_in open_failures (c_int x)"
  by (simp add: c_int_def)

lemma fails_deref: "fails_in open_failures (deref p)"
  by (simp add: deref_def split: option.split)

lemma fails_scalar_to_int: "fails_in open_failures (scalar_to_int v)"
  by (cases v rule: scalar_to_int.cases) (simp_all add: double_to_int_def atoi_def Let_def)

lemma fails_find: "fails_in open_failures (PropertyBlock_find pb key)"
  by (simp add: PropertyBlock_find_def split: option.split)

lemma fails_header_int: "fails_in open_failures (header_int psf key)"
  unfolding header_int_def get_header_properties_def
  by (intro fails_in_rbind fails_deref fails_find fails_scalar_to_int)

lemma fails_get_datatype:
  assumes "\<forall>ts. types = Some ts \<longrightarrow> types_wf ts"
  shows "fails_in open_failures (DataTypeRef_get_datatype types ref)"
  unfolding DataTypeRef_get_datatype_def by (rule open_failures_section) (rule fails_get_typedef [OF assms])

lemma fails_fill_offsetmap:
  assumes "\<forall>ts. types = Some ts \<longrightarrow> types_wf ts"
  shows "fails_in open_failures (fill_offsetmap types g m windowsize offset)"
proof -
  have "fails_in open_failures (fill_offsetmap_loop types windowsize refs offset m)" for refs offset m
    by (induction refs arbitrary: offset m)
      (auto simp: Let_def DataTypeRef_datasize_def intro!: fails_in_rbind fails_in_if fails_c_int
        fails_get_datatype [OF assms])
  then show ?thesis
    unfolding fill_offsetmap_def by (intro fails_in_rbind fails_in_prod fails_c_int fails_in_Inr)
qed

lemma fails_create_valueoffsetmap:
  assumes "\<forall>ts. m_types psf = Some ts \<longrightarrow> types_wf ts"
  shows "fails_in open_failures (create_valueoffsetmap psf windowed)"
proof -
  have "fails_in open_failures (windowed_layout (m_types psf) ws chs offset size m)" for ws chs offset size m
    by (induction chs arbitrary: offset size m)
      (auto simp: windowed_child_def intro!: fails_in_rbind fails_in_prod fails_c_int
        fails_fill_offsetmap [OF assms] split: chunk.split)
  moreover have "fails_in open_failures (simple_layout (m_types psf) chs offset size m)" for chs offset size m
    by (induction chs arbitrary: offset size m)
      (auto simp: simple_child_def intro!: fails_in_rbind fails_in_prod fails_in_option fails_in_if fails_c_int
        fails_get_datatype [OF assms] fails_find fails_fill_offsetmap [OF assms] split: chunk.split option.split)
  ultimately show ?thesis
    unfolding create_valueoffsetmap_def get_trace_section_def
    by (intro fails_in_if fails_in_rbind fails_header_int fails_deref)
qed

lemma fails_ValueSectionSweep:
  assumes "\<forall>ts. m_types psf = Some ts \<longrightarrow> types_wf ts"
  shows "fails_in open_failures (ValueSectionSweep_deserialize psf img buf abspos)"
  unfolding ValueSectionSweep_deserialize_def Let_def get_header_properties_def ZeroPad_deserialize_def
  by (intro fails_in_rbind fails_in_prod fails_in_if fails_in_Inr fails_deref fails_create_valueoffsetmap [OF assms]
      open_failures_format [OF fails_Chunk] open_failures_format [OF fails_GET_INT32])

lemma fails_read_toc: "fails_in open_failures (read_toc img nbytes)"
proof -
  have "fails_in open_failures (toc_loop img toc k sections cur)" for toc k sections cur
    by (induction k arbitrary: toc sections cur)
      (auto simp: Let_def intro!: fails_in_rbind open_failures_format [OF fails_GET_INT32])
  then show ?thesis
    unfolding read_toc_def Let_def
    by (intro fails_in_rbind fails_in_prod fails_in_option fails_in_Inr open_failures_format [OF fails_GET_INT32])
      simp_all
qed

lemma fails_at_section:
  "(\<And>buf abspos. fails_in open_failures (deserialize img buf abspos)) \<Longrightarrow>
     fails_in open_failures (at_section deserialize img sections k)"
  unfolding at_section_def Let_def by (intro fails_in_rbind fails_in_prod fails_in_Inr)

lemma fails_PSFFile_deserialize:
  assumes "small_image img" and "psf_sections_wf psf"
  shows "fails_in open_failures (PSFFile_deserialize psf img nbytes)"
proof -
  have types: "fails_in open_failures (read_types img sections psf1)" for sections psf1
    unfolding read_types_def
    by (intro fails_in_if fails_in_rbind fails_in_Inr fails_at_section open_failures_section fails_sections(1) assms)
  have sweeps: "fails_in open_failures (read_sweeps img sections psf1)" if "psf_sections_wf psf1" for sections psf1
    unfolding read_sweeps_def using that
    by (intro fails_in_if fails_in_rbind fails_in_Inr fails_at_section open_failures_section fails_sections(2) assms)
      (simp add: psf_sections_wf_def)
  have traces: "fails_in open_failures (read_traces img sections psf1)" if "psf_sections_wf psf1" for sections psf1
    unfolding read_traces_def using that
    by (intro fails_in_if fails_in_rbind fails_in_Inr fails_at_section open_failures_section fails_sections(3) assms)
      (simp add: psf_sections_wf_def)
  have vals: "fails_in open_failures (read_values img sections psf1)" if "psf_sections_wf psf1" for sections psf1
    unfolding read_values_def using that
    by (intro fails_in_if fails_in_rbind fails_in_Inr fails_at_section fails_ValueSectionSweep
        open_failures_section [OF fails_sections(4)] assms) (simp_all add: psf_sections_wf_def)
  have header: "psf_sections_wf (psf\<lparr>m_header := Some header\<rparr>)"
    if "at_section HeaderSection_deserialize img sections SECTION_HEADER = Inr header" for sections header
    using that assms(2) HeaderSection_deserialize_wf by (auto simp: psf_sections_wf_def elim!: at_sectionE)
  show ?thesis
    unfolding PSFFile_deserialize_def
    by (intro fails_in_rbind fails_read_toc fails_at_section open_failures_section [OF fails_HeaderSection [OF assms(1)]]
        types sweeps traces vals) (auto dest!: header read_types_wf read_sweeps_wf read_traces_wf)
qed

lemma fails_PSFFile_open:
  assumes "small_image file" and "psf_sections_wf psf"
  shows "fails_in open_failures (PSFFile_open (Some file) psf)"
  using fails_PSFFile_deserialize [OF assms] mapped_small [OF assms(1)]
  by (auto simp: PSFFile_open_def PSFFile_validate_def intro!: fails_in_rbind fails_in_if)

end
