(* ===== verification/DataSet.thy ===== *)
theory DataSet
  imports PsfFile
begin

section \<open>The data set (src/psf.cc)\<close>

text \<open>
  \<open>PSFDataSet\<close> is what clients use: a file that is open or closed, and a flag that asks for
  struct signals as one vector per member. Every access but \<open>open\<close> and \<open>close\<close> first checks
  that the set is open. The states that a client can reach are those of the relation \<open>step\<close>,
  whose invariant says what the accesses rely on. An exception out of \<open>open\<close> ends the
  sequence of steps, as the model does not follow what a half read file leaves behind.
\<close>

subsection \<open>State\<close>

text \<open>\<open>ds_image\<close> is what is mapped; after \<open>munmap\<close> nothing is.\<close>

record dataset =
  ds_psf :: psffile
  ds_image :: image
  ds_invertstruct :: bool
  ds_is_open :: bool

definition PSFDataSet_open :: "image option \<Rightarrow> dataset \<Rightarrow> dataset res" where
  "PSFDataSet_open disk ds =
     (if \<not> ds_is_open ds
      then rbind (PSFFile_open disk (ds_psf ds)) (\<lambda>(psf, img).
           Inr (ds\<lparr>ds_psf := psf, ds_image := img, ds_is_open := True\<rparr>))
      else Inr ds)"

definition PSFDataSet_new :: "image option \<Rightarrow> dataset res" where
  "PSFDataSet_new disk =
     PSFDataSet_open disk
       \<lparr>ds_psf = new_psffile, ds_image = [], ds_invertstruct = False, ds_is_open = False\<rparr>"

text \<open>
  \<open>PSFFile::close\<close> unmaps the file first; \<open>close_ok\<close> says whether \<open>::close\<close> succeeds. Where it
  throws, the data set goes on as open, without the file: the state after is part of the result.
\<close>

definition PSFFile_close :: "bool \<Rightarrow> unit res" where
  "PSFFile_close close_ok = (if close_ok then Inr () else Inl (Throw FileCloseError))"

definition PSFDataSet_close :: "bool \<Rightarrow> dataset \<Rightarrow> dataset \<times> unit res" where
  "PSFDataSet_close close_ok ds =
     (if ds_is_open ds
      then let ds = ds\<lparr>ds_image := []\<rparr> in
        (case PSFFile_close close_ok of
           Inl e \<Rightarrow> (ds, Inl e)
         | Inr u \<Rightarrow> (ds\<lparr>ds_is_open := False\<rparr>, Inr ()))
      else (ds, Inr ()))"

definition verify_open :: "dataset \<Rightarrow> unit res" where
  "verify_open ds = (if ds_is_open ds then Inr () else Inl (Throw DataSetNotOpen))"

subsection \<open>Access\<close>

definition get_signal_names :: "dataset \<Rightarrow> (string list) res" where
  "get_signal_names ds = rbind (verify_open ds) (\<lambda>u. PSFFile_get_names (ds_psf ds))"

definition get_nsweeps :: "dataset \<Rightarrow> int res" where
  "get_nsweeps ds = rbind (verify_open ds) (\<lambda>u. header_int (ds_psf ds) ''PSF sweeps'')"

definition get_sweep_npoints :: "dataset \<Rightarrow> int res" where
  "get_sweep_npoints ds = rbind (verify_open ds) (\<lambda>u. header_int (ds_psf ds) ''PSF sweep points'')"

definition get_sweep_param_names :: "dataset \<Rightarrow> (string list) res" where
  "get_sweep_param_names ds = rbind (verify_open ds) (\<lambda>u. Inr (PSFFile_get_param_names (ds_psf ds)))"

definition is_swept :: "dataset \<Rightarrow> bool res" where
  "is_swept ds =
     rbind (verify_open ds) (\<lambda>u. rbind (header_int (ds_psf ds) ''PSF sweeps'') (\<lambda>nsweeps. Inr (nsweeps > 0)))"

text \<open>What may not return has the type \<open>res option\<close>: a check that fails returns.\<close>

definition guarded :: "unit res \<Rightarrow> 'a res option \<Rightarrow> 'a res option" where
  "guarded check r = (case check of Inl e \<Rightarrow> Some (Inl e) | Inr u \<Rightarrow> r)"

definition get_sweep_values :: "dataset \<Rightarrow> (psfvector option) res option" where
  "get_sweep_values ds = guarded (verify_open ds) (PSFFile_get_param_values (ds_psf ds) (ds_image ds))"

definition get_signal_vector :: "dataset \<Rightarrow> string \<Rightarrow> (psfvector option) res option" where
  "get_signal_vector ds name = guarded (verify_open ds) (PSFFile_get_values (ds_psf ds) (ds_image ds) name)"

definition get_signal_scalar :: "dataset \<Rightarrow> string \<Rightarrow> scalar res" where
  "get_signal_scalar ds name = rbind (verify_open ds) (\<lambda>u. PSFFile_get_value (ds_psf ds) name)"

definition get_signal_properties :: "dataset \<Rightarrow> string \<Rightarrow> ((string, scalar) stdmap) res" where
  "get_signal_properties ds name =
     rbind (verify_open ds) (\<lambda>u. rbind (PSFFile_get_value_properties (ds_psf ds) name) (\<lambda>pb. Inr (m_propmap pb)))"

definition PSFDataSet_get_header_properties :: "dataset \<Rightarrow> ((string, scalar) stdmap) res" where
  "PSFDataSet_get_header_properties ds =
     rbind (verify_open ds) (\<lambda>u. rbind (get_header_properties (ds_psf ds)) (\<lambda>pb. Inr (m_propmap pb)))"

definition set_invertstruct :: "bool \<Rightarrow> dataset \<Rightarrow> dataset res" where
  "set_invertstruct value ds = rbind (verify_open ds) (\<lambda>u. Inr (ds\<lparr>ds_invertstruct := value\<rparr>))"

definition get_invertstruct :: "dataset \<Rightarrow> bool res" where
  "get_invertstruct ds = rbind (verify_open ds) (\<lambda>u. Inr (ds_invertstruct ds))"

text \<open>
  A signal is a scalar, a vector (or \<open>NULL\<close>) or a \<open>VectorStruct\<close>. The members of a
  \<open>VectorStruct\<close> that are structs themselves were assigned with the implicit \<open>operator=\<close> of
  \<open>Struct\<close>, which copies the pointers; \<open>delete vec\<close> then frees what they point to. Such a
  result is marked \<open>dangling\<close>, and holds what the pointers pointed to.
\<close>

datatype signal =
    ScalarSignal scalar
  | VectorSignal "psfvector option"
  | VectorStructSignal (dangling: bool) vectorstruct

definition has_members :: "psfvector \<Rightarrow> bool" where
  "has_members vec \<longleftrightarrow> list_ex (\<lambda>v. case v of StructScalar s \<Rightarrow> struct_map s \<noteq> [] | _ \<Rightarrow> False) (pv_elems vec)"

definition shares_members :: "vectorstruct \<Rightarrow> bool" where
  "shares_members vs \<longleftrightarrow> list_ex (\<lambda>(key, vec). has_members vec) (vs_map vs)"

definition is_struct_vector :: "psfvector option \<Rightarrow> bool" where
  "is_struct_vector vec =
     (case vec of Some v \<Rightarrow> scalar_typeid (pv_init v) = TYPEID_STRUCT | None \<Rightarrow> False)"

definition invert :: "bool \<Rightarrow> psfvector option \<Rightarrow> signal res" where
  "invert invertstruct vec =
     (case vec of
        Some v \<Rightarrow>
          if invertstruct \<and> is_struct_vector vec
          then rbind (VectorStruct_of_structvec v) (\<lambda>vs. Inr (VectorStructSignal (shares_members vs) vs))
          else Inr (VectorSignal vec)
      | None \<Rightarrow> Inr (VectorSignal None))"

definition get_signal :: "dataset \<Rightarrow> string \<Rightarrow> signal res option" where
  "get_signal ds name = guarded (verify_open ds)
     (case is_swept ds of
        Inl e \<Rightarrow> Some (Inl e)
      | Inr swept \<Rightarrow>
          if swept
          then map_option (\<lambda>r. rbind r (invert (ds_invertstruct ds))) (get_signal_vector ds name)
          else Some (rbind (PSFFile_get_value (ds_psf ds) name) (\<lambda>v. Inr (ScalarSignal v))))"

subsection \<open>The states of a data set\<close>

inductive step :: "dataset \<Rightarrow> dataset \<Rightarrow> bool" where
  step_open: "PSFDataSet_open disk ds = Inr ds' \<Longrightarrow> step ds ds'"
| step_close: "PSFDataSet_close close_ok ds = (ds', r) \<Longrightarrow> step ds ds'"
| step_invert: "set_invertstruct value ds = Inr ds' \<Longrightarrow> step ds ds'"

inductive reachable :: "dataset \<Rightarrow> bool" where
  reachable_new: "PSFDataSet_new disk = Inr ds \<Longrightarrow> reachable ds"
| reachable_step: "reachable ds \<Longrightarrow> step ds ds' \<Longrightarrow> reachable ds'"

inductive_cases stepE: "step ds ds'"

definition ds_inv :: "dataset \<Rightarrow> bool" where
  "ds_inv ds \<longleftrightarrow> psf_sections_wf (ds_psf ds) \<and>
     (if ds_is_open ds then m_header (ds_psf ds) \<noteq> None else ds_image ds = [])"

lemma PSFFile_deserialize_sections:
  assumes "PSFFile_deserialize psf img nbytes = Inr psf'" and "psf_sections_wf psf"
  shows "psf_sections_wf psf' \<and> m_header psf' \<noteq> None"
proof -
  from assms obtain sections header psf1 psf2 psf3 where
    header: "at_section HeaderSection_deserialize img sections SECTION_HEADER = Inr header"
    and types: "read_types img sections (psf\<lparr>m_header := Some header\<rparr>) = Inr psf1"
    and sweeps: "read_sweeps img sections psf1 = Inr psf2"
    and traces: "read_traces img sections psf2 = Inr psf3"
    and nonsweep: "read_values img sections psf3 = Inr psf'"
    by (auto simp: PSFFile_deserialize_def res_simps)
  have "block_wf header"
    using header HeaderSection_deserialize_wf by (elim at_sectionE) blast
  then have "psf_sections_wf (psf\<lparr>m_header := Some header\<rparr>)"
    using assms(2) by (simp add: psf_sections_wf_def)
  note wf1 = read_types_wf [OF types this]
  note wf2 = read_sweeps_wf [OF sweeps wf1 [THEN conjunct1]]
  note wf3 = read_traces_wf [OF traces wf2 [THEN conjunct1]]
  have "psf_sections_wf psf' = psf_sections_wf psf3 \<and> m_header psf' = m_header psf3"
    using nonsweep by (auto simp: read_values_def res_simps psf_sections_wf_def split: if_splits)
  with wf1 wf2 wf3 show ?thesis by simp
qed

lemma PSFDataSet_open_inv: "PSFDataSet_open disk ds = Inr ds' \<Longrightarrow> ds_inv ds \<Longrightarrow> ds_inv ds'"
  by (auto simp: PSFDataSet_open_def PSFFile_open_def ds_inv_def res_simps
      dest!: PSFFile_deserialize_sections split: if_splits option.splits)

lemma PSFDataSet_new_inv: "PSFDataSet_new disk = Inr ds \<Longrightarrow> ds_inv ds"
  unfolding PSFDataSet_new_def
  by (erule PSFDataSet_open_inv) (simp add: ds_inv_def psf_sections_wf_def new_psffile_def)

lemma step_inv: "step ds ds' \<Longrightarrow> ds_inv ds \<Longrightarrow> ds_inv ds'"
proof (erule stepE)
  show "ds_inv ds'" if "ds_inv ds" "PSFDataSet_open disk ds = Inr ds'" for disk
    using that PSFDataSet_open_inv by blast
qed (auto simp: PSFDataSet_close_def PSFFile_close_def Let_def set_invertstruct_def verify_open_def ds_inv_def
    split: if_splits)

lemma reachable_inv: "reachable ds \<Longrightarrow> ds_inv ds"
  by (induction rule: reachable.induct) (auto intro: PSFDataSet_new_inv step_inv)

subsection \<open>The signals of a sweep\<close>

text \<open>An open data set with \<open>N\<close> points of a sweep.\<close>

definition sweep_open :: "dataset \<Rightarrow> nat \<Rightarrow> valuesectionsweep \<Rightarrow> bool" where
  "sweep_open ds N vss \<longleftrightarrow> ds_is_open ds \<and> m_sweepvalues (ds_psf ds) = Some vss \<and>
     (case header_int (ds_psf ds) ''PSF sweeps'' of Inr k \<Rightarrow> 0 < k | Inl e \<Rightarrow> False) \<and>
     header_int (ds_psf ds) ''PSF sweep points'' = Inr (int N)"

lemma sweep_open_swept: "sweep_open ds N vss \<Longrightarrow> verify_open ds = Inr () \<and> is_swept ds = Inr True"
  by (auto simp: sweep_open_def verify_open_def is_swept_def split: sum.splits)

lemma sweep_get_signal_vector:
  assumes "sweep_open ds N vss"
    and "rbind (get_trace_section (ds_psf ds)) (\<lambda>traces. get_trace_by_name traces name) = Inr ref"
    and "ValueSectionSweep_get_values_filter (ds_psf ds) (ds_image ds) vss [ref]
      = Some (Inr (paramvalues, [vec], n))"
  shows "get_signal_vector ds name = Some (Inr (Some vec))"
  using assms sweep_open_swept [OF assms(1)]
  by (simp add: get_signal_vector_def guarded_def PSFFile_get_values_def ValueSectionSweep_get_values_def
      vector_at_def sweep_open_def)

lemma sweep_get_signal:
  assumes "sweep_open ds N vss" and "get_signal_vector ds name = Some (Inr (Some vec))"
  shows "get_signal ds name = Some (invert (ds_invertstruct ds) (Some vec))"
  using assms(2) sweep_open_swept [OF assms(1)] by (simp add: get_signal_def guarded_def)

lemma sweep_get_values:
  assumes "sweep_open ds N vss"
    and "ValueSectionSweep_get_values_filter (ds_psf ds) (ds_image ds) vss []
      = Some (Inr (paramvalues, vecs, n))"
  shows "get_sweep_values ds = Some (Inr (Some paramvalues))"
  using assms sweep_open_swept [OF assms(1)]
  by (simp add: get_sweep_values_def guarded_def PSFFile_get_param_values_def
      ValueSectionSweep_get_param_values_def sweep_open_def)

text \<open>The columns that a simple sweep stores, and those of a sweep in windows.\<close>

definition simple_stored :: "dataset \<Rightarrow> nat \<Rightarrow> valuesectionsweep \<Rightarrow> datatyperef \<Rightarrow> datatypedef \<Rightarrow> scalar list
    \<Rightarrow> column list \<Rightarrow> bool" where
  "simple_stored ds N vss paramtype ptd ps cols \<longleftrightarrow> sweep_open ds N vss \<and> \<not> vss_windowedsweep vss \<and>
     get_paramtype (ds_psf ds) = Inr paramtype \<and> param_ok (m_types (ds_psf ds)) paramtype ptd N ps \<and>
     list_all (column_ok (m_types (ds_psf ds)) vss N) cols \<and>
     list_all (\<lambda>i. point_at (ds_image ds) paramtype ptd ps cols i
       (vss_valuebuf vss + int i * (8 + td_datasize ptd + vss_valuesize vss))) [0..<N]"

definition windowed_stored :: "dataset \<Rightarrow> nat \<Rightarrow> valuesectionsweep \<Rightarrow> datatyperef \<Rightarrow> datatypedef \<Rightarrow> scalar list
    \<Rightarrow> column list \<Rightarrow> int \<Rightarrow> int \<Rightarrow> nat list \<Rightarrow> bool" where
  "windowed_stored ds N vss paramtype ptd ps cols windowsize ntraces ns \<longleftrightarrow>
     sweep_open ds N vss \<and> vss_windowedsweep vss \<and>
     get_paramtype (ds_psf ds) = Inr paramtype \<and> param_ok (m_types (ds_psf ds)) paramtype ptd N ps \<and>
     list_all (column_ok (m_types (ds_psf ds)) vss N) cols \<and>
     header_int (ds_psf ds) ''PSF window size'' = Inr windowsize \<and>
     header_int (ds_psf ds) ''PSF traces'' = Inr ntraces \<and>
     int_range (ntraces * windowsize) \<and> int_range (int N) \<and>
     windows_at (ds_image ds) ptd ps cols windowsize ntraces N ns 0 (vss_valuebuf vss)"

lemma simple_stored_read:
  assumes "simple_stored ds N vss paramtype ptd ps cols"
  shows "\<exists>i0 n. ValueSectionSweep_get_values_filter (ds_psf ds) (ds_image ds) vss (map col_ref cols)
    = Some (Inr (PSFVectorT i0 ps, map col_vector cols, n))"
proof -
  have "m_sweepvalues (ds_psf ds) = Some vss" and points: "header_int (ds_psf ds) ''PSF sweep points'' = Inr (int N)"
    using assms by (simp_all add: simple_stored_def sweep_open_def)
  with SweepValueSimple_deserialize_cols [of "ds_psf ds" vss paramtype cols N ptd ps "ds_image ds" "vss_valuebuf vss"]
    assms show ?thesis
    by (auto simp: simple_stored_def list_all_iff ValueSectionSweep_get_values_filter_def)
qed

lemma windowed_stored_read:
  assumes "windowed_stored ds N vss paramtype ptd ps cols windowsize ntraces ns"
  shows "\<exists>i0 n. ValueSectionSweep_get_values_filter (ds_psf ds) (ds_image ds) vss (map col_ref cols)
    = Some (Inr (PSFVectorT i0 ps, map col_vector cols, n))"
proof -
  have "m_sweepvalues (ds_psf ds) = Some vss" and points: "header_int (ds_psf ds) ''PSF sweep points'' = Inr (int N)"
    using assms by (simp_all add: windowed_stored_def sweep_open_def)
  with SweepValueWindowed_deserialize_cols [of "ds_psf ds" vss paramtype windowsize ntraces cols N ptd ps
      "ds_image ds" ns "vss_valuebuf vss"] assms show ?thesis
    by (auto simp: windowed_stored_def list_all_iff ValueSectionSweep_get_values_filter_def)
qed

text \<open>A vector of structs, asked for as one vector per member.\<close>

lemma invert_struct:
  assumes "typedef_wf td" and "td_structdef td = Some sd"
    and "pv_init vec = StructScalar (Struct (Some sd) [])" and "\<forall>v \<in> set (pv_elems vec). scalar_full td v"
  shows "\<exists>b m. invert True (Some vec) = Inr (VectorStructSignal b (VectorStruct (Some (pv_size vec)) m))
    \<and> b = shares_members (VectorStruct (Some (pv_size vec)) m) \<and> transposed vec sd m"
  using VectorStruct_transpose [OF assms] assms(3) by (auto simp: invert_def is_struct_vector_def)

text \<open>From the stored columns to the answers of the data set.\<close>

lemma stored_signal_vector:
  assumes "simple_stored ds N vss paramtype ptd ps [c] \<or>
      windowed_stored ds N vss paramtype ptd ps [c] windowsize ntraces ns"
    and "rbind (get_trace_section (ds_psf ds)) (\<lambda>traces. get_trace_by_name traces name) = Inr (col_ref c)"
  shows "get_signal_vector ds name = Some (Inr (Some (col_vector c)))"
proof -
  have swept: "sweep_open ds N vss"
    using assms(1) by (auto simp: simple_stored_def windowed_stored_def)
  obtain i0 n where "ValueSectionSweep_get_values_filter (ds_psf ds) (ds_image ds) vss [col_ref c]
      = Some (Inr (PSFVectorT i0 ps, [col_vector c], n))"
    using assms(1) simple_stored_read [of ds N vss paramtype ptd ps "[c]"]
      windowed_stored_read [of ds N vss paramtype ptd ps "[c]" windowsize ntraces ns] by auto
  from sweep_get_signal_vector [OF swept assms(2) this] show ?thesis .
qed

lemma stored_signal:
  assumes "simple_stored ds N vss paramtype ptd ps [c] \<or>
      windowed_stored ds N vss paramtype ptd ps [c] windowsize ntraces ns"
    and "rbind (get_trace_section (ds_psf ds)) (\<lambda>traces. get_trace_by_name traces name) = Inr (col_ref c)"
    and "\<not> ds_invertstruct ds"
  shows "get_signal ds name = Some (Inr (VectorSignal (Some (col_vector c))))"
proof -
  have "sweep_open ds N vss"
    using assms(1) by (auto simp: simple_stored_def windowed_stored_def)
  from sweep_get_signal [OF this stored_signal_vector [OF assms(1,2)]] assms(3) show ?thesis
    by (simp add: invert_def)
qed

lemma stored_params:
  assumes "simple_stored ds N vss paramtype ptd ps [] \<or>
    windowed_stored ds N vss paramtype ptd ps [] windowsize ntraces ns"
  shows "\<exists>init. get_sweep_values ds = Some (Inr (Some (PSFVectorT init ps)))"
proof -
  have "sweep_open ds N vss"
    using assms by (auto simp: simple_stored_def windowed_stored_def)
  moreover obtain i0 n where "ValueSectionSweep_get_values_filter (ds_psf ds) (ds_image ds) vss []
      = Some (Inr (PSFVectorT i0 ps, [], n))"
    using assms simple_stored_read [of ds N vss paramtype ptd ps "[]"]
      windowed_stored_read [of ds N vss paramtype ptd ps "[]" windowsize ntraces ns] by auto
  ultimately show ?thesis
    using sweep_get_values by blast
qed

subsection \<open>Data sets that answer\<close>

text \<open>
  Where the header does not make a window loop go backwards, every request for a signal ends:
  with a value, an exception or a run-time error.
\<close>

definition windows_forward :: "psffile \<Rightarrow> bool" where
  "windows_forward psf \<longleftrightarrow>
     (case (header_int psf ''PSF window size'', header_int psf ''PSF traces'') of
        (Inr windowsize, Inr ntraces) \<Rightarrow> 0 \<le> ntraces * windowsize
      | _ \<Rightarrow> True)"

lemma SweepValueWindowed_ends:
  assumes "windows_forward psf"
  shows "\<exists>r. SweepValueWindowed_deserialize psf img buf n filt = Some r"
proof (cases "SweepValueWindowed_prepare psf n filt")
  case (Inr r)
  obtain vss windowsize ntraces paramtype paramvalues vecs where
    r: "r = (vss, windowsize, ntraces, paramtype, paramvalues, vecs)" by (cases r) auto
  with Inr assms have "0 \<le> ntraces * windowsize"
    by (auto simp: windows_forward_def SweepValueWindowed_prepare_def res_simps)
  from windowed_loop_ends [OF this] Inr r show ?thesis
    by (fastforce simp: SweepValueWindowed_deserialize_def split: option.split)
qed (simp add: SweepValueWindowed_deserialize_def)

lemma get_values_filter_ends:
  "windows_forward psf \<Longrightarrow> \<exists>r. ValueSectionSweep_get_values_filter psf img vss filt = Some r"
  by (simp add: ValueSectionSweep_get_values_filter_def SweepValueWindowed_ends split: sum.split)

lemma get_signal_vector_ends: "windows_forward (ds_psf ds) \<Longrightarrow> \<exists>r. get_signal_vector ds name = Some r"
  by (auto simp: get_signal_vector_def guarded_def PSFFile_get_values_def ValueSectionSweep_get_values_def
      get_values_filter_ends split: sum.splits option.splits)

lemma get_signal_ends: "windows_forward (ds_psf ds) \<Longrightarrow> \<exists>r. get_signal ds name = Some r"
  using get_signal_vector_ends [of ds name] by (auto simp: get_signal_def guarded_def split: sum.split)

lemma get_sweep_values_ends: "windows_forward (ds_psf ds) \<Longrightarrow> \<exists>r. get_sweep_values ds = Some r"
  by (auto simp: get_sweep_values_def guarded_def PSFFile_get_param_values_def ValueSectionSweep_get_param_values_def
      get_values_filter_ends split: sum.splits option.splits)

lemmas access_defs = get_signal_def get_signal_vector_def get_sweep_values_def get_signal_scalar_def
  get_signal_properties_def get_signal_names_def PSFDataSet_get_header_properties_def get_nsweeps_def
  get_sweep_npoints_def get_sweep_param_names_def is_swept_def set_invertstruct_def get_invertstruct_def

text \<open>
  The sections are read anew when a file is opened again; what is read does not depend on the
  values that were there.
\<close>

lemma ValueSectionSweep_deserialize_cong:
  assumes "m_header psf' = m_header psf" and "m_types psf' = m_types psf" and "m_traces psf' = m_traces psf"
  shows "ValueSectionSweep_deserialize psf' = ValueSectionSweep_deserialize psf"
proof -
  have "create_valueoffsetmap psf' w = create_valueoffsetmap psf w" for w
    using assms by (cases w) (simp_all add: create_valueoffsetmap_def header_int_def
        get_header_properties_def get_trace_section_def)
  with assms(1) show ?thesis
    by (intro ext) (simp add: ValueSectionSweep_deserialize_def get_header_properties_def)
qed

lemma PSFFile_deserialize_again:
  assumes "PSFFile_deserialize new_psffile img nbytes = Inr psf"
  shows "PSFFile_deserialize psf img nbytes = Inr psf"
proof -
  from assms obtain sections header psf1 psf2 psf3 where
    toc: "read_toc img nbytes = Inr sections"
    and header: "at_section HeaderSection_deserialize img sections SECTION_HEADER = Inr header"
    and types: "read_types img sections (new_psffile\<lparr>m_header := Some header\<rparr>) = Inr psf1"
    and sweeps: "read_sweeps img sections psf1 = Inr psf2"
    and traces: "read_traces img sections psf2 = Inr psf3"
    and "values": "read_values img sections psf3 = Inr psf"
    by (auto simp: PSFFile_deserialize_def res_simps)
  have kept: "m_header psf = Some header" "m_types psf = m_types psf1" "m_sweeps psf = m_sweeps psf2"
    "m_traces psf = m_traces psf3" "m_types psf2 = m_types psf1" "m_types psf3 = m_types psf1"
    "m_sweeps psf3 = m_sweeps psf2" "m_header psf3 = Some header"
    using types sweeps traces "values"
    by (auto simp: read_types_def read_sweeps_def read_traces_def read_values_def res_simps split: if_splits)
  have "psf\<lparr>m_header := Some header\<rparr> = psf"
    using kept(1) by simp
  moreover have "read_types img sections psf = Inr psf"
    using types kept(2) by (auto simp: read_types_def res_simps split: if_splits)
  moreover have "read_sweeps img sections psf = Inr psf"
    using sweeps kept(2,3) by (auto simp: read_sweeps_def res_simps split: if_splits)
  moreover have "read_traces img sections psf = Inr psf"
    using traces kept(2,4,5) by (auto simp: read_traces_def res_simps split: if_splits)
  moreover have "read_values img sections psf = Inr psf"
    using "values" kept(3,7) ValueSectionSweep_deserialize_cong [of psf psf3] kept(1,2,4,6,8)
    by (auto simp: read_values_def res_simps split: if_splits)
  ultimately show ?thesis
    using toc header by (simp add: PSFFile_deserialize_def)
qed

lemma PSFFile_reopen: "PSFFile_open disk new_psffile = Inr (psf, img) \<Longrightarrow> PSFFile_open disk psf = Inr (psf, img)"
  by (auto simp: PSFFile_open_def res_simps PSFFile_deserialize_again split: option.splits if_splits)

lemma windowed_signal_stuck:
  assumes "sweep_open ds N vss" and "0 < N" and "vss_windowedsweep vss"
    and "SweepValueWindowed_prepare (ds_psf ds) (int N) filt
      = Inr (vss', windowsize, ntraces, paramtype, paramvalues, vecs)"
    and "window_step (m_types (ds_psf ds)) vss' (ds_image ds) paramtype filt windowsize ntraces 0 paramvalues vecs
      (vss_valuebuf vss) = Inr (0, paramvalues, vecs, vss_valuebuf vss)"
  shows "ValueSectionSweep_get_values_filter (ds_psf ds) (ds_image ds) vss filt = None"
  using windowed_loop_stuck [OF assms(5)] assms(1-4)
  by (simp add: ValueSectionSweep_get_values_filter_def sweep_open_def SweepValueWindowed_deserialize_def)

end
