(* ===== verification/FileFormat.thy ===== *)
theory FileFormat
  imports DataSet
begin

section \<open>The encoding of sections and files (doc/psfformat.rst)\<close>

text \<open>
  The format of a file, written as functions from what it holds to bytes: the other direction of
  the readers, after the description of the format in the documentation. The lemmas show that each
  section that is encoded is read back, and so is a whole file.
\<close>

subsection \<open>Children\<close>

definition enc_nonsweepvalue :: "datatypedef \<Rightarrow> nonsweepvalue \<Rightarrow> 8 word list" where
  "enc_nonsweepvalue td v = enc_int 16 @ enc_int (nv_id v) @ enc_string (nv_name v) @ enc_int (nv_valuetypeid v)
     @ enc_value td (nv_value v) @ enc_block (nv_propblock v)"

definition nonsweepvalue_ok :: "datatypedef \<Rightarrow> nonsweepvalue \<Rightarrow> bool" where
  "nonsweepvalue_ok td v \<longleftrightarrow> int_range (nv_id v) \<and> string_ok (nv_name v) \<and> int_range (nv_valuetypeid v)
     \<and> value_ok td (nv_value v) \<and> block_ok (nv_propblock v)"

text \<open>The type of a value outside a sweep decides its encoding.\<close>

fun enc_chunk :: "indexedcontainer option \<Rightarrow> chunk \<Rightarrow> 8 word list" where
  "enc_chunk types (PropertyChunk p) = enc_property p"
| "enc_chunk types (DataTypeDefChunk td) = enc_typedef td"
| "enc_chunk types (DataTypeRefChunk r) = enc_typeref r"
| "enc_chunk types (GroupDefChunk g) = enc_group g"
| "enc_chunk types (NonSweepValueChunk v) =
     (case get_typedef types (nv_valuetypeid v) of Inr td \<Rightarrow> enc_nonsweepvalue td v | Inl e \<Rightarrow> [])"

fun chunk_ok :: "indexedcontainer option \<Rightarrow> chunk \<Rightarrow> bool" where
  "chunk_ok types (PropertyChunk p) \<longleftrightarrow> property_ok p"
| "chunk_ok types (DataTypeDefChunk td) \<longleftrightarrow> typedef_ok td"
| "chunk_ok types (DataTypeRefChunk r) \<longleftrightarrow> typeref_ok r"
| "chunk_ok types (GroupDefChunk g) \<longleftrightarrow> group_ok g"
| "chunk_ok types (NonSweepValueChunk v) \<longleftrightarrow>
     (case get_typedef types (nv_valuetypeid v) of Inr td \<Rightarrow> nonsweepvalue_ok td v | Inl e \<Rightarrow> False)"

fun chunk_class :: "chunk \<Rightarrow> chunkclass" where
  "chunk_class (PropertyChunk p) = PropertyClass"
| "chunk_class (DataTypeDefChunk td) = DataTypeDefClass"
| "chunk_class (DataTypeRefChunk r) = DataTypeRefClass"
| "chunk_class (GroupDefChunk g) = GroupDefClass"
| "chunk_class (NonSweepValueChunk v) = NonSweepValueClass"

fun chunk_marker :: "chunk \<Rightarrow> int" where
  "chunk_marker (PropertyChunk p) = prop_chunktype p"
| "chunk_marker (GroupDefChunk g) = 17"
| "chunk_marker _ = 16"

lemma NonSweepValue_deserialize_enc:
  assumes "get_typedef types (nv_valuetypeid v) = Inr td" and "nonsweepvalue_ok td v"
    and "\<not> property_ischunk t" and "int_range t" and "seg img buf (enc_nonsweepvalue td v @ enc_int t)"
  shows "NonSweepValue_deserialize types img buf = Inr (v, int (length (enc_nonsweepvalue td v)))"
proof -
  define l where "l = int (length (enc_string (nv_name v)))"
  define m where "m = int (length (enc_value td (nv_value v)))"
  have at: "Chunk_deserialize (-1) img buf = Inr 4"
    "GET_INT32 img (4 + buf) = Inr (word_of_int (nv_id v))"
    "String_deserialize img (8 + buf) = Inr (nv_name v, l)"
    "GET_INT32 img (8 + (buf + l)) = Inr (word_of_int (nv_valuetypeid v))"
    and val: "seg img (12 + (buf + l)) (enc_value td (nv_value v))"
    and block: "seg img (12 + (buf + (l + m))) (enc_block (nv_propblock v) @ enc_int t)"
    using assms(2,5) unfolding l_def m_def enc_nonsweepvalue_def nonsweepvalue_ok_def
    by (auto simp: seg_simps algebra_simps decodes Chunk_deserialize_def simp del: length_enc_string)
  have "PropertyBlock_deserialize empty_block img (12 + (buf + (l + m)))
      = Inr (nv_propblock v, int (length (enc_block (nv_propblock v))))"
    using assms(2-4) block by (intro PropertyBlock_deserialize_enc_block) (auto simp: nonsweepvalue_ok_def)
  moreover obtain v0 where "new_scalar td = Inr v0"
    "DataTypeDef_deserialize_data td v0 img (12 + (buf + l)) = Inr (nv_value v, m)"
    using assms(2) new_scalar_wf [of td] deserialize_data_enc [OF _ _ _ _ _ val] unfolding m_def
    by (auto simp: nonsweepvalue_ok_def value_ok_def)
  ultimately show ?thesis
    using at assms(1,2)
    by (simp add: NonSweepValue_deserialize_def Let_def nonsweepvalue_ok_def enc_nonsweepvalue_def
        l_def [symmetric] m_def [symmetric] algebra_simps del: length_enc_string)
qed

text \<open>What stands before a chunk's marker is not read by it; a chunk is read where it stands.\<close>

lemma chunk_deserialize_enc:
  assumes "chunk_ok types ch" and "\<not> property_ischunk t \<or> chunk_class ch = PropertyClass" and "int_range t"
    and "seg img buf (enc_chunk types ch @ enc_int t)"
  shows "chunk_deserialize types (chunk_class ch) img buf = Inr (ch, int (length (enc_chunk types ch)))"
proof (cases ch)
  case (PropertyChunk p)
  with assms show ?thesis by (simp add: Property_deserialize_enc seg_simps)
next
  case (DataTypeDefChunk td)
  with assms show ?thesis by (simp add: DataTypeDef_deserialize_enc)
next
  case (DataTypeRefChunk r)
  with assms show ?thesis by (simp add: DataTypeRef_deserialize_enc)
next
  case (GroupDefChunk g)
  with assms show ?thesis by (simp add: GroupDef_deserialize_enc)
next
  case (NonSweepValueChunk v)
  with assms show ?thesis by (auto simp: NonSweepValue_deserialize_enc split: sum.splits)
qed

lemma enc_chunk_marker:
  assumes "chunk_ok types ch" and "seg img buf (enc_chunk types ch)"
  shows "seg img buf (enc_int (chunk_marker ch))"
proof (cases ch)
  case (PropertyChunk p)
  with assms show ?thesis by (cases p) (simp add: seg_simps)
next
  case (DataTypeDefChunk td)
  with assms show ?thesis by (simp add: enc_typedef_marker)
next
  case (DataTypeRefChunk r)
  with assms show ?thesis by (simp add: enc_typeref_marker)
next
  case (GroupDefChunk g)
  with assms show ?thesis by (simp add: enc_group_def seg_simps)
next
  case (NonSweepValueChunk v)
  with assms show ?thesis by (auto simp: enc_nonsweepvalue_def seg_simps split: sum.splits)
qed

lemma chunk_marker_range: "chunk_ok types ch \<Longrightarrow> int_range (chunk_marker ch)"
  by (cases ch) (auto dest: property_ok_marker)

lemma chunk_marker_property:
  "chunk_ok types ch \<Longrightarrow> property_ischunk (chunk_marker ch) \<longleftrightarrow> chunk_class ch = PropertyClass"
  by (cases ch) (auto dest: property_ok_marker)

text \<open>
  Children of one section: all are properties, or none is, so that a block is never continued by
  the next child.
\<close>

definition children_ok :: "(int \<Rightarrow> (chunkclass option) res) \<Rightarrow> indexedcontainer option \<Rightarrow> chunk list \<Rightarrow> bool" where
  "children_ok child_factory types chs \<longleftrightarrow>
     list_all (\<lambda>ch. chunk_ok types ch \<and> child_factory (chunk_marker ch) = Inr (Some (chunk_class ch))) chs \<and>
     (list_all (\<lambda>ch. chunk_class ch = PropertyClass) chs \<or> list_all (\<lambda>ch. chunk_class ch \<noteq> PropertyClass) chs)"

definition enc_children :: "indexedcontainer option \<Rightarrow> chunk list \<Rightarrow> 8 word list" where
  "enc_children types chs = concat (map (enc_chunk types) chs)"

lemma child_run_enc:
  assumes "children_ok child_factory types chs" and "\<not> property_ischunk t" and "int_range t"
    and "seg img buf (enc_children types chs @ enc_int t)"
  shows "child_run child_factory types img buf chs (buf + int (length (enc_children types chs)))"
  using assms(1,4)
proof (induction chs arbitrary: buf)
  case Nil
  then show ?case by (simp add: enc_children_def)
next
  case (Cons ch chs)
  define n where "n = int (length (enc_chunk types ch))"
  have ch: "chunk_ok types ch" "child_factory (chunk_marker ch) = Inr (Some (chunk_class ch))"
    and chs: "children_ok child_factory types chs"
    using Cons.prems(1) by (auto simp: children_ok_def)
  have at: "seg img buf (enc_chunk types ch)" "seg img (buf + n) (enc_children types chs @ enc_int t)"
    using Cons.prems(2) by (simp_all add: enc_children_def n_def seg_simps algebra_simps)
  obtain t' where t': "int_range t'" "seg img (buf + n) (enc_int t')"
    "\<not> property_ischunk t' \<or> chunk_class ch = PropertyClass"
  proof (cases chs)
    case Nil
    with at(2) assms(2,3) that show thesis by (auto simp: enc_children_def)
  next
    case (Cons ch' chs')
    with Cons.prems(1) have ch': "chunk_ok types ch'"
      "chunk_class ch' = PropertyClass \<longleftrightarrow> chunk_class ch = PropertyClass"
      by (auto simp: children_ok_def)
    have "seg img (buf + n) (enc_chunk types ch')"
      using at(2) Cons by (simp add: enc_children_def seg_simps)
    with ch' that show thesis
      using enc_chunk_marker chunk_marker_range chunk_marker_property by blast
  qed
  have "chunk_deserialize types (chunk_class ch) img buf = Inr (ch, n)"
    unfolding n_def by (rule chunk_deserialize_enc [OF ch(1) t'(3,1)]) (use at t' in \<open>simp add: seg_simps n_def\<close>)
  moreover have "GET_INT32 img buf = Inr (word_of_int (chunk_marker ch))"
    using enc_chunk_marker [OF ch(1) at(1)] by (simp add: decodes)
  ultimately show ?case
    using ch chunk_marker_range [OF ch(1)] Cons.IH [OF chs at(2)]
    by (auto intro!: run_child simp: enc_children_def n_def algebra_simps)
qed

end
