(* ===== verification/FileImage.thy ===== *)
theory FileImage
  imports FileFormat
begin

section \<open>Whole files, written and read back (doc/psfformat.rst)\<close>

text \<open>
  The encoding of sections and of files: the header, the types, the sweep parameters, the traces
  and the values outside a sweep. A file without a sweep that is so encoded is opened, and each of
  its values is returned as the signal of its name.
\<close>

lemma uint_of_int_range: "0 \<le> x \<Longrightarrow> int_range x \<Longrightarrow> uint (word_of_int x :: 32 word) = x"
  by (simp add: int_range_def uint_word_of_int_eq take_bit_int_eq_self)

subsection \<open>The children of a section\<close>

lemma child_run_loop:
  "child_run child_factory types img buf chs e \<Longrightarrow> abspos + (e - startbuf) \<le> endpos \<Longrightarrow>
     children_loop child_factory types img abspos startbuf endpos children buf
       = children_loop child_factory types img abspos startbuf endpos (children @ chs) e"
proof (induction arbitrary: children rule: child_run.induct)
  case (run_child buf w cls ch n chs buf')
  have n: "4 \<le> n"
    using run_child.hyps(3) chunk_reader.dec_progress by blast
  moreover have "buf + n \<le> buf'"
    using child_run_progress [OF run_child.hyps(4)] by simp
  moreover have "deserialize_child child_factory (chunk_deserialize types) img buf = Inr (Some ch, n)"
    using run_child.hyps by (auto simp: deserialize_child_Some)
  ultimately show ?case
    using run_child.prems run_child.IH [of "children @ [ch]"]
    by (simp add: children_loop.simps [of child_factory types img abspos startbuf endpos children buf])
qed simp

text \<open>The loop ends where the section says it does, or at an end marker before.\<close>

lemma children_loop_to_end:
  assumes "child_run child_factory types img buf chs e" and "abspos + (e - startbuf) = endpos"
  shows "children_loop child_factory types img abspos startbuf endpos children buf = Inr (children @ chs, e)"
  using child_run_loop [OF assms(1)] assms(2)
  by (simp add: children_loop.simps [of child_factory types img abspos startbuf endpos "children @ chs" e])

lemma children_loop_to_marker:
  assumes "child_run child_factory types img buf chs e" and "abspos + (e - startbuf) < endpos"
    and "GET_INT32 img e = Inr w" and "child_factory (sint w) = Inr None"
  shows "children_loop child_factory types img abspos startbuf endpos children buf = Inr (children @ chs, e + 4)"
proof -
  have "deserialize_child child_factory (chunk_deserialize types) img e = Inr (None, 4)"
    using assms(3,4) by (simp add: deserialize_child_None)
  with child_run_loop [OF assms(1), of abspos startbuf endpos children] assms(2) show ?thesis
    by (simp add: children_loop.simps [of child_factory types img abspos startbuf endpos "children @ chs" e])
qed

subsection \<open>Simple sections\<close>

text \<open>
  A simple section at position \<open>pos\<close>: the position of its end, the children and the end marker,
  which counts to the section.
\<close>

definition enc_simple_section :: "int \<Rightarrow> indexedcontainer option \<Rightarrow> chunk list \<Rightarrow> int \<Rightarrow> 8 word list" where
  "enc_simple_section endmarker types chs pos =
     enc_int 21 @ enc_int (pos + 12 + int (length (enc_children types chs))) @ enc_children types chs
     @ enc_int endmarker"

lemma SimpleContainer_deserialize_enc:
  assumes "children_ok child_factory types chs" and "child_factory endmarker = Inr None"
    and "\<not> property_ischunk endmarker" and "int_range endmarker" and "0 \<le> pos"
    and "int_range (pos + int (length (enc_simple_section endmarker types chs pos)))"
    and "seg img pos (enc_simple_section endmarker types chs pos)"
  shows "SimpleContainer_deserialize 21 child_factory types img pos pos
    = Inr (chs, int (length (enc_simple_section endmarker types chs pos)))"
proof -
  define e where "e = pos + 8 + int (length (enc_children types chs))"
  have len: "int (length (enc_simple_section endmarker types chs pos)) = e + 4 - pos"
    by (simp add: enc_simple_section_def e_def)
  have "seg img (8 + pos) (enc_children types chs @ enc_int endmarker)"
    using assms(7) by (simp add: enc_simple_section_def seg_simps algebra_simps)
  from child_run_enc [OF assms(1,3,4) this] have run: "child_run child_factory types img (8 + pos) chs e"
    by (simp add: e_def algebra_simps)
  have stop: "GET_INT32 img e = Inr (word_of_int endmarker)"
    using assms(7) by (intro GET_INT32_enc_int) (simp add: enc_simple_section_def seg_simps e_def algebra_simps)
  have "GET_INT32 img (4 + pos) = Inr (word_of_int (e + 4))"
    using assms(7) by (intro GET_INT32_enc_int) (simp add: enc_simple_section_def seg_simps e_def algebra_simps)
  moreover have "uint (word_of_int (e + 4) :: 32 word) = e + 4"
    using assms(5,6) unfolding len by (intro uint_of_int_range) (simp_all add: e_def algebra_simps)
  moreover have "children_loop child_factory types img pos pos (e + 4) [] (8 + pos) = Inr (chs, e + 4)"
    using children_loop_to_marker [OF run _ stop, of pos pos "e + 4" "[]"] assms(2,4) by simp
  moreover have "Chunk_deserialize 21 img pos = Inr 4"
    using assms(7) by (intro Chunk_deserialize_enc_int) (simp add: enc_simple_section_def seg_simps)
  ultimately show ?thesis
    unfolding len by (simp add: SimpleContainer_deserialize_def Let_def algebra_simps)
qed
subsection \<open>Indexed sections\<close>

text \<open>
  The index behind the children is read and dropped, so any words will do, if their number fits
  its entries.
\<close>

definition enc_index :: "32 word list \<Rightarrow> 8 word list" where
  "enc_index ws = enc_int 19 @ enc_int (4 * int (length ws)) @ concat (map enc32 ws)"

definition index_ok :: "bool \<Rightarrow> 32 word list \<Rightarrow> bool" where
  "index_ok trace ws \<longleftrightarrow> int (index_words trace) dvd int (length ws)"

lemma length_enc_words [simp]: "length (concat (map enc32 ws)) = 4 * length ws"
  by (induction ws) auto

lemma read_words_total: "0 \<le> buf \<Longrightarrow> buf + 4 * int k \<le> int (length img) \<Longrightarrow> read_words img buf k = Inr ()"
proof (induction k arbitrary: buf)
  case (Suc k)
  then obtain w where "GET_INT32 img buf = Inr w"
    using GET_INT32_total [of buf img] by auto
  with Suc show ?case by simp
qed simp

lemma Index_loop_total:
  "0 \<le> buf \<Longrightarrow> buf + nbytes \<le> int (length img) \<Longrightarrow> 0 \<le> i \<Longrightarrow> int_range nbytes \<Longrightarrow>
   4 * int (index_words trace) dvd nbytes - i \<Longrightarrow> Index_loop trace img buf nbytes i = Inr ()"
proof (induction trace img buf nbytes i rule: Index_loop.induct)
  case (1 trace img buf nbytes i)
  define k where "k = 4 * int (index_words trace)"
  show ?case
  proof (cases "i < nbytes")
    case True
    then have "k \<le> nbytes - i"
      using "1.prems"(5) by (intro zdvd_imp_le) (simp_all add: k_def)
    moreover have "int_range (i + k)" "0 \<le> i + k"
      using "1.prems"(3,4) calculation by (auto simp: int_range_def k_def)
    moreover have "k dvd nbytes - (i + k)"
      using "1.prems"(5) by (simp add: k_def diff_diff_eq [symmetric])
    moreover have "read_words img (buf + i) (index_words trace) = Inr ()"
      using "1.prems" calculation(1) by (intro read_words_total) (simp_all add: k_def)
    ultimately show ?thesis
      using "1.IH" [of "()" "i + k"] "1.prems" True
      by (simp add: Index_loop.simps [of trace img buf nbytes i] k_def)
  qed (simp add: Index_loop.simps [of trace img buf nbytes i])
qed

lemma Index_deserialize_enc:
  assumes "index_ok trace ws" and "int_range (8 + 4 * int (length ws))" and "seg img buf (enc_index ws)"
  shows "Index_deserialize trace img buf = Inr (8 + 4 * int (length ws))"
proof -
  have range: "int_range (4 * int (length ws))"
    using assms(2) by (simp add: int_range_def)
  have "GET_INT32 img (4 + buf) = Inr (word_of_int (4 * int (length ws)))" "seg img (8 + buf) (concat (map enc32 ws))"
    using assms(3) by (auto simp: enc_index_def seg_simps decodes algebra_simps intro!: GET_INT32_enc_int)
  moreover have "Chunk_deserialize 19 img buf = Inr 4"
    using assms(3) by (intro Chunk_deserialize_enc_int) (simp add: enc_index_def seg_simps)
  moreover have "uint (word_of_int (4 * int (length ws)) :: 32 word) = 4 * int (length ws)"
    by (rule uint_of_int_range) (use range in auto)
  moreover have "Index_loop trace img (8 + buf) (4 * int (length ws)) 0 = Inr ()"
    using calculation(2) range assms(1)
      seg_nonneg [of img "8 + buf" "concat (map enc32 ws)"] seg_bound [of img "8 + buf" "concat (map enc32 ws)"]
    by (intro Index_loop_total) (auto simp: index_ok_def)
  ultimately show ?thesis
    using sint_of_int_range [OF assms(2)] by (simp add: Index_deserialize_def Let_def algebra_simps)
qed

text \<open>
  An indexed section: its end, the container of the children with the end of that, the children
  and the index.
\<close>

definition enc_indexed_section :: "indexedcontainer option \<Rightarrow> chunk list \<Rightarrow> 32 word list \<Rightarrow> int \<Rightarrow> 8 word list" where
  "enc_indexed_section types chs ws pos =
     (let subend = pos + 16 + int (length (enc_children types chs)) in
      enc_int 21 @ enc_int (subend + int (length (enc_index ws))) @ enc_int 22 @ enc_int subend
      @ enc_children types chs @ enc_index ws)"

definition container_of :: "chunk list \<Rightarrow> indexedcontainer" where
  "container_of chs = \<lparr>ic_children = chs, ic_idmap = create_idmap chs, ic_namemap = create_namemap chs\<rparr>"

lemma length_enc_index [simp]: "length (enc_index ws) = 8 + 4 * length ws"
  by (simp add: enc_index_def)

lemma IndexedContainer_deserialize_enc:
  assumes "chunktype = 21 \<or> chunktype = -1" and "children_ok child_factory types chs" and "index_ok trace ws"
    and "0 \<le> pos" and "int_range (pos + int (length (enc_indexed_section types chs ws pos)))"
    and "seg img pos (enc_indexed_section types chs ws pos)"
  shows "IndexedContainer_deserialize chunktype trace child_factory types img pos pos
    = Inr (container_of chs, int (length (enc_indexed_section types chs ws pos)))"
proof -
  define e where "e = pos + 16 + int (length (enc_children types chs))"
  define n where "n = 8 + 4 * int (length ws)"
  have len: "int (length (enc_indexed_section types chs ws pos)) = e + n - pos"
    by (simp add: enc_indexed_section_def Let_def e_def n_def)
  have ranges: "int_range (e + n)" "int_range e" "int_range n"
    using assms(4,5) unfolding len by (simp_all add: int_range_def e_def n_def)
  have at: "seg img pos (enc_int 21)" "seg img (4 + pos) (enc_int (e + n))"
    "seg img (8 + pos) (enc_int 22)" "seg img (12 + pos) (enc_int e)"
    and chs: "seg img (16 + pos) (enc_children types chs @ enc_int 19)" and idx: "seg img e (enc_index ws)"
    using assms(6) by (auto simp: enc_indexed_section_def Let_def enc_index_def seg_simps e_def n_def algebra_simps)
  note words = at(2-4) [THEN GET_INT32_enc_int]
  have "child_run child_factory types img (16 + pos) chs e"
    using child_run_enc [OF assms(2) _ _ chs] by (simp add: e_def algebra_simps)
  from children_loop_to_end [OF this, of pos pos e "[]"]
  have "children_loop child_factory types img pos pos e [] (16 + pos) = Inr (chs, e)"
    by simp
  moreover have "uint (word_of_int e :: 32 word) = e"
    by (rule uint_of_int_range) (use ranges assms(4) in \<open>simp_all add: e_def\<close>)
  moreover have "Index_deserialize trace img e = Inr n"
    using Index_deserialize_enc [OF assms(3) _ idx] ranges by (simp add: n_def)
  moreover have "Chunk_deserialize chunktype img pos = Inr 4"
    using assms(1) at(1) by (auto simp: decodes Chunk_deserialize_def)
  moreover have "sint (word_of_int (e + n) - word_of_int pos :: 32 word) = e + n - pos"
    using ranges assms(4,5) unfolding len
    by (simp flip: of_int_diff add: int_range_def e_def n_def del: of_int_add)
  ultimately show ?thesis
    using words unfolding len by (simp add: IndexedContainer_deserialize_def Let_def container_of_def add.commute [of pos])
qed
subsection \<open>Files\<close>

text \<open>
  A file is its sections one after the other, the table with the number and the position of each,
  the word that ends the format and the size of the sections. An encoded section depends on its
  position, since it holds the position of its end.
\<close>

fun enc_sections :: "(int \<times> (int \<Rightarrow> 8 word list)) list \<Rightarrow> int \<Rightarrow> 8 word list" where
  "enc_sections [] pos = []"
| "enc_sections ((k, enc) # secs) pos = enc pos @ enc_sections secs (pos + int (length (enc pos)))"

fun toc_entries :: "(int \<times> (int \<Rightarrow> 8 word list)) list \<Rightarrow> int \<Rightarrow> (32 word \<times> 32 word) list" where
  "toc_entries [] pos = []"
| "toc_entries ((k, enc) # secs) pos =
     (word_of_int k, word_of_int pos) # toc_entries secs (pos + int (length (enc pos)))"

definition enc_file :: "(int \<times> (int \<Rightarrow> 8 word list)) list \<Rightarrow> 8 word list" where
  "enc_file secs = (let body = enc_int 4 @ enc_sections secs 4 in
     body @ enc_toc (toc_entries secs 4) @ bytes_of_string ''Clarissa'' @ enc32 (word_of_nat (length body)))"

text \<open>Where a section starts.\<close>

fun section_start :: "(int \<times> (int \<Rightarrow> 8 word list)) list \<Rightarrow> int \<Rightarrow> int \<Rightarrow> int option" where
  "section_start [] pos k = None"
| "section_start ((k', enc) # secs) pos k =
     (if k' = k then Some pos else section_start secs (pos + int (length (enc pos))) k)"

lemma section_start_None: "section_start secs pos k = None \<longleftrightarrow> k \<notin> fst ` set secs"
  by (induction secs pos k rule: section_start.induct) auto

lemma section_start_Some:
  "section_start secs pos k = Some p \<Longrightarrow> seg img pos (enc_sections secs pos) \<Longrightarrow>
     \<exists>enc. (k, enc) \<in> set secs \<and> seg img p (enc p) \<and> pos \<le> p
       \<and> p + int (length (enc p)) \<le> pos + int (length (enc_sections secs pos))"
proof (induction secs pos k rule: section_start.induct)
  case (2 k' enc secs pos k)
  then show ?case by (fastforce simp: seg_simps split: if_splits)
qed simp

lemma toc_entries_offset:
  assumes "distinct (map fst secs)" and "\<forall>k \<in> fst ` set secs. int_range k"
  shows "map_of (rev (map (\<lambda>(n, offset). (sint n, offset)) (toc_entries secs pos))) k
    = map_option word_of_int (section_start secs pos k)"
  using assms
proof (induction secs arbitrary: pos)
  case (Cons s secs)
  obtain k' enc where s: "s = (k', enc)" by (cases s)
  from Cons show ?case
    using section_start_None [of secs "pos + int (length (enc pos))" k]
    by (auto simp: s map_add_def split: option.split)
qed simp

lemma length_toc_entries [simp]: "length (toc_entries secs pos) = length secs"
  by (induction secs pos rule: toc_entries.induct) auto

definition file_ok :: "(int \<times> (int \<Rightarrow> 8 word list)) list \<Rightarrow> bool" where
  "file_ok secs \<longleftrightarrow> secs \<noteq> [] \<and> distinct (map fst secs) \<and> list_all (\<lambda>(k, enc). int_range k) secs
     \<and> int (length (enc_file secs)) \<le> 2 ^ 31 - 4"

lemma file_ok_small: "file_ok secs \<Longrightarrow> small_image (enc_file secs)"
  by (simp add: file_ok_def small_image_def)

lemma read_toc_enc_file:
  assumes "file_ok secs"
  shows "\<exists>sections. read_toc (enc_file secs) (int (length (enc_file secs))) = Inr sections
    \<and> (\<forall>k. toc_offset sections k = map_option word_of_int (section_start secs 4 k))"
proof -
  have img: "enc_file secs = (enc_int 4 @ enc_sections secs 4) @ enc_toc (toc_entries secs 4)
      @ bytes_of_string ''Clarissa'' @ enc32 (word_of_nat (length (enc_int 4 @ enc_sections secs 4)))"
    by (simp only: enc_file_def Let_def)
  have ok: "distinct (map fst secs)" "\<forall>k \<in> fst ` set secs. int_range k"
    using assms by (auto simp: file_ok_def list_all_iff)
  have "toc_entries secs 4 \<noteq> []"
    using assms length_toc_entries [of secs 4] by (auto simp: file_ok_def simp del: length_toc_entries)
  from read_toc_enc [OF img _ this] toc_entries_offset [OF ok] assms show ?thesis
    by (simp add: file_ok_def)
qed

text \<open>A section of an encoded file stands where the table says.\<close>

lemma enc_file_section:
  assumes "file_ok secs" and "(k, enc) \<in> set secs"
  obtains pos where "section_start secs 4 k = Some pos" "0 \<le> pos" "seg (enc_file secs) pos (enc pos)"
    "int_range (pos + int (length (enc pos)))"
proof -
  obtain pos where pos: "section_start secs 4 k = Some pos"
    using assms(2) section_start_None [of secs 4 k] by force
  have "seg (enc_file secs) 4 (enc_sections secs 4)"
    using seg_intro [of "enc_int 4" "enc_sections secs 4"] by (simp add: enc_file_def Let_def)
  from section_start_Some [OF pos this] obtain enc' where
    enc': "(k, enc') \<in> set secs" "seg (enc_file secs) pos (enc' pos)" "4 \<le> pos"
    by blast
  moreover have "enc' = enc"
    using assms enc'(1) by (auto simp: file_ok_def dest: eq_key_imp_eq_value)
  moreover have "int_range (pos + int (length (enc pos)))"
    using seg_bound [OF enc'(2)] enc'(3) assms(1) \<open>enc' = enc\<close> by (simp add: file_ok_def int_range_def)
  ultimately show thesis
    using that pos by simp
qed

lemma at_section_enc:
  assumes "toc_offset sections k = Some (word_of_int pos)" and "0 \<le> pos" and "int_range pos"
    and "deserialize img pos pos = Inr (x, n)"
  shows "at_section deserialize img sections k = Inr x"
  using assms by (auto simp: at_section_def section_at_def toc_offset_def uint_of_int_range)

lemma has_section_iff: "has_section sections k \<longleftrightarrow> toc_offset sections k \<noteq> None"
  by (simp add: has_section_def toc_offset_def)

lemma PSFFile_validate_enc: "PSFFile_validate (enc_file secs) = Inr True"
  by (simp add: PSFFile_validate_def enc_file_def Let_def)
lemma read_section_enc:
  assumes "file_ok secs" and "(k, enc) \<in> set secs"
    and "\<forall>k. toc_offset sections k = map_option word_of_int (section_start secs 4 k)"
    and "\<And>pos. 0 \<le> pos \<Longrightarrow> int_range (pos + int (length (enc pos))) \<Longrightarrow> seg (enc_file secs) pos (enc pos) \<Longrightarrow>
      section_start secs 4 k = Some pos \<Longrightarrow> \<exists>n. deserialize (enc_file secs) pos pos = Inr (x, n)"
  shows "has_section sections k" and "at_section deserialize (enc_file secs) sections k = Inr x"
proof -
  obtain pos where pos: "section_start secs 4 k = Some pos" "0 \<le> pos" "seg (enc_file secs) pos (enc pos)"
    "int_range (pos + int (length (enc pos)))"
    using enc_file_section [OF assms(1,2)] .
  obtain n where "deserialize (enc_file secs) pos pos = Inr (x, n)"
    using assms(4) pos by blast
  moreover have "int_range pos"
    using pos(2,4) by (simp add: int_range_def)
  ultimately show "has_section sections k" "at_section deserialize (enc_file secs) sections k = Inr x"
    using assms(3) pos by (auto simp: has_section_iff intro: at_section_enc)
qed

lemma no_section_enc:
  assumes "k \<notin> fst ` set secs" and "\<forall>k. toc_offset sections k = map_option word_of_int (section_start secs 4 k)"
  shows "\<not> has_section sections k"
  using assms section_start_None [of secs 4 k] by (simp add: has_section_iff)

subsection \<open>The sections of a file\<close>

definition header_section :: "property list \<Rightarrow> int \<times> (int \<Rightarrow> 8 word list)" where
  "header_section ps = (SECTION_HEADER, enc_simple_section 1 None (map PropertyChunk ps))"

definition types_section :: "datatypedef list \<Rightarrow> 32 word list \<Rightarrow> int \<times> (int \<Rightarrow> 8 word list)" where
  "types_section tds ws = (SECTION_TYPE, enc_indexed_section None (map DataTypeDefChunk tds) ws)"

definition types_of :: "datatypedef list \<Rightarrow> indexedcontainer" where
  "types_of tds = container_of (map DataTypeDefChunk tds)"

definition sweeps_section :: "datatypedef list \<Rightarrow> datatyperef list \<Rightarrow> int \<times> (int \<Rightarrow> 8 word list)" where
  "sweeps_section tds rs = (SECTION_SWEEP, enc_simple_section 3 (Some (types_of tds)) (map DataTypeRefChunk rs))"

definition traces_section :: "datatypedef list \<Rightarrow> chunk list \<Rightarrow> 32 word list \<Rightarrow> int \<times> (int \<Rightarrow> 8 word list)" where
  "traces_section tds chs ws = (SECTION_TRACE, enc_indexed_section (Some (types_of tds)) chs ws)"

definition nonsweep_section :: "datatypedef list \<Rightarrow> nonsweepvalue list \<Rightarrow> 32 word list \<Rightarrow> int \<times> (int \<Rightarrow> 8 word list)" where
  "nonsweep_section tds vs ws = (SECTION_VALUE, enc_indexed_section (Some (types_of tds)) (map NonSweepValueChunk vs) ws)"

lemma header_children_ok: "list_all property_ok ps \<Longrightarrow> children_ok HeaderSection_child_factory types (map PropertyChunk ps)"
  by (auto simp: children_ok_def list_all_iff HeaderSection_child_factory_def)
    (metis property_ok_marker)+

lemma types_children_ok: "list_all typedef_ok tds \<Longrightarrow> children_ok TypeSection_child_factory types (map DataTypeDefChunk tds)"
  by (auto simp: children_ok_def list_all_iff child_factory_defs)

lemma sweeps_children_ok: "list_all typeref_ok rs \<Longrightarrow> children_ok SweepSection_child_factory types (map DataTypeRefChunk rs)"
  by (auto simp: children_ok_def list_all_iff child_factory_defs)

lemma values_children_ok:
  "list_all (\<lambda>v. chunk_ok types (NonSweepValueChunk v)) vs \<Longrightarrow>
     children_ok ValueSectionNonSweep_child_factory types (map NonSweepValueChunk vs)"
  by (auto simp: children_ok_def list_all_iff child_factory_defs)

lemma HeaderSection_deserialize_enc:
  assumes "list_all property_ok ps" and "0 \<le> pos"
    and "int_range (pos + int (length (enc_simple_section 1 None (map PropertyChunk ps) pos)))"
    and "seg img pos (enc_simple_section 1 None (map PropertyChunk ps) pos)"
  shows "\<exists>n. HeaderSection_deserialize img pos pos = Inr (block_extend empty_block ps, n)"
proof -
  have "map property_of (map PropertyChunk ps) = ps"
    by (simp add: property_of_def o_def)
  moreover have "list_all (\<lambda>ch. \<exists>p. ch = PropertyChunk p \<and> prop_value p \<noteq> None) (map PropertyChunk ps)"
    using assms(1) by (fastforce simp: list_all_iff elim: property_okE)
  ultimately show ?thesis
    using SimpleContainer_deserialize_enc [OF header_children_ok [OF assms(1)] _ _ _ assms(2-4)]
    by (simp add: HeaderSection_deserialize_def append_props HeaderSection_child_factory_def property_ischunk_def)
qed

subsection \<open>A file without a sweep\<close>

definition nonsweep_sections :: "property list \<Rightarrow> datatypedef list \<Rightarrow> 32 word list \<Rightarrow> nonsweepvalue list \<Rightarrow> 32 word list
    \<Rightarrow> (int \<times> (int \<Rightarrow> 8 word list)) list" where
  "nonsweep_sections ps tds tws vs vws =
     [header_section ps, types_section tds tws, nonsweep_section tds vs vws]"

definition nonsweep_ok :: "property list \<Rightarrow> datatypedef list \<Rightarrow> 32 word list \<Rightarrow> nonsweepvalue list \<Rightarrow> 32 word list \<Rightarrow> bool" where
  "nonsweep_ok ps tds tws vs vws \<longleftrightarrow> file_ok (nonsweep_sections ps tds tws vs vws)
     \<and> list_all property_ok ps \<and> list_all typedef_ok tds \<and> index_ok False tws \<and> index_ok False vws
     \<and> list_all (\<lambda>v. chunk_ok (Some (types_of tds)) (NonSweepValueChunk v)) vs"

lemma PSFFile_deserialize_nonsweep:
  assumes "nonsweep_ok ps tds tws vs vws"
  defines "img \<equiv> enc_file (nonsweep_sections ps tds tws vs vws)"
  shows "PSFFile_deserialize new_psffile img (int (length img))
    = Inr \<lparr>m_header = Some (block_extend empty_block ps), m_types = Some (types_of tds), m_sweeps = None,
        m_traces = None, m_sweepvalues = None,
        m_nonsweepvalues = Some (container_of (map NonSweepValueChunk vs))\<rparr>"
proof -
  define secs where "secs = nonsweep_sections ps tds tws vs vws"
  have ok: "file_ok secs" "list_all property_ok ps" "list_all typedef_ok tds" "index_ok False tws"
    "index_ok False vws" "list_all (\<lambda>v. chunk_ok (Some (types_of tds)) (NonSweepValueChunk v)) vs"
    using assms(1) by (simp_all add: nonsweep_ok_def secs_def)
  obtain sections where toc: "read_toc img (int (length img)) = Inr sections"
    and at: "\<forall>k. toc_offset sections k = map_option word_of_int (section_start secs 4 k)"
    using read_toc_enc_file [OF ok(1)] by (auto simp: img_def secs_def)
  note read = read_section_enc [OF ok(1) _ at, folded img_def secs_def]
  have img: "img = enc_file secs"
    by (simp add: img_def secs_def)
  have "at_section HeaderSection_deserialize img sections SECTION_HEADER = Inr (block_extend empty_block ps)"
    unfolding img
    by (rule read_section_enc(2) [OF ok(1) _ at, of _ "snd (header_section ps)"])
      (use HeaderSection_deserialize_enc [OF ok(2)] in \<open>auto simp: secs_def nonsweep_sections_def header_section_def\<close>)
  moreover have "has_section sections SECTION_TYPE"
    "at_section TypeSection_deserialize img sections SECTION_TYPE = Inr (types_of tds)"
    unfolding img
    by (rule read_section_enc [OF ok(1) _ at, of _ "snd (types_section tds tws)"];
      use IndexedContainer_deserialize_enc [OF disjI1 types_children_ok [OF ok(3)] ok(4)] in
        \<open>auto simp: secs_def nonsweep_sections_def types_section_def TypeSection_deserialize_def types_of_def\<close>)+
  moreover have "has_section sections SECTION_VALUE"
    "at_section (ValueSectionNonSweep_deserialize (Some (types_of tds))) img sections SECTION_VALUE
      = Inr (container_of (map NonSweepValueChunk vs))"
    unfolding img
    by (rule read_section_enc [OF ok(1) _ at, of _ "snd (nonsweep_section tds vs vws)"];
      use IndexedContainer_deserialize_enc [OF disjI2 values_children_ok [OF ok(6)] ok(5)] in
        \<open>auto simp: secs_def nonsweep_sections_def nonsweep_section_def ValueSectionNonSweep_deserialize_def\<close>)+
  moreover have "\<not> has_section sections SECTION_SWEEP" "\<not> has_section sections SECTION_TRACE"
    by (rule no_section_enc [OF _ at], simp add: secs_def nonsweep_sections_def header_section_def types_section_def
        nonsweep_section_def section_number_defs)+
  ultimately show ?thesis
    using toc by (simp add: PSFFile_deserialize_def read_types_def read_sweeps_def read_traces_def
        read_values_def new_psffile_def)
qed
lemma PSFDataSet_new_enc:
  assumes "file_ok secs"
    and "PSFFile_deserialize new_psffile (enc_file secs) (int (length (enc_file secs))) = Inr psf"
  shows "PSFDataSet_new (Some (enc_file secs))
    = Inr \<lparr>ds_psf = psf, ds_image = enc_file secs, ds_invertstruct = False, ds_is_open = True\<rparr>"
  using assms(2) mapped_small [OF file_ok_small [OF assms(1)]]
  by (simp add: PSFDataSet_new_def PSFDataSet_open_def PSFFile_open_def PSFFile_validate_enc)

lemma container_of_wf: "container_wf (container_of chs)"
  by (simp add: container_wf_def container_of_def)

lemma ic_children_container_of [simp]: "ic_children (container_of chs) = chs"
  by (simp add: container_of_def)

text \<open>Where the names are distinct, a lookup finds the child itself.\<close>

lemma get_child_by_name_container_of:
  assumes "distinct (map get_name chs)" and "ch \<in> set chs"
  shows "IndexedContainer_get_child_by_name (container_of chs) (get_name ch) = Inr ch"
proof -
  obtain i ch' where "IndexedContainer_get_child_by_name (container_of chs) (get_name ch) = Inr ch'"
    "0 \<le> i" "i < int (length chs)" "ch' = chs ! nat i" "get_name ch' = get_name ch"
    using get_child_by_name_found [OF container_of_wf, of "get_name ch" chs] assms(2) by auto
  moreover have "ch' \<in> set chs"
    using calculation by simp
  ultimately show ?thesis
    using assms by (auto simp: distinct_map dest: inj_onD)
qed

lemma nonsweep_file_values:
  assumes "nonsweep_ok ps tds tws vs vws" and "distinct (map nv_name vs)"
    and "PropertyBlock_find (block_extend empty_block ps) ''PSF sweeps'' = Inr sweeps"
    and "scalar_to_int sweeps = Inr k" and "k \<le> 0"
  obtains ds where "PSFDataSet_new (Some (enc_file (nonsweep_sections ps tds tws vs vws))) = Inr ds"
    "get_signal_names ds = Inr (map nv_name vs)"
    "\<And>v. v \<in> set vs \<Longrightarrow> get_signal ds (nv_name v) = Some (Inr (ScalarSignal (nv_value v)))"
    "\<And>v. v \<in> set vs \<Longrightarrow> get_signal_properties ds (nv_name v) = Inr (m_propmap (nv_propblock v))"
    "\<And>name. name \<notin> nv_name ` set vs \<Longrightarrow> get_signal ds name = Some (Inl (Throw NotFound))"
proof -
  define secs where "secs = nonsweep_sections ps tds tws vs vws"
  define vals where "vals = container_of (map NonSweepValueChunk vs)"
  define psf where "psf = \<lparr>m_header = Some (block_extend empty_block ps), m_types = Some (types_of tds), m_sweeps = None,
        m_traces = None, m_sweepvalues = None, m_nonsweepvalues = Some vals\<rparr>"
  define ds where "ds = \<lparr>ds_psf = psf, ds_image = enc_file secs, ds_invertstruct = False, ds_is_open = True\<rparr>"
  have "file_ok secs"
    using assms(1) by (simp add: nonsweep_ok_def secs_def)
  then have new: "PSFDataSet_new (Some (enc_file secs)) = Inr ds"
    using PSFFile_deserialize_nonsweep [OF assms(1)]
    by (simp add: PSFDataSet_new_enc secs_def ds_def psf_def vals_def)
  have ds: "verify_open ds = Inr ()" "ds_psf ds = psf" "is_swept ds = Inr False"
    using assms(3-5) by (simp_all add: ds_def psf_def verify_open_def is_swept_def header_int_def
        get_header_properties_def deref_def)
  have found: "get_nonsweepvalue vals (nv_name v) = Inr v" if "v \<in> set vs" for v
    using get_child_by_name_container_of [of "map NonSweepValueChunk vs" "NonSweepValueChunk v"] assms(2) that
    by (simp add: get_nonsweepvalue_def vals_def cast_NonSweepValue_def o_def)
  have missing: "get_nonsweepvalue vals name = Inl (Throw NotFound)" if "name \<notin> nv_name ` set vs" for name
    using get_child_by_name_missing [OF container_of_wf, of name "map NonSweepValueChunk vs"] that
    by (simp add: get_nonsweepvalue_def vals_def image_image)
  show thesis
  proof (rule that [of ds])
    show "get_signal_names ds = Inr (map nv_name vs)"
      by (simp add: get_signal_names_def ds PSFFile_get_names_def psf_def vals_def Container_get_names_def o_def)
  qed (use new found missing ds in \<open>simp_all add: secs_def get_signal_def guarded_def PSFFile_get_value_def
      ValueSectionNonSweep_get_value_def get_signal_properties_def PSFFile_get_value_properties_def
      ValueSectionNonSweep_get_value_properties_def deref_def psf_def\<close>)
qed

end
