(* ===== verification/SweepImage.thy ===== *)
theory SweepImage
  imports FileImage
begin

section \<open>Files with a sweep, written and read back (doc/psfformat.rst)\<close>

text \<open>
  The encoding of a file with a sweep: the sections that every sweep has, and the points of a simple
  sweep. A file that is so encoded is opened, and each of its traces is stored in it as a column.
\<close>

subsection \<open>The points of a simple sweep\<close>

text \<open>
  \<open>vals\<close> gives the value of each trace, by identifier, at each point. A point holds the children
  of the trace section in order, each behind its marker and identifier; a child with the type of
  the sweep has no values.
\<close>

definition enc_ref_value :: "indexedcontainer option \<Rightarrow> (int \<Rightarrow> nat \<Rightarrow> scalar) \<Rightarrow> nat \<Rightarrow> datatyperef \<Rightarrow> 8 word list" where
  "enc_ref_value types vals i r =
     (case DataTypeRef_get_datatype types r of Inr td \<Rightarrow> enc_value td (vals (tr_id r) i) | Inl e \<Rightarrow> [])"

definition enc_child_point :: "indexedcontainer option \<Rightarrow> (int \<Rightarrow> nat \<Rightarrow> scalar) \<Rightarrow> nat \<Rightarrow> chunk \<Rightarrow> 8 word list" where
  "enc_child_point types vals i ch =
     (case ch of
        DataTypeRefChunk r \<Rightarrow>
          if chunk_refs types ch = [] then [] else enc_int 16 @ enc_int (tr_id r) @ enc_ref_value types vals i r
      | GroupDefChunk g \<Rightarrow> enc_int 17 @ enc_int (gd_id g) @ concat (map (enc_ref_value types vals i) (gd_children g))
      | _ \<Rightarrow> [])"

definition ref_values_ok :: "indexedcontainer option \<Rightarrow> (int \<Rightarrow> nat \<Rightarrow> scalar) \<Rightarrow> nat \<Rightarrow> datatyperef \<Rightarrow> bool" where
  "ref_values_ok types vals N r =
     (case DataTypeRef_get_datatype types r of
        Inr td \<Rightarrow> typedef_wf td \<and> list_all (\<lambda>i. value_ok td (vals (tr_id r) i)) [0..<N]
      | Inl e \<Rightarrow> False)"

text \<open>\<open>enc\<close> gives the bytes of a trace; the map says where they lie from \<open>base\<close> on.\<close>

definition stored_at :: "(datatyperef \<Rightarrow> 8 word list) \<Rightarrow> (int, int) stdmap \<Rightarrow> image \<Rightarrow> int
    \<Rightarrow> datatyperef list \<Rightarrow> bool" where
  "stored_at enc m img base refs \<longleftrightarrow>
     (\<forall>r \<in> set refs. \<exists>offset. map_find m (tr_id r) = Some offset \<and> seg img (base + offset) (enc r))"

lemma stored_at_cong:
  "stored_at enc m img base refs \<Longrightarrow> \<forall>r \<in> set refs. map_find m' (tr_id r) = map_find m (tr_id r) \<Longrightarrow>
     stored_at enc m' img base refs"
  by (simp add: stored_at_def)

lemma stored_at_append:
  "stored_at enc m img base (refs @ refs') \<longleftrightarrow> stored_at enc m img base refs \<and> stored_at enc m img base refs'"
  by (auto simp: stored_at_def)

lemma fill_stored:
  assumes "fill_offsetmap_loop types windowsize refs offset m = Inr (m', offset')" and "map_ok m"
    and "list_all (\<lambda>r. ref_bytes types windowsize r = Inr (int (length (enc r)))) refs" and "distinct (map tr_id refs)"
  shows "offset' = offset + int (length (concat (map enc refs)))
    \<and> (seg img (base + offset) (concat (map enc refs)) \<longrightarrow> stored_at enc m' img base refs)"
  using assms
proof (induction refs arbitrary: offset m)
  case Nil
  then show ?case by (simp add: stored_at_def)
next
  case (Cons ref refs)
  define n where "n = int (length (enc ref))"
  have "ref_bytes types windowsize ref = Inr n"
    using Cons.prems(3) by (simp add: n_def)
  with Cons.prems(1) have rest:
    "fill_offsetmap_loop types windowsize refs (offset + n) (map_put (tr_id ref) offset m) = Inr (m', offset')"
    unfolding fill_offsetmap_step by (auto simp: res_simps)
  have "map_find m' (tr_id ref) = Some offset"
    using fill_offsetmap_loop_offsets [OF rest] Cons.prems(2,4) by (auto simp: map_find_put)
  with Cons.IH [OF rest] Cons.prems show ?case
    by (auto simp: n_def seg_simps stored_at_def algebra_simps)
qed

lemma fill_offsetmap_stored:
  assumes "fill_offsetmap types g m windowsize offset = Inr (m', n)" and "map_ok m"
    and "list_all (\<lambda>r. ref_bytes types windowsize r = Inr (int (length (enc r)))) (gd_children g)"
    and "distinct (map tr_id (gd_children g))"
  shows "n = int (length (concat (map enc (gd_children g))))
    \<and> (seg img (base + offset) (concat (map enc (gd_children g))) \<longrightarrow> stored_at enc m' img base (gd_children g))"
proof -
  from assms(1) have "fill_offsetmap_loop types windowsize (gd_children g) offset m = Inr (m', offset + n)"
    by (auto simp: fill_offsetmap_def res_simps)
  from fill_stored [OF this assms(2-4)] show ?thesis by auto
qed

lemma ref_values_size:
  assumes "list_all (ref_values_ok types vals N) refs" and "i < N"
  shows "list_all (\<lambda>r. ref_bytes types 0 r = Inr (int (length (enc_ref_value types vals i r)))) refs"
  using assms
  by (fastforce simp: ref_values_ok_def ref_bytes_def DataTypeRef_datasize_def enc_ref_value_def value_ok_length
      list_all_iff split: sum.splits)

lemma simple_child_stored:
  assumes "simple_child types ch offset m = Inr (Some (m', n))" and "map_ok m"
    and "list_all (ref_values_ok types vals N) (chunk_refs types ch)" and "i < N"
    and "distinct (map tr_id (chunk_refs types ch))"
  shows "8 + n = int (length (enc_child_point types vals i ch))
    \<and> (seg img (base + offset) (enc_child_point types vals i ch) \<longrightarrow>
         stored_at (enc_ref_value types vals i) m' img base (chunk_refs types ch))"
proof (cases ch)
  case (DataTypeRefChunk ref)
  with assms(1) obtain td where td: "DataTypeRef_get_datatype types ref = Inr td"
    "m' = map_put (tr_id ref) (offset + 8) m" "n = td_datasize td" and refs: "chunk_refs types ch = [ref]"
    by (auto simp: simple_child_def chunk_refs_def res_simps split: if_splits)
  moreover have "ref_bytes types 0 ref = Inr (int (length (enc_ref_value types vals i ref)))"
    using ref_values_size [OF assms(3,4)] refs by simp
  ultimately show ?thesis
    using DataTypeRefChunk
    by (simp add: enc_child_point_def stored_at_def map_find_put ref_bytes_def DataTypeRef_datasize_def
        seg_simps algebra_simps)
next
  case (GroupDefChunk g)
  then have refs: "chunk_refs types ch = gd_children g"
    by (simp add: chunk_refs_def)
  from GroupDefChunk assms(1) have "fill_offsetmap types g m 0 (offset + 8) = Inr (m', n)"
    by (auto simp: simple_child_def res_simps)
  from fill_offsetmap_stored [OF this assms(2) ref_values_size [OF assms(3,4), unfolded refs] assms(5) [unfolded refs]] show ?thesis
    unfolding refs by (simp add: GroupDefChunk enc_child_point_def seg_simps algebra_simps)
qed (use assms(1) in \<open>simp_all add: simple_child_def\<close>)

lemma enc_child_point_skip: "simple_child types ch offset m = Inr None \<Longrightarrow> enc_child_point types vals i ch = []"
  using simple_child_skip [of types ch offset m]
  by (cases ch) (auto simp: enc_child_point_def simple_child_def res_simps split: if_splits)

lemma simple_layout_stored:
  assumes "simple_layout types children offset valuesize m = Inr (m', valuesize')" and "map_ok m"
    and "list_all (ref_values_ok types vals N) (layout_refs types children)" and "i < N"
    and "distinct (map tr_id (layout_refs types children))"
  shows "valuesize' = valuesize + int (length (concat (map (enc_child_point types vals i) children)))
    \<and> (seg img (base + offset) (concat (map (enc_child_point types vals i) children)) \<longrightarrow>
         stored_at (enc_ref_value types vals i) m' img base (layout_refs types children))"
  using assms
proof (induction children arbitrary: offset valuesize m)
  case Nil
  then show ?case by (simp add: layout_refs_def stored_at_def)
next
  case (Cons ch children)
  have refs: "layout_refs types (ch # children) = chunk_refs types ch @ layout_refs types children"
    by (simp add: layout_refs_def)
  from Cons.prems(1) obtain child where child: "simple_child types ch offset m = Inr child"
    by (auto simp: res_simps)
  show ?case
  proof (cases child)
    case None
    with Cons child simple_child_skip [of types ch offset m] enc_child_point_skip [of types ch offset m]
    show ?thesis by (simp add: refs)
  next
    case (Some r)
    obtain m1 n where r: "r = (m1, n)" by (cases r)
    with Cons.prems(1) child Some have
      rest: "simple_layout types children (offset + (8 + n)) (valuesize + (8 + n)) m1 = Inr (m', valuesize')"
      by (auto simp: res_simps)
    have dist: "distinct (map tr_id (chunk_refs types ch))" "distinct (map tr_id (layout_refs types children))"
      "\<forall>r \<in> set (chunk_refs types ch). tr_id r \<notin> tr_id ` set (layout_refs types children)"
      and ok: "list_all (ref_values_ok types vals N) (chunk_refs types ch)"
        "list_all (ref_values_ok types vals N) (layout_refs types children)"
      using Cons.prems(3,5) by (auto simp: refs)
    note child' = child [unfolded Some r]
    note head = simple_child_stored [OF child' Cons.prems(2) ok(1) Cons.prems(4) dist(1)]
    note place = simple_child_placed [OF child' Cons.prems(2)]
    have m1: "map_ok m1"
      using place by blast
    note tail = Cons.IH [OF rest m1 ok(2) Cons.prems(4) dist(2)]
    have same: "\<forall>r \<in> set (chunk_refs types ch). map_find m' (tr_id r) = map_find m1 (tr_id r)"
      using simple_layout_placed [OF rest m1 dist(2)] dist(3) by simp
    show ?thesis
      using head tail stored_at_cong [OF _ same]
      by (auto simp: refs stored_at_append seg_simps algebra_simps)
  qed
qed
lemma seg_concat_nth:
  assumes "\<forall>i < N. int (length (f i)) = n" and "seg img buf (concat (map f [0..<N]))" and "i < N"
  shows "seg img (buf + int i * n) (f i)"
  using assms
proof (induction N)
  case (Suc N)
  have "int (length (concat (map f [0..<N]))) = int N * n"
    using Suc.prems(1) by (induction N) (simp_all add: algebra_simps)
  with Suc show ?case by (cases "i = N") (simp_all add: seg_simps)
qed simp

subsection \<open>A file with a simple sweep\<close>

text \<open>What such a file holds: the words of the two indexes may be anything.\<close>

record sweepfile =
  sf_header :: "property list"
  sf_types :: "datatypedef list"
  sf_typesindex :: "32 word list"
  sf_sweeps :: "datatyperef list"
  sf_traces :: "chunk list"
  sf_tracesindex :: "32 word list"
  sf_params :: "scalar list"
  sf_vals :: "int \<Rightarrow> nat \<Rightarrow> scalar"

definition sf_typesection :: "sweepfile \<Rightarrow> indexedcontainer option" where
  "sf_typesection f = Some (types_of (sf_types f))"

definition sf_headerblock :: "sweepfile \<Rightarrow> propertyblock" where
  "sf_headerblock f = block_extend empty_block (sf_header f)"

definition sf_npoints :: "sweepfile \<Rightarrow> nat" where
  "sf_npoints f = length (sf_params f)"

definition sf_refs :: "sweepfile \<Rightarrow> datatyperef list" where
  "sf_refs f = layout_refs (sf_typesection f) (sf_traces f)"

definition enc_point :: "sweepfile \<Rightarrow> datatyperef \<Rightarrow> datatypedef \<Rightarrow> nat \<Rightarrow> 8 word list" where
  "enc_point f paramtype ptd i = enc_int 16 @ enc_int (tr_id paramtype) @ enc_value ptd (sf_params f ! i)
     @ concat (map (enc_child_point (sf_typesection f) (sf_vals f) i) (sf_traces f))"

definition enc_points :: "sweepfile \<Rightarrow> 8 word list" where
  "enc_points f =
     (case sf_sweeps f of
        [] \<Rightarrow> []
      | paramtype # _ \<Rightarrow>
          (case DataTypeRef_get_datatype (sf_typesection f) paramtype of
             Inr ptd \<Rightarrow> concat (map (enc_point f paramtype ptd) [0..<sf_npoints f])
           | Inl e \<Rightarrow> []))"

definition enc_sweepvalues :: "8 word list \<Rightarrow> int \<Rightarrow> 8 word list" where
  "enc_sweepvalues data pos = enc_int 21 @ enc_int (pos + 8 + int (length data)) @ data"

text \<open>The sections of a file with a sweep; \<open>enc\<close> gives the bytes of the values.\<close>

definition sections_with :: "sweepfile \<Rightarrow> (int \<Rightarrow> 8 word list) \<Rightarrow> (int \<times> (int \<Rightarrow> 8 word list)) list" where
  "sections_with f enc =
     [header_section (sf_header f), types_section (sf_types f) (sf_typesindex f),
      sweeps_section (sf_types f) (sf_sweeps f),
      traces_section (sf_types f) (sf_traces f) (sf_tracesindex f), (SECTION_VALUE, enc)]"

definition sweep_sections :: "sweepfile \<Rightarrow> (int \<times> (int \<Rightarrow> 8 word list)) list" where
  "sweep_sections f = sections_with f (enc_sweepvalues (enc_points f))"

text \<open>The sections that are read before the values.\<close>

definition sf_psf :: "sweepfile \<Rightarrow> psffile" where
  "sf_psf f = \<lparr>m_header = Some (sf_headerblock f), m_types = sf_typesection f,
     m_sweeps = Some (map DataTypeRefChunk (sf_sweeps f)), m_traces = Some (container_of (sf_traces f)),
     m_sweepvalues = None, m_nonsweepvalues = None\<rparr>"

definition sections_with_ok :: "sweepfile \<Rightarrow> (int \<Rightarrow> 8 word list) \<Rightarrow> bool" where
  "sections_with_ok f enc \<longleftrightarrow> file_ok (sections_with f enc) \<and> list_all property_ok (sf_header f)
     \<and> list_all typedef_ok (sf_types f) \<and> index_ok False (sf_typesindex f) \<and> list_all typeref_ok (sf_sweeps f)
     \<and> children_ok TraceSection_child_factory (sf_typesection f) (sf_traces f) \<and> index_ok True (sf_tracesindex f)"

definition sections_ok :: "sweepfile \<Rightarrow> bool" where
  "sections_ok f \<longleftrightarrow> sections_with_ok f (enc_sweepvalues (enc_points f))
     \<and> \<not> PropertyBlock_hasprop (sf_headerblock f) ''PSF window size''"

lemma PSFFile_deserialize_with:
  fixes f :: sweepfile
  defines "img enc \<equiv> enc_file (sections_with f enc)"
  assumes "sections_with_ok f enc"
    and "\<And>pos. 0 \<le> pos \<Longrightarrow> int_range (pos + int (length (enc pos))) \<Longrightarrow> seg (img enc) pos (enc pos) \<Longrightarrow>
      \<exists>n. ValueSectionSweep_deserialize (sf_psf f) (img enc) pos pos = Inr (vss pos, n)"
  obtains pos where "0 \<le> pos" and "int_range (pos + int (length (enc pos)))" and "seg (img enc) pos (enc pos)"
    and "PSFFile_deserialize new_psffile (img enc) (int (length (img enc)))
      = Inr ((sf_psf f)\<lparr>m_sweepvalues := Some (vss pos)\<rparr>)"
proof -
  define secs where "secs = sections_with f enc"
  have ok: "file_ok secs" "list_all property_ok (sf_header f)" "list_all typedef_ok (sf_types f)"
    "index_ok False (sf_typesindex f)" "list_all typeref_ok (sf_sweeps f)"
    "children_ok TraceSection_child_factory (sf_typesection f) (sf_traces f)" "index_ok True (sf_tracesindex f)"
    using assms(2) by (simp_all add: sections_with_ok_def secs_def)
  have img: "img enc = enc_file secs"
    by (simp add: img_def secs_def)
  obtain sections where toc: "read_toc (img enc) (int (length (img enc))) = Inr sections"
    and at: "\<forall>k. toc_offset sections k = map_option word_of_int (section_start secs 4 k)"
    using read_toc_enc_file [OF ok(1)] by (auto simp: img)
  have mem: "header_section (sf_header f) \<in> set secs" "types_section (sf_types f) (sf_typesindex f) \<in> set secs"
    "sweeps_section (sf_types f) (sf_sweeps f) \<in> set secs"
    "traces_section (sf_types f) (sf_traces f) (sf_tracesindex f) \<in> set secs"
    "(SECTION_VALUE, enc) \<in> set secs"
    by (simp_all add: secs_def sections_with_def)
  note section_defs = header_section_def types_section_def sweeps_section_def traces_section_def
  note types = sf_typesection_def types_of_def
  have "at_section HeaderSection_deserialize (img enc) sections SECTION_HEADER = Inr (sf_headerblock f)"
    unfolding img sf_headerblock_def using mem(1)
    by (intro read_section_enc(2) [OF ok(1) _ at, of _ "snd (header_section (sf_header f))"]
        HeaderSection_deserialize_enc [OF ok(2)]) (auto simp: section_defs)
  moreover have "has_section sections SECTION_TYPE"
    "at_section TypeSection_deserialize (img enc) sections SECTION_TYPE = Inr (types_of (sf_types f))"
    unfolding img using mem(2) IndexedContainer_deserialize_enc [OF disjI1 types_children_ok [OF ok(3)] ok(4)]
    by (intro read_section_enc [OF ok(1) _ at, of _ "snd (types_section (sf_types f) (sf_typesindex f))"];
      auto simp: section_defs TypeSection_deserialize_def types)+
  moreover have "has_section sections SECTION_SWEEP"
    "at_section (SweepSection_deserialize (sf_typesection f)) (img enc) sections SECTION_SWEEP
      = Inr (map DataTypeRefChunk (sf_sweeps f))"
    unfolding img using mem(3) SimpleContainer_deserialize_enc [OF sweeps_children_ok [OF ok(5)], of 3]
    by (intro read_section_enc [OF ok(1) _ at, of _ "snd (sweeps_section (sf_types f) (sf_sweeps f))"];
      auto simp: section_defs SweepSection_deserialize_def types child_factory_defs property_ischunk_def)+
  moreover have "has_section sections SECTION_TRACE"
    "at_section (TraceSection_deserialize (sf_typesection f)) (img enc) sections SECTION_TRACE
      = Inr (container_of (sf_traces f))"
    unfolding img using mem(4) IndexedContainer_deserialize_enc [OF disjI1 ok(6,7)]
    by (intro read_section_enc [OF ok(1) _ at, of _ "snd (traces_section (sf_types f) (sf_traces f) (sf_tracesindex f))"];
      auto simp: section_defs TraceSection_deserialize_def types)+
  moreover obtain pos where pos: "section_start secs 4 SECTION_VALUE = Some pos" "0 \<le> pos"
    "seg (img enc) pos (enc pos)" "int_range (pos + int (length (enc pos)))"
    using enc_file_section [OF ok(1) mem(5)] by (auto simp: img)
  moreover obtain n where val: "ValueSectionSweep_deserialize (sf_psf f) (img enc) pos pos = Inr (vss pos, n)"
    using assms(3) pos by blast
  moreover have "has_section sections SECTION_VALUE"
    "at_section (ValueSectionSweep_deserialize (sf_psf f)) (img enc) sections SECTION_VALUE = Inr (vss pos)"
    unfolding img using val pos(1)
    by (intro read_section_enc [OF ok(1) mem(5) at]; auto simp: img)+
  ultimately show thesis
    using toc that [of pos]
    by (simp add: PSFFile_deserialize_def read_types_def read_sweeps_def read_traces_def
        read_values_def new_psffile_def sf_psf_def sf_typesection_def)
qed

lemma ValueSectionSweep_deserialize_enc:
  assumes "m_header psf = Some header" and "\<not> PropertyBlock_hasprop header ''PSF window size''"
    and "create_valueoffsetmap psf False = Inr (offsetmap, valuesize)" and "0 \<le> pos"
    and "int_range (pos + int (length (enc_sweepvalues data pos)))"
    and "seg img pos (enc_sweepvalues data pos)"
  shows "ValueSectionSweep_deserialize psf img pos pos
    = Inr (\<lparr>vss_windowedsweep = False, vss_valuesize = valuesize, vss_ntraces = 0, vss_offsetmap = offsetmap,
         vss_valuebuf = pos + 8, vss_endbuf = pos + 8 + int (length data)\<rparr>, 8 + int (length data))"
proof -
  define e where "e = pos + 8 + int (length data)"
  have range: "int_range e" "0 \<le> e" "int_range (e - pos)"
    using assms(4,5) by (simp_all add: enc_sweepvalues_def e_def int_range_def)
  have "seg img (4 + pos) (enc_int e)"
    using assms(6) by (simp add: enc_sweepvalues_def seg_simps e_def algebra_simps)
  note words = this [THEN GET_INT32_enc_int] uint_of_int_range [OF range(2,1)]
  have "sint (word_of_int e - word_of_int pos :: 32 word) = e - pos"
    using sint_of_int_range [OF range(3)] by simp
  moreover have "Chunk_deserialize 21 img pos = Inr 4"
    using assms(6) by (intro Chunk_deserialize_enc_int) (simp add: enc_sweepvalues_def seg_simps)
  ultimately have "ValueSectionSweep_deserialize psf img pos pos
    = Inr (\<lparr>vss_windowedsweep = False, vss_valuesize = valuesize, vss_ntraces = 0, vss_offsetmap = offsetmap,
         vss_valuebuf = pos + 8, vss_endbuf = e\<rparr>, e - pos)"
    using assms(1-3) words
    by (simp add: ValueSectionSweep_deserialize_def Let_def get_header_properties_def deref_def add.commute [of pos])
  then show ?thesis by (simp add: e_def)
qed

lemma PSFFile_deserialize_sweep:
  assumes "sections_ok f" and "create_valueoffsetmap (sf_psf f) False = Inr (offsetmap, valuesize)"
  defines "img \<equiv> enc_file (sweep_sections f)"
  obtains pos where "seg img (pos + 8) (enc_points f)" and "PSFFile_deserialize new_psffile img (int (length img))
    = Inr ((sf_psf f)\<lparr>m_sweepvalues := Some \<lparr>vss_windowedsweep = False, vss_valuesize = valuesize, vss_ntraces = 0,
        vss_offsetmap = offsetmap, vss_valuebuf = pos + 8, vss_endbuf = pos + 8 + int (length (enc_points f))\<rparr>\<rparr>)"
proof -
  have ok: "sections_with_ok f (enc_sweepvalues (enc_points f))"
    "\<not> PropertyBlock_hasprop (sf_headerblock f) ''PSF window size''"
    using assms(1) by (simp_all add: sections_ok_def)
  have "m_header (sf_psf f) = Some (sf_headerblock f)"
    by (simp add: sf_psf_def)
  note vals = ValueSectionSweep_deserialize_enc [OF this ok(2) assms(2)]
  obtain pos where "seg img pos (enc_sweepvalues (enc_points f) pos)"
    and "PSFFile_deserialize new_psffile img (int (length img))
    = Inr ((sf_psf f)\<lparr>m_sweepvalues := Some \<lparr>vss_windowedsweep = False, vss_valuesize = valuesize, vss_ntraces = 0,
        vss_offsetmap = offsetmap, vss_valuebuf = pos + 8, vss_endbuf = pos + 8 + int (length (enc_points f))\<rparr>\<rparr>)"
    unfolding img_def sweep_sections_def
    by (rule PSFFile_deserialize_with [OF ok(1), of "\<lambda>pos. \<lparr>vss_windowedsweep = False, vss_valuesize = valuesize,
        vss_ntraces = 0, vss_offsetmap = offsetmap, vss_valuebuf = pos + 8,
        vss_endbuf = pos + 8 + int (length (enc_points f))\<rparr>"]) (use vals in blast)+
  with that [of pos] show thesis
    by (simp add: enc_sweepvalues_def seg_simps algebra_simps)
qed

lemma placed_find: "placed types windowsize m refs lo hi \<Longrightarrow> r \<in> set refs \<Longrightarrow> \<exists>offset. map_find m (tr_id r) = Some offset"
  by (induction refs arbitrary: lo) (auto split: option.splits sum.splits)

text \<open>The points: the parameters and the values of the traces have the types that the file gives them.\<close>

definition points_ok :: "sweepfile \<Rightarrow> bool" where
  "points_ok f \<longleftrightarrow>
     (case sf_sweeps f of
        [] \<Rightarrow> False
      | paramtype # _ \<Rightarrow>
          (case DataTypeRef_get_datatype (sf_typesection f) paramtype of
             Inr ptd \<Rightarrow> param_ok (sf_typesection f) paramtype ptd (sf_npoints f) (sf_params f)
           | Inl e \<Rightarrow> False))
     \<and> list_all (ref_values_ok (sf_typesection f) (sf_vals f) (sf_npoints f)) (sf_refs f)
     \<and> distinct (map tr_id (sf_refs f))
     \<and> (case create_valueoffsetmap (sf_psf f) False of Inr r \<Rightarrow> True | Inl e \<Rightarrow> False)
     \<and> (case header_int (sf_psf f) ''PSF sweeps'' of Inr k \<Rightarrow> 0 < k | Inl e \<Rightarrow> False)
     \<and> header_int (sf_psf f) ''PSF sweep points'' = Inr (int (sf_npoints f))"

text \<open>Every trace of the layout is a column that the open file stores.\<close>

lemma simple_file_stored:
  assumes "sections_ok f" and "points_ok f"
  obtains ds vss paramtype ptd m where "PSFDataSet_new (Some (enc_file (sweep_sections f))) = Inr ds"
    "ds_psf ds = (sf_psf f)\<lparr>m_sweepvalues := Some vss\<rparr>" "\<not> ds_invertstruct ds"
    "\<And>r td. r \<in> set (sf_refs f) \<Longrightarrow> DataTypeRef_get_datatype (sf_typesection f) r = Inr td \<Longrightarrow>
       \<exists>offset. simple_stored ds (sf_npoints f) vss paramtype ptd (sf_params f)
         [(r, td, offset, map (sf_vals f (tr_id r)) [0..<sf_npoints f])]"
    "simple_stored ds (sf_npoints f) vss paramtype ptd (sf_params f) []"
proof -
  define N where "N = sf_npoints f"
  define types where "types = sf_typesection f"
  from assms(2) obtain paramtype sweeps ptd m valuesize where
    param: "sf_sweeps f = paramtype # sweeps" "DataTypeRef_get_datatype types paramtype = Inr ptd"
      "param_ok types paramtype ptd N (sf_params f)"
    and vals: "list_all (ref_values_ok types (sf_vals f) N) (layout_refs types (sf_traces f))"
    and dist: "distinct (map tr_id (layout_refs types (sf_traces f)))"
    and layout: "create_valueoffsetmap (sf_psf f) False = Inr (m, valuesize)"
    and header: "case header_int (sf_psf f) ''PSF sweeps'' of Inr k \<Rightarrow> 0 < k | Inl e \<Rightarrow> False"
      "header_int (sf_psf f) ''PSF sweep points'' = Inr (int N)"
    by (auto simp: points_ok_def N_def types_def sf_refs_def split: list.splits sum.splits)
  obtain pos where pts: "seg (enc_file (sweep_sections f)) (pos + 8) (enc_points f)"
    and read: "PSFFile_deserialize new_psffile (enc_file (sweep_sections f)) (int (length (enc_file (sweep_sections f))))
    = Inr ((sf_psf f)\<lparr>m_sweepvalues := Some \<lparr>vss_windowedsweep = False, vss_valuesize = valuesize, vss_ntraces = 0,
        vss_offsetmap = m, vss_valuebuf = pos + 8, vss_endbuf = pos + 8 + int (length (enc_points f))\<rparr>\<rparr>)"
    using PSFFile_deserialize_sweep [OF assms(1) layout] .
  define vss where "vss = \<lparr>vss_windowedsweep = False, vss_valuesize = valuesize, vss_ntraces = 0,
        vss_offsetmap = m, vss_valuebuf = pos + 8, vss_endbuf = pos + 8 + int (length (enc_points f))\<rparr>"
  define ds where "ds = \<lparr>ds_psf = (sf_psf f)\<lparr>m_sweepvalues := Some vss\<rparr>, ds_image = enc_file (sweep_sections f),
    ds_invertstruct = False, ds_is_open = True\<rparr>"
  have "file_ok (sweep_sections f)"
    using assms(1) by (simp add: sections_ok_def sections_with_ok_def sweep_sections_def)
  from PSFDataSet_new_enc [OF this read] have new: "PSFDataSet_new (Some (enc_file (sweep_sections f))) = Inr ds"
    by (simp add: ds_def vss_def)
  have keys: "header_int (ds_psf ds) key = header_int (sf_psf f) key" for key
    by (simp add: ds_def header_int_def get_header_properties_def)
  have "sweep_open ds N vss"
    using header by (simp add: sweep_open_def keys) (simp add: ds_def)
  moreover have "get_paramtype (ds_psf ds) = Inr paramtype"
    by (simp add: ds_def get_paramtype_def get_sweep_section_def deref_def sf_psf_def param(1))
  moreover have types': "m_types (ds_psf ds) = types"
    by (simp add: ds_def sf_psf_def types_def)
  ultimately have stored: "simple_stored ds N vss paramtype ptd (sf_params f) cols"
    if "list_all (column_ok types vss N) cols"
      "\<forall>i < N. point_at (ds_image ds) paramtype ptd (sf_params f) cols i
         (pos + 8 + int i * (8 + td_datasize ptd + valuesize))" for cols
    using param(3) that by (simp add: simple_stored_def list_all_iff vss_def)
  have lay: "simple_layout types (sf_traces f) 0 0 [] = Inr (m, valuesize)"
    using layout by (simp add: create_valueoffsetmap_def get_trace_section_def deref_def sf_psf_def types_def)
  note sto = simple_layout_stored [OF lay _ vals _ dist, simplified]
  have psize: "int (length (enc_value ptd (sf_params f ! i))) = td_datasize ptd" if "i < N" for i
    using param(3) that by (simp add: param_ok_def value_ok_length)
  have "\<forall>i < N. int (length (enc_point f paramtype ptd i)) = 8 + td_datasize ptd + valuesize"
    using sto psize by (simp add: enc_point_def types_def)
  moreover have "seg (ds_image ds) (pos + 8) (concat (map (enc_point f paramtype ptd) [0..<N]))"
    using pts param by (simp add: ds_def enc_points_def types_def N_def)
  ultimately have point: "seg (ds_image ds) (pos + 8 + int i * (8 + td_datasize ptd + valuesize)) (enc_point f paramtype ptd i)"
    if "i < N" for i
    using seg_concat_nth that by blast
  show thesis
  proof (rule that [OF new])
    fix r td assume r: "r \<in> set (sf_refs f)" "DataTypeRef_get_datatype (sf_typesection f) r = Inr td"
    then have r': "r \<in> set (layout_refs types (sf_traces f))" "DataTypeRef_get_datatype types r = Inr td"
      by (simp_all add: sf_refs_def types_def)
    have at: "\<exists>offset. map_find m (tr_id r) = Some offset \<and>
      seg (ds_image ds) (pos + 8 + int i * (8 + td_datasize ptd + valuesize) + 8 + td_datasize ptd + offset)
        (enc_value td (sf_vals f (tr_id r) i))" if i: "i < N" for i
    proof -
      let ?base = "pos + 8 + int i * (8 + td_datasize ptd + valuesize) + 8 + td_datasize ptd"
      have "seg (ds_image ds) ?base (concat (map (enc_child_point types (sf_vals f) i) (sf_traces f)))"
        using point [OF i] psize [OF i] by (simp add: enc_point_def seg_simps types_def algebra_simps)
      with sto [OF i] have "stored_at (enc_ref_value types (sf_vals f) i) m (ds_image ds) ?base (layout_refs types (sf_traces f))"
        by blast
      with r' show ?thesis
        by (auto simp: stored_at_def enc_ref_value_def)
    qed
    have wf: "typedef_wf td" "\<forall>i < N. value_ok td (sf_vals f (tr_id r) i)"
      using vals r' by (auto simp: list_all_iff ref_values_ok_def)
    obtain offset where offset: "map_find m (tr_id r) = Some offset"
      using simple_layout_placed [OF lay map_ok_Nil dist] placed_find [OF _ r'(1)] by blast
    have "simple_stored ds N vss paramtype ptd (sf_params f)
         [(r, td, offset, map (sf_vals f (tr_id r)) [0..<N])]"
      using stored r' wf offset at point
      by (auto simp: column_ok_def get_valueoffset_def vss_def point_at_def enc_point_def seg_simps)
    then show "\<exists>offset. simple_stored ds (sf_npoints f) vss paramtype ptd (sf_params f)
         [(r, td, offset, map (sf_vals f (tr_id r)) [0..<sf_npoints f])]"
      by (auto simp: N_def)
  next
    show "simple_stored ds (sf_npoints f) vss paramtype ptd (sf_params f) []"
      using stored [of "[]"] point by (simp add: N_def point_at_def enc_point_def seg_simps)
  qed (simp_all add: ds_def)
qed

end
