(* ===== verification/WindowImage.thy ===== *)
theory WindowImage
  imports SweepImage
begin

section \<open>Files with a sweep in windows, written and read back\<close>

text \<open>
  The values of a sweep in windows: a pad, then the windows. A window gives the number of its points
  in the low half of a word, then the parameters of the points and for each trace a part of the size
  that the header gives, with the values of the trace at its end. The bytes of the pad and those
  before the values may be anything.
\<close>

subsection \<open>The encoding\<close>

record windowfile =
  wf_base :: sweepfile
  wf_pad :: "8 word list"
  wf_size :: nat
  wf_windows :: "32 word list"
  wf_unused :: "int \<Rightarrow> nat \<Rightarrow> 8 word"

definition wf_refs :: "windowfile \<Rightarrow> datatyperef list" where
  "wf_refs f = concat (map gd_children (groups (sf_traces (wf_base f))))"

definition window_points :: "32 word \<Rightarrow> nat" where
  "window_points w = nat (take_bit 16 (uint w))"

definition enc_trace_values :: "windowfile \<Rightarrow> nat \<Rightarrow> nat \<Rightarrow> datatyperef \<Rightarrow> 8 word list" where
  "enc_trace_values f i n r =
     concat (map (\<lambda>j. enc_ref_value (sf_typesection (wf_base f)) (sf_vals (wf_base f)) j r) [i..<i + n])"

definition enc_trace_window :: "windowfile \<Rightarrow> nat \<Rightarrow> nat \<Rightarrow> datatyperef \<Rightarrow> 8 word list" where
  "enc_trace_window f i n r = (let data = enc_trace_values f i n r in
     map (wf_unused f (tr_id r)) [0..<wf_size f - length data] @ data)"

definition enc_window :: "windowfile \<Rightarrow> datatypedef \<Rightarrow> nat \<Rightarrow> 32 word \<Rightarrow> 8 word list" where
  "enc_window f ptd i w = (let n = window_points w in
     enc_int 16 @ enc32 w @ concat (map (enc_value ptd) (take n (drop i (sf_params (wf_base f)))))
     @ concat (map (enc_trace_window f i n) (wf_refs f)))"

fun enc_windows :: "windowfile \<Rightarrow> datatypedef \<Rightarrow> nat \<Rightarrow> 32 word list \<Rightarrow> 8 word list" where
  "enc_windows f ptd i [] = []"
| "enc_windows f ptd i (w # ws) = enc_window f ptd i w @ enc_windows f ptd (i + window_points w) ws"

definition wf_data :: "windowfile \<Rightarrow> 8 word list" where
  "wf_data f =
     (case sf_sweeps (wf_base f) of
        [] \<Rightarrow> []
      | paramtype # _ \<Rightarrow>
          (case DataTypeRef_get_datatype (sf_typesection (wf_base f)) paramtype of
             Inr ptd \<Rightarrow> enc_windows f ptd 0 (wf_windows f)
           | Inl e \<Rightarrow> []))"

definition enc_windowvalues :: "8 word list \<Rightarrow> 8 word list \<Rightarrow> int \<Rightarrow> 8 word list" where
  "enc_windowvalues pad data pos =
     enc_int 21 @ enc_int (pos + 16 + int (length pad) + int (length data))
     @ enc_int 20 @ enc_int (int (length pad)) @ pad @ data"

definition window_sections :: "windowfile \<Rightarrow> (int \<times> (int \<Rightarrow> 8 word list)) list" where
  "window_sections f = sections_with (wf_base f) (enc_windowvalues (wf_pad f) (wf_data f))"

subsection \<open>The section of the values\<close>

lemma ZeroPad_deserialize_enc:
  assumes "seg img pos (enc_int 20 @ enc_int (int (length pad)) @ pad)" and "int_range (8 + int (length pad))"
  shows "ZeroPad_deserialize img pos = Inr (8 + int (length pad))"
proof -
  have "int_range (int (length pad))"
    using assms(2) by (simp add: int_range_def)
  then have "uint (word_of_int (int (length pad)) :: 32 word) = int (length pad)"
    by (intro uint_of_int_range) simp
  moreover have "Chunk_deserialize 20 img pos = Inr 4" "seg img (4 + pos) (enc_int (int (length pad)))"
    using assms(1) by (auto simp: seg_simps algebra_simps intro!: Chunk_deserialize_enc_int)
  note this(1) GET_INT32_enc_int [OF this(2)]
  ultimately show ?thesis
    using sint_of_int_range [OF assms(2)] by (simp add: ZeroPad_deserialize_def Let_def algebra_simps)
qed

lemma ValueSectionSweep_deserialize_enc_windows:
  assumes "m_header psf = Some header" and "PropertyBlock_hasprop header ''PSF window size''"
    and "create_valueoffsetmap psf True = Inr (offsetmap, valuesize)" and "0 \<le> pos"
    and "int_range (pos + int (length (enc_windowvalues pad data pos)))"
    and "seg img pos (enc_windowvalues pad data pos)"
  shows "ValueSectionSweep_deserialize psf img pos pos
    = Inr (\<lparr>vss_windowedsweep = True, vss_valuesize = valuesize, vss_ntraces = 0, vss_offsetmap = offsetmap,
         vss_valuebuf = pos + 16 + int (length pad), vss_endbuf = pos + 16 + int (length pad) + int (length data)\<rparr>,
         16 + int (length pad) + int (length data))"
proof -
  define e where "e = pos + 16 + int (length pad) + int (length data)"
  have range: "int_range e" "0 \<le> e" "int_range (e - pos)" "int_range (8 + int (length pad))"
    using assms(4,5) by (simp_all add: enc_windowvalues_def e_def int_range_def)
  have at: "seg img (4 + pos) (enc_int e)" "seg img (8 + pos) (enc_int 20 @ enc_int (int (length pad)) @ pad)"
    using assms(6) by (simp_all add: enc_windowvalues_def seg_simps e_def algebra_simps)
  note words = at(1) [THEN GET_INT32_enc_int] uint_of_int_range [OF range(2,1)]
    ZeroPad_deserialize_enc [OF at(2) range(4)]
  have "sint (word_of_int e - word_of_int pos :: 32 word) = e - pos"
    using sint_of_int_range [OF range(3)] by simp
  moreover have "Chunk_deserialize 21 img pos = Inr 4"
    using assms(6) by (intro Chunk_deserialize_enc_int) (simp add: enc_windowvalues_def seg_simps)
  ultimately have "ValueSectionSweep_deserialize psf img pos pos
    = Inr (\<lparr>vss_windowedsweep = True, vss_valuesize = valuesize, vss_ntraces = 0, vss_offsetmap = offsetmap,
         vss_valuebuf = 8 + pos + (8 + int (length pad)), vss_endbuf = e\<rparr>, e - pos)"
    using assms(1-3) words
    by (simp add: ValueSectionSweep_deserialize_def Let_def get_header_properties_def deref_def add.commute [of pos])
  then show ?thesis by (simp add: e_def)
qed

subsection \<open>The parts of a window\<close>

lemma windowed_layout_stored:
  assumes "windowed_layout types windowsize children offset valuesize m = Inr (m', valuesize')" and "map_ok m"
    and "list_all (\<lambda>r. ref_bytes types windowsize r = Inr (int (length (enc r)))) (concat (map gd_children (groups children)))"
    and "distinct (map tr_id (concat (map gd_children (groups children))))"
    and "seg img (base + offset) (concat (map enc (concat (map gd_children (groups children)))))"
  shows "stored_at enc m' img base (concat (map gd_children (groups children)))"
  using assms
proof (induction children arbitrary: offset valuesize m)
  case Nil
  then show ?case by (simp add: stored_at_def)
next
  case (Cons ch children)
  define refs where "refs = concat (map gd_children (groups children))"
  from Cons.prems(1) obtain g m1 n where g: "ch = GroupDefChunk g"
      "fill_offsetmap types g m windowsize offset = Inr (m1, n)"
    and rest: "windowed_layout types windowsize children (offset + n) (valuesize + n) m1 = Inr (m', valuesize')"
    by (cases ch) (auto simp: windowed_child_def res_simps)
  have ok: "list_all (\<lambda>r. ref_bytes types windowsize r = Inr (int (length (enc r)))) (gd_children g)"
      "list_all (\<lambda>r. ref_bytes types windowsize r = Inr (int (length (enc r)))) refs"
    and dist: "distinct (map tr_id (gd_children g))" "distinct (map tr_id refs)"
      "\<forall>r \<in> set (gd_children g). tr_id r \<notin> tr_id ` set refs"
    using Cons.prems(3,4) by (auto simp: g refs_def)
  note place = fill_offsetmap_placed [OF g(2) Cons.prems(2)]
  note head = fill_offsetmap_stored [OF g(2) Cons.prems(2) ok(1) dist(1)]
  have m1: "map_ok m1"
    using place by blast
  have segs: "seg img (base + offset) (concat (map enc (gd_children g)))"
    "seg img (base + (offset + n)) (concat (map enc refs))"
    using Cons.prems(5) head by (simp_all add: g seg_simps refs_def algebra_simps)
  have "\<forall>r \<in> set (gd_children g). map_find m' (tr_id r) = map_find m1 (tr_id r)"
    using windowed_layout_placed [OF rest m1] dist(2,3) by (simp add: refs_def)
  with head segs(1) have "stored_at enc m' img base (gd_children g)"
    using stored_at_cong by blast
  moreover have "stored_at enc m' img base refs"
    using Cons.IH [OF rest m1] ok(2) dist(2) segs(2) by (simp add: refs_def)
  ultimately show ?case
    by (simp add: g stored_at_append refs_def)
qed

subsection \<open>What such a file stores\<close>

text \<open>Windows of no point are allowed, but none stands behind the last point.\<close>

fun windows_fit :: "windowfile \<Rightarrow> nat \<Rightarrow> 32 word list \<Rightarrow> bool" where
  "windows_fit f i [] \<longleftrightarrow> i = sf_npoints (wf_base f)"
| "windows_fit f i (w # ws) \<longleftrightarrow> i < sf_npoints (wf_base f) \<and> i + window_points w \<le> sf_npoints (wf_base f)
     \<and> list_all (\<lambda>r. length (enc_trace_values f i (window_points w) r) \<le> wf_size f) (wf_refs f)
     \<and> windows_fit f (i + window_points w) ws"

definition windows_ok :: "windowfile \<Rightarrow> bool" where
  "windows_ok f \<longleftrightarrow> (let b = wf_base f; types = sf_typesection b; psf = sf_psf b; ntraces = int (length (wf_refs f)) in
     sections_with_ok b (enc_windowvalues (wf_pad f) (wf_data f))
     \<and> PropertyBlock_hasprop (sf_headerblock b) ''PSF window size''
     \<and> (case sf_sweeps b of
          [] \<Rightarrow> False
        | paramtype # _ \<Rightarrow>
            (case DataTypeRef_get_datatype types paramtype of
               Inr ptd \<Rightarrow> param_ok types paramtype ptd (sf_npoints b) (sf_params b)
             | Inl e \<Rightarrow> False))
     \<and> list_all (ref_values_ok types (sf_vals b) (sf_npoints b)) (wf_refs f)
     \<and> distinct (map tr_id (wf_refs f))
     \<and> (case create_valueoffsetmap psf True of Inr r \<Rightarrow> True | Inl e \<Rightarrow> False)
     \<and> (case header_int psf ''PSF sweeps'' of Inr k \<Rightarrow> 0 < k | Inl e \<Rightarrow> False)
     \<and> header_int psf ''PSF sweep points'' = Inr (int (sf_npoints b))
     \<and> header_int psf ''PSF window size'' = Inr (int (wf_size f))
     \<and> header_int psf ''PSF traces'' = Inr ntraces
     \<and> 0 < wf_size f \<and> int_range (int (wf_size f)) \<and> int_range (ntraces * int (wf_size f))
     \<and> int_range (int (sf_npoints b)) \<and> windows_fit f 0 (wf_windows f))"

lemma enc_trace_values_eq:
  assumes "DataTypeRef_get_datatype (sf_typesection (wf_base f)) r = Inr td" and "i + n \<le> N"
  shows "enc_trace_values f i n r
    = concat (map (enc_value td) (take n (drop i (map (sf_vals (wf_base f) (tr_id r)) [0..<N]))))"
  using assms by (simp add: enc_trace_values_def enc_ref_value_def drop_map take_map o_def)

lemma window_points_word: "int (window_points w) < 2 ^ 16 \<and> take_bit 16 (uint w) = int (window_points w)"
  using take_bit_int_less_exp [of 16 "uint w"] by (simp add: window_points_def)

text \<open>A column of the file: a trace, with the offset that the layout gives it.\<close>

definition file_column :: "windowfile \<Rightarrow> (int, int) stdmap \<Rightarrow> column \<Rightarrow> bool" where
  "file_column f m = (\<lambda>(r, td, offset, vs). r \<in> set (wf_refs f)
     \<and> DataTypeRef_get_datatype (sf_typesection (wf_base f)) r = Inr td \<and> map_find m (tr_id r) = Some offset
     \<and> vs = map (sf_vals (wf_base f) (tr_id r)) [0..<sf_npoints (wf_base f)]
     \<and> (\<forall>v \<in> set vs. value_ok td v))"

lemma enc_window_at:
  assumes layout: "windowed_layout (sf_typesection (wf_base f)) (int (wf_size f)) (sf_traces (wf_base f)) 0 0 []
      = Inr (m, valuesize)"
    and size: "0 < wf_size f" "int_range (int (wf_size f))"
    and dist: "distinct (map tr_id (wf_refs f))"
    and params: "length (sf_params (wf_base f)) = N" "\<forall>p \<in> set (sf_params (wf_base f)). value_ok ptd p"
    and N: "N = sf_npoints (wf_base f)" and cols: "list_all (file_column f m) cols"
    and fit: "i + window_points w \<le> N"
      "list_all (\<lambda>r. length (enc_trace_values f i (window_points w) r) \<le> wf_size f) (wf_refs f)"
    and seg: "seg img buf (enc_window f ptd i w)"
  shows "window_at img ptd (sf_params (wf_base f)) cols (int (wf_size f)) i (window_points w) buf"
    and "int (length (enc_window f ptd i w))
      = 8 + int (window_points w) * td_datasize ptd + int (length (wf_refs f)) * int (wf_size f)"
proof -
  define n where "n = window_points w"
  define ps where "ps = take n (drop i (sf_params (wf_base f)))"
  define base where "base = buf + 8 + int n * td_datasize ptd"
  have part: "length (enc_trace_window f i n r) = wf_size f" if "r \<in> set (wf_refs f)" for r
    using fit(2) that by (simp add: enc_trace_window_def Let_def list_all_iff n_def)
  have "length ps = n" "\<forall>p \<in> set ps. value_ok ptd p"
    using fit(1) params by (auto simp: ps_def n_def dest!: in_set_takeD in_set_dropD)
  then have plen: "int (length (concat (map (enc_value ptd) ps))) = int n * td_datasize ptd"
    using length_values by metis
  have "length (concat (map (enc_trace_window f i n) refs)) = length refs * wf_size f"
    if "set refs \<subseteq> set (wf_refs f)" for refs
    using that by (induction refs) (simp_all add: part)
  then show "int (length (enc_window f ptd i w))
      = 8 + int (window_points w) * td_datasize ptd + int (length (wf_refs f)) * int (wf_size f)"
    using plen by (simp add: enc_window_def Let_def flip: n_def ps_def)
  have segs: "seg img buf (enc_int 16)" "seg img (buf + 4) (enc32 w)"
    "seg img (buf + 8) (concat (map (enc_value ptd) ps))"
    "seg img (base + 0) (concat (map (enc_trace_window f i n) (wf_refs f)))"
    using seg plen by (simp_all add: enc_window_def Let_def seg_simps base_def algebra_simps flip: n_def ps_def)
  have "list_all (\<lambda>r. ref_bytes (sf_typesection (wf_base f)) (int (wf_size f)) r
      = Inr (int (length (enc_trace_window f i n r)))) (wf_refs f)"
    using part size(1) by (simp add: list_all_iff ref_bytes_def)
  from windowed_layout_stored [OF layout map_ok_Nil this [unfolded wf_refs_def] dist [unfolded wf_refs_def]]
  have stored: "stored_at (enc_trace_window f i n) m img base (wf_refs f)"
    using segs(4) by (simp add: wf_refs_def)
  have "int_range (int n * td_datasize td) \<and> int_range (int (wf_size f) - int n * td_datasize td) \<and>
       seg img (base + offset + (int (wf_size f) - int n * td_datasize td))
         (concat (map (enc_value td) (take n (drop i vs))))" if "(r, td, offset, vs) \<in> set cols" for r td offset vs
  proof -
    have col: "r \<in> set (wf_refs f)" "DataTypeRef_get_datatype (sf_typesection (wf_base f)) r = Inr td"
      "map_find m (tr_id r) = Some offset" "vs = map (sf_vals (wf_base f) (tr_id r)) [0..<N]"
      "\<forall>v \<in> set vs. value_ok td v"
      using cols that by (auto simp: list_all_iff file_column_def N)
    define data where "data = concat (map (enc_value td) (take n (drop i vs)))"
    have data: "enc_trace_values f i n r = data"
      using enc_trace_values_eq [OF col(2) fit(1)] by (simp add: data_def col(4) n_def)
    have "length (take n (drop i vs)) = n"
      using fit(1) col(4) by (simp add: n_def)
    moreover have "\<forall>v \<in> set (take n (drop i vs)). value_ok td v"
      using col(5) by (auto dest!: in_set_takeD in_set_dropD)
    ultimately have len: "int (length data) = int n * td_datasize td"
      unfolding data_def using length_values by metis
    have fits: "length data \<le> wf_size f"
      using fit(2) col(1) data by (auto simp: list_all_iff n_def)
    have "seg img (base + offset) (enc_trace_window f i n r)"
      using stored col(1,3) by (auto simp: stored_at_def)
    then have "seg img (base + offset + (int (wf_size f) - int (length data))) data"
      using fits by (simp add: enc_trace_window_def Let_def data seg_simps of_nat_diff)
    then show ?thesis
      using fits size(2) unfolding data_def [symmetric] len [symmetric] by (auto simp: int_range_def)
  qed
  then show "window_at img ptd (sf_params (wf_base f)) cols (int (wf_size f)) i (window_points w) buf"
    using segs(1-3) window_points_word [of w]
    by (auto simp: window_at_def list_all_iff base_def decodes n_def ps_def)
qed

lemma enc_windows_at:
  assumes layout: "windowed_layout (sf_typesection (wf_base f)) (int (wf_size f)) (sf_traces (wf_base f)) 0 0 []
      = Inr (m, valuesize)"
    and size: "0 < wf_size f" "int_range (int (wf_size f))"
    and dist: "distinct (map tr_id (wf_refs f))"
    and params: "length (sf_params (wf_base f)) = N" "\<forall>p \<in> set (sf_params (wf_base f)). value_ok ptd p"
    and N: "N = sf_npoints (wf_base f)" and cols: "list_all (file_column f m) cols"
  shows "windows_fit f i ws \<Longrightarrow> seg img buf (enc_windows f ptd i ws) \<Longrightarrow>
    windows_at img ptd (sf_params (wf_base f)) cols (int (wf_size f)) (int (length (wf_refs f))) N
      (map window_points ws) i buf"
proof (induction ws arbitrary: i buf)
  case (Cons w ws)
  then have fit: "i + window_points w \<le> N"
    "list_all (\<lambda>r. length (enc_trace_values f i (window_points w) r) \<le> wf_size f) (wf_refs f)"
    and seg: "seg img buf (enc_window f ptd i w)"
      "seg img (buf + int (length (enc_window f ptd i w))) (enc_windows f ptd (i + window_points w) ws)"
    by (simp_all add: N seg_simps)
  note window = enc_window_at [OF layout size dist params N cols fit seg(1)]
  show ?case
    using Cons.IH [OF _ seg(2)] Cons.prems(1) window by (simp add: N)
qed (simp add: N)

lemma window_file_stored:
  assumes "windows_ok f"
  obtains ds vss paramtype ptd windowsize ntraces ns where
    "PSFDataSet_new (Some (enc_file (window_sections f))) = Inr ds"
    "ds_psf ds = (sf_psf (wf_base f))\<lparr>m_sweepvalues := Some vss\<rparr>" "\<not> ds_invertstruct ds"
    "\<And>r td. r \<in> set (wf_refs f) \<Longrightarrow> DataTypeRef_get_datatype (sf_typesection (wf_base f)) r = Inr td \<Longrightarrow>
       \<exists>offset. windowed_stored ds (sf_npoints (wf_base f)) vss paramtype ptd (sf_params (wf_base f))
         [(r, td, offset, map (sf_vals (wf_base f) (tr_id r)) [0..<sf_npoints (wf_base f)])] windowsize ntraces ns"
    "windowed_stored ds (sf_npoints (wf_base f)) vss paramtype ptd (sf_params (wf_base f)) [] windowsize ntraces ns"
proof -
  define b where "b = wf_base f"
  define N where "N = sf_npoints b"
  define types where "types = sf_typesection b"
  define ntraces where "ntraces = int (length (wf_refs f))"
  define windowsize where "windowsize = int (wf_size f)"
  have ok: "sections_with_ok b (enc_windowvalues (wf_pad f) (wf_data f))"
    "PropertyBlock_hasprop (sf_headerblock b) ''PSF window size''"
    "list_all (ref_values_ok types (sf_vals b) N) (wf_refs f)" "distinct (map tr_id (wf_refs f))"
    and header: "case header_int (sf_psf b) ''PSF sweeps'' of Inr k \<Rightarrow> 0 < k | Inl e \<Rightarrow> False"
      "header_int (sf_psf b) ''PSF sweep points'' = Inr (int N)"
      "header_int (sf_psf b) ''PSF window size'' = Inr windowsize" "header_int (sf_psf b) ''PSF traces'' = Inr ntraces"
    and ranges: "0 < wf_size f" "int_range (int (wf_size f))" "int_range (ntraces * windowsize)" "int_range (int N)"
    and fit: "windows_fit f 0 (wf_windows f)"
    using assms by (simp_all add: windows_ok_def Let_def b_def N_def types_def ntraces_def windowsize_def)
  from assms obtain paramtype sweeps ptd m valuesize where
    param: "sf_sweeps b = paramtype # sweeps" "DataTypeRef_get_datatype types paramtype = Inr ptd"
      "param_ok types paramtype ptd N (sf_params b)"
    and layout: "create_valueoffsetmap (sf_psf b) True = Inr (m, valuesize)"
    by (auto simp: windows_ok_def Let_def b_def N_def types_def split: list.splits sum.splits)
  have lay: "windowed_layout types windowsize (sf_traces b) 0 0 [] = Inr (m, valuesize)"
    using layout header(3)
    by (simp add: create_valueoffsetmap_def get_trace_section_def deref_def) (simp add: sf_psf_def types_def)
  have "m_header (sf_psf b) = Some (sf_headerblock b)"
    by (simp add: sf_psf_def)
  note vals = ValueSectionSweep_deserialize_enc_windows [OF this ok(2) layout]
  define vss where "vss pos = \<lparr>vss_windowedsweep = True, vss_valuesize = valuesize, vss_ntraces = 0, vss_offsetmap = m,
    vss_valuebuf = pos + 16 + int (length (wf_pad f)),
    vss_endbuf = pos + 16 + int (length (wf_pad f)) + int (length (wf_data f))\<rparr>" for pos
  obtain pos where pos: "seg (enc_file (window_sections f)) pos (enc_windowvalues (wf_pad f) (wf_data f) pos)"
    and read: "PSFFile_deserialize new_psffile (enc_file (window_sections f)) (int (length (enc_file (window_sections f))))
      = Inr ((sf_psf b)\<lparr>m_sweepvalues := Some (vss pos)\<rparr>)"
    unfolding window_sections_def b_def [symmetric]
    by (rule PSFFile_deserialize_with [OF ok(1), of vss]) (use vals in \<open>unfold vss_def, blast\<close>)+
  define ds where "ds = \<lparr>ds_psf = (sf_psf b)\<lparr>m_sweepvalues := Some (vss pos)\<rparr>, ds_image = enc_file (window_sections f),
    ds_invertstruct = False, ds_is_open = True\<rparr>"
  have "file_ok (window_sections f)"
    using ok(1) by (simp add: window_sections_def sections_with_ok_def b_def)
  from PSFDataSet_new_enc [OF this read] have new: "PSFDataSet_new (Some (enc_file (window_sections f))) = Inr ds"
    by (simp add: ds_def)
  have keys: "header_int (ds_psf ds) key = header_int (sf_psf b) key" for key
    by (simp add: ds_def header_int_def get_header_properties_def)
  have opened: "sweep_open ds N (vss pos)"
    using header by (simp add: sweep_open_def keys) (simp add: ds_def)
  have paramtype: "get_paramtype (ds_psf ds) = Inr paramtype"
    by (simp add: ds_def get_paramtype_def get_sweep_section_def deref_def sf_psf_def param(1))
  have types': "m_types (ds_psf ds) = types"
    by (simp add: ds_def sf_psf_def types_def)
  have buf: "seg (ds_image ds) (vss_valuebuf (vss pos)) (enc_windows f ptd 0 (wf_windows f))"
    using pos param by (simp add: ds_def vss_def enc_windowvalues_def seg_simps wf_data_def types_def b_def algebra_simps)
  have pok: "length (sf_params (wf_base f)) = N" "\<forall>p \<in> set (sf_params (wf_base f)). value_ok ptd p"
    using param(3) by (simp_all add: param_ok_def b_def)
  have stored: "windowed_stored ds N (vss pos) paramtype ptd (sf_params b) cols windowsize ntraces
      (map window_points (wf_windows f))"
    if "list_all (column_ok types (vss pos) N) cols" "list_all (file_column f m) cols" for cols
    using enc_windows_at [OF lay [unfolded types_def b_def windowsize_def] ranges(1,2) ok(4) pok N_def [unfolded b_def] that(2) fit buf]
      opened paramtype header(3,4) ranges(3,4) param(3) that(1)
    by (simp add: windowed_stored_def keys types' vss_def ntraces_def windowsize_def b_def)
  show thesis
  proof (rule that [OF new, unfolded b_def [symmetric] N_def [symmetric] types_def [symmetric]])
    fix r td assume r: "r \<in> set (wf_refs f)" "DataTypeRef_get_datatype types r = Inr td"
    then have wf: "typedef_wf td" "\<forall>i < N. value_ok td (sf_vals b (tr_id r) i)"
      using ok(3) by (auto simp: list_all_iff ref_values_ok_def)
    have "placed types windowsize m (wf_refs f) 0 (0 + (valuesize - 0))"
      using windowed_layout_placed [OF lay map_ok_Nil] ok(4) by (simp add: wf_refs_def b_def)
    then obtain offset where offset: "map_find m (tr_id r) = Some offset"
      using placed_find [OF _ r(1)] by blast
    then show "\<exists>offset. windowed_stored ds N (vss pos) paramtype ptd (sf_params b)
         [(r, td, offset, map (sf_vals b (tr_id r)) [0..<N])] windowsize ntraces (map window_points (wf_windows f))"
      using r wf
      by (intro exI [of _ offset] stored)
        (auto simp: column_ok_def get_valueoffset_def vss_def file_column_def types_def b_def N_def)
  qed (use stored [of "[]"] in \<open>simp_all add: ds_def\<close>)
qed

end
