(* ===== verification/Handles.thy ===== *)
theory Handles
  imports DataSet
begin

section \<open>Descriptors and mappings (src/psffile.cc, src/psf.cc)\<close>

text \<open>
  The same operations as in \<open>PsfFile\<close> and \<open>DataSet\<close>, with what they hold of the operating system: a
  \<open>PSFFile\<close> keeps a descriptor and the address and size of a mapping. Several data sets live in one
  process. The memory of the process says which bytes are mapped at an address; \<open>mmap\<close> and \<open>munmap\<close>
  work on whole pages. What \<open>::open\<close>, \<open>mmap\<close> and \<open>::close\<close> return is a parameter.
\<close>

subsection \<open>The process\<close>

record process =
  pr_mem :: "int \<Rightarrow> 8 word option"
  pr_fds :: "int list"

definition page_size :: int where "page_size = 4096"

definition pages :: "int \<Rightarrow> int" where
  "pages n = ((n + page_size - 1) div page_size) * page_size"

text \<open>The rest of the last page is zero.\<close>

definition posix_mmap :: "int \<Rightarrow> image \<Rightarrow> process \<Rightarrow> process" where
  "posix_mmap a file p = p\<lparr>pr_mem := \<lambda>x.
     if a \<le> x \<and> x < a + pages (int (length file))
     then Some (if x < a + int (length file) then file ! nat (x - a) else 0)
     else pr_mem p x\<rparr>"

text \<open>An address that is not that of a page, or no size, is an error, which the code does not look at.\<close>

definition posix_munmap :: "int \<Rightarrow> int \<Rightarrow> process \<Rightarrow> process" where
  "posix_munmap a n p =
     (if 0 < n \<and> a mod page_size = 0
      then p\<lparr>pr_mem := \<lambda>x. if a \<le> x \<and> x < a + pages n then None else pr_mem p x\<rparr>
      else p)"

text \<open>The bytes from an address on, if all of them are mapped.\<close>

definition image_at :: "process \<Rightarrow> int \<Rightarrow> int \<Rightarrow> image" where
  "image_at p a n =
     (if list_all (\<lambda>i. pr_mem p (a + int i) \<noteq> None) [0..<nat n]
      then map (\<lambda>i. the (pr_mem p (a + int i))) [0..<nat n] else [])"

subsection \<open>Files and data sets\<close>

text \<open>
  \<open>h_buffer\<close> is \<open>None\<close> before the first \<open>open\<close>, which is the first to give it a value; \<open>h_size\<close> has none
  either then, and is not read.
\<close>

record handle =
  h_fd :: int
  h_buffer :: "int option"
  h_size :: int

record hdataset =
  hd_psf :: psffile
  hd_file :: handle
  hd_invertstruct :: bool
  hd_is_open :: bool

definition new_handle :: handle where
  "new_handle = \<lparr>h_fd = -1, h_buffer = None, h_size = 0\<rparr>"

text \<open>
  \<open>opened\<close>: the descriptor that \<open>::open\<close> returns, with what is in the file; \<open>addr\<close>: where \<open>mmap\<close> puts it,
  \<open>None\<close> for \<open>MAP_FAILED\<close>, the address \<open>-1\<close>. The sections that a failed \<open>open\<close> leaves are not followed.
\<close>

definition handle_open :: "(int \<times> image) option \<Rightarrow> int option \<Rightarrow> psffile \<Rightarrow> handle \<Rightarrow> process
    \<Rightarrow> process \<times> handle \<times> psffile res" where
  "handle_open opened addr psf h p =
     (case opened of
        None \<Rightarrow> (p, h\<lparr>h_fd := -1\<rparr>, Inl (Throw FileOpenError))
      | Some (fd, file) \<Rightarrow>
          (let p = p\<lparr>pr_fds := fd # pr_fds p\<rparr>;
               m_size = mapped_size file;
               mmap = (case addr of Some a \<Rightarrow> if 0 < m_size then Some a else None | None \<Rightarrow> None);
               p = (case mmap of Some a \<Rightarrow> posix_mmap a (mapped file) p | None \<Rightarrow> p);
               m_buffer = (case mmap of Some a \<Rightarrow> a | None \<Rightarrow> -1)
           in (p, \<lparr>h_fd = fd, h_buffer = Some m_buffer, h_size = m_size\<rparr>,
               rbind (PSFFile_validate file) (\<lambda>valid.
               if valid then PSFFile_deserialize psf (image_at p m_buffer m_size) m_size
               else Inl (Throw InvalidFileError)))))"

definition handle_close :: "bool \<Rightarrow> handle \<Rightarrow> process \<Rightarrow> process \<times> handle \<times> unit res" where
  "handle_close close_ok h p =
     (case h_buffer h of
        None \<Rightarrow> (p, h, Inl (Undefined Uninitialised))
      | Some m_buffer \<Rightarrow>
          (let p = posix_munmap m_buffer (h_size h) p in
           if h_fd h \<noteq> -1
           then if close_ok then (p\<lparr>pr_fds := remove1 (h_fd h) (pr_fds p)\<rparr>, h\<lparr>h_fd := -1\<rparr>, Inr ())
             else (p, h, Inl (Throw FileCloseError))
           else (p, h, Inr ())))"

text \<open>The data set: an exception out of the constructor leaves no object behind.\<close>

definition hd_open :: "(int \<times> image) option \<Rightarrow> int option \<Rightarrow> hdataset \<Rightarrow> process \<Rightarrow> process \<times> hdataset \<times> unit res" where
  "hd_open opened addr d p =
     (if \<not> hd_is_open d
      then (case handle_open opened addr (hd_psf d) (hd_file d) p of (p, h, r) \<Rightarrow>
        (case r of
           Inl e \<Rightarrow> (p, d\<lparr>hd_file := h\<rparr>, Inl e)
         | Inr psf \<Rightarrow> (p, d\<lparr>hd_psf := psf, hd_file := h, hd_is_open := True\<rparr>, Inr ())))
      else (p, d, Inr ()))"

definition hd_new :: "(int \<times> image) option \<Rightarrow> int option \<Rightarrow> process \<Rightarrow> process \<times> hdataset res" where
  "hd_new opened addr p =
     (case hd_open opened addr
         \<lparr>hd_psf = new_psffile, hd_file = new_handle, hd_invertstruct = False, hd_is_open = False\<rparr> p of
        (p, d, r) \<Rightarrow> (p, rbind r (\<lambda>u. Inr d)))"

definition hd_close :: "bool \<Rightarrow> hdataset \<Rightarrow> process \<Rightarrow> process \<times> hdataset \<times> unit res" where
  "hd_close close_ok d p =
     (if hd_is_open d
      then (case handle_close close_ok (hd_file d) p of (p, h, r) \<Rightarrow>
        (case r of
           Inl e \<Rightarrow> (p, d\<lparr>hd_file := h\<rparr>, Inl e)
         | Inr u \<Rightarrow> (p, d\<lparr>hd_file := h, hd_is_open := False\<rparr>, Inr ())))
      else (p, d, Inr ()))"

text \<open>The destructor closes the file, and so does that of the \<open>PSFFile\<close> which it deletes.\<close>

definition handle_destroy :: "bool \<Rightarrow> handle \<Rightarrow> process \<Rightarrow> process \<times> unit res" where
  "handle_destroy close_ok h p = (case handle_close close_ok h p of (p, h, r) \<Rightarrow> (p, r))"

definition hd_destroy :: "bool \<Rightarrow> hdataset \<Rightarrow> process \<Rightarrow> process \<times> unit res" where
  "hd_destroy close_ok d p =
     (case handle_close close_ok (hd_file d) p of (p, h, r) \<Rightarrow>
        (case r of
           Inl e \<Rightarrow> (p, Inl e)
         | Inr u \<Rightarrow> handle_destroy close_ok h p))"

subsection \<open>What a data set sees\<close>

text \<open>The data set of the model without handles: its image is what is mapped at its address.\<close>

definition view :: "process \<Rightarrow> hdataset \<Rightarrow> dataset" where
  "view p d = \<lparr>ds_psf = hd_psf d,
     ds_image = (if hd_is_open d then (case h_buffer (hd_file d) of Some a \<Rightarrow> image_at p a (h_size (hd_file d)) | None \<Rightarrow> [])
       else []),
     ds_invertstruct = hd_invertstruct d, ds_is_open = hd_is_open d\<rparr>"

definition free_at :: "process \<Rightarrow> int \<Rightarrow> int \<Rightarrow> bool" where
  "free_at p a n \<longleftrightarrow> a mod page_size = 0 \<and> (\<forall>x. a \<le> x \<and> x < a + pages n \<longrightarrow> pr_mem p x = None)"

text \<open>An open data set has its pages mapped.\<close>

definition holds :: "process \<Rightarrow> hdataset \<Rightarrow> bool" where
  "holds p d \<longleftrightarrow> (hd_is_open d \<longrightarrow> (case h_buffer (hd_file d) of None \<Rightarrow> False
     | Some a \<Rightarrow> a mod page_size = 0 \<and> 0 < h_size (hd_file d)
         \<and> (\<forall>x. a \<le> x \<and> x < a + pages (h_size (hd_file d)) \<longrightarrow> pr_mem p x \<noteq> None)))"

definition apart :: "hdataset \<Rightarrow> hdataset \<Rightarrow> bool" where
  "apart d d' \<longleftrightarrow> (hd_is_open d \<and> hd_is_open d' \<longrightarrow>
     (case (h_buffer (hd_file d), h_buffer (hd_file d')) of
        (Some a, Some b) \<Rightarrow> (\<forall>x. \<not> (a \<le> x \<and> x < a + pages (h_size (hd_file d)) \<and> b \<le> x \<and> x < b + pages (h_size (hd_file d'))))
      | _ \<Rightarrow> True))"

lemma pages_ge: "0 < n \<Longrightarrow> n \<le> pages n"
  by (simp add: pages_def page_size_def)

lemma image_at_cong:
  "(\<forall>x. a \<le> x \<and> x < a + n \<longrightarrow> pr_mem p x = pr_mem p' x) \<Longrightarrow> image_at p a n = image_at p' a n"
proof -
  assume eq: "\<forall>x. a \<le> x \<and> x < a + n \<longrightarrow> pr_mem p x = pr_mem p' x"
  have "pr_mem p (a + int i) = pr_mem p' (a + int i)" if "i < nat n" for i
    using eq that by (simp add: zless_nat_conj)
  then have "list_all (\<lambda>i. pr_mem p (a + int i) \<noteq> None) [0..<nat n] = list_all (\<lambda>i. pr_mem p' (a + int i) \<noteq> None) [0..<nat n]"
    "map (\<lambda>i. the (pr_mem p (a + int i))) [0..<nat n] = map (\<lambda>i. the (pr_mem p' (a + int i))) [0..<nat n]"
    by (simp_all add: list_all_iff)
  then show ?thesis
    unfolding image_at_def by metis
qed

lemma image_at_mmap:
  assumes "0 < n" and "int (length file) = n"
  shows "image_at (posix_mmap a file p) a n = file"
proof -
  have "pr_mem (posix_mmap a file p) (a + int i) = Some (file ! i)" if "i < length file" for i
    using pages_ge [OF assms(1)] assms(2) that by (simp add: posix_mmap_def)
  then show ?thesis
    using assms(2) by (auto simp: image_at_def list_all_iff intro: nth_equalityI)
qed

lemma view_cong:
  assumes "holds p d" and "\<And>a x. hd_is_open d \<Longrightarrow> h_buffer (hd_file d) = Some a \<Longrightarrow> a \<le> x \<Longrightarrow>
    x < a + pages (h_size (hd_file d)) \<Longrightarrow> pr_mem p' x = pr_mem p x"
  shows "view p' d = view p d" and "holds p' d"
proof -
  show "holds p' d"
    using assms by (auto simp: holds_def split: option.splits)
  show "view p' d = view p d"
  proof (cases "hd_is_open d")
    case True
    with assms(1) obtain a where a: "h_buffer (hd_file d) = Some a" "0 < h_size (hd_file d)"
      by (auto simp: holds_def split: option.splits)
    with assms(2) [OF True a(1)] pages_ge [OF a(2)] True show ?thesis
      by (simp add: view_def) (intro image_at_cong, auto)
  qed (simp add: view_def)
qed

subsection \<open>Opening, closing and destroying an open data set\<close>

text \<open>\<open>mmap\<close> takes free pages, so that what others have mapped stays.\<close>

lemma mmap_other:
  assumes "free_at p a (int (length file))" and "holds p d"
  shows "view (posix_mmap a file p) d = view p d" and "holds (posix_mmap a file p) d"
proof -
  have "pr_mem (posix_mmap a file p) x = pr_mem p x"
    if "hd_is_open d" "h_buffer (hd_file d) = Some b" "b \<le> x" "x < b + pages (h_size (hd_file d))" for b x
    using assms that by (auto simp: posix_mmap_def free_at_def holds_def)
  then show "view (posix_mmap a file p) d = view p d" "holds (posix_mmap a file p) d"
    using view_cong [OF assms(2)] by blast+
qed

lemma munmap_other:
  assumes "apart d d'" and "hd_is_open d" and "h_buffer (hd_file d) = Some a" and "holds p d'"
  shows "view (posix_munmap a (h_size (hd_file d)) p) d' = view p d'"
    and "holds (posix_munmap a (h_size (hd_file d)) p) d'"
proof -
  have "pr_mem (posix_munmap a (h_size (hd_file d)) p) x = pr_mem p x"
    if "hd_is_open d'" "h_buffer (hd_file d') = Some b" "b \<le> x" "x < b + pages (h_size (hd_file d'))" for b x
    using assms that by (auto simp: posix_munmap_def apart_def)
  then show "view (posix_munmap a (h_size (hd_file d)) p) d' = view p d'"
    "holds (posix_munmap a (h_size (hd_file d)) p) d'"
    using view_cong [OF assms(4)] by blast+
qed

lemma image_at_fds [simp]: "image_at (p\<lparr>pr_fds := fs\<rparr>) a n = image_at p a n"
  by (rule image_at_cong) simp

lemma view_fds [simp]: "view (p\<lparr>pr_fds := fs\<rparr>) d = view p d" "holds (p\<lparr>pr_fds := fs\<rparr>) d = holds p d"
  by (auto simp: view_def holds_def split: option.splits)

lemma munmap_twice: "posix_munmap a n (posix_munmap a n p) = posix_munmap a n p"
  by (auto simp: posix_munmap_def fun_eq_iff intro!: process.equality)

lemma munmap_fds [simp]: "pr_fds (posix_munmap a n p) = pr_fds p"
  by (simp add: posix_munmap_def)

lemma munmap_with_fds: "posix_munmap a n (p\<lparr>pr_fds := fs\<rparr>) = (posix_munmap a n p)\<lparr>pr_fds := fs\<rparr>"
  by (auto simp: posix_munmap_def fun_eq_iff intro!: process.equality)

lemma mmap_fds [simp]: "pr_fds (posix_mmap a file p) = pr_fds p"
  by (simp add: posix_mmap_def)

text \<open>Unmapping what was mapped at free pages gives the memory that was before.\<close>

lemma munmap_mmap:
  assumes "free_at p a (int (length file))" and "file \<noteq> []"
  shows "posix_munmap a (int (length file)) (posix_mmap a file p) = p"
  using assms by (auto simp: posix_munmap_def posix_mmap_def free_at_def fun_eq_iff intro!: process.equality)

lemma length_mapped: "0 < mapped_size file \<Longrightarrow> int (length (mapped file)) = mapped_size file"
proof -
  have "mapped_size file \<le> int (length file)"
    by (simp add: mapped_size_def signed_of_nat signed_take_bit_int_less_eq_self_iff)
  then show "0 < mapped_size file \<Longrightarrow> int (length (mapped file)) = mapped_size file"
    by (simp add: mapped_def)
qed

text \<open>The file of an open data set, mapped at free pages, is what the model without handles maps.\<close>

lemma hd_open_view:
  assumes "\<not> hd_is_open d" and "free_at p a (mapped_size file)" and "0 < mapped_size file"
    and "hd_open (Some (fd, file)) (Some a) d p = (p', d', Inr u)"
  shows "PSFDataSet_open (Some file) (view p d) = Inr (view p' d')" and "holds p' d'"
    and "p' = posix_mmap a (mapped file) (p\<lparr>pr_fds := fd # pr_fds p\<rparr>)"
    and "hd_is_open d'" and "hd_file d' = \<lparr>h_fd = fd, h_buffer = Some a, h_size = mapped_size file\<rparr>"
proof -
  note len = length_mapped [OF assms(3)]
  let ?p = "posix_mmap a (mapped file) (p\<lparr>pr_fds := fd # pr_fds p\<rparr>)"
  have img: "image_at ?p a (mapped_size file) = mapped file"
    using image_at_mmap [OF assms(3) len] .
  from assms(4) obtain psf where valid: "PSFFile_validate file = Inr True"
    and psf: "PSFFile_deserialize (hd_psf d) (mapped file) (mapped_size file) = Inr psf"
    and p': "p' = ?p" and d': "d' = d\<lparr>hd_psf := psf, hd_is_open := True,
      hd_file := \<lparr>h_fd = fd, h_buffer = Some a, h_size = mapped_size file\<rparr>\<rparr>"
    using assms(1,3) by (auto simp: hd_open_def handle_open_def Let_def img rbind_eq_Inr rbind_eq_Inl split: sum.splits if_splits)
  show "p' = ?p" "hd_is_open d'" "hd_file d' = \<lparr>h_fd = fd, h_buffer = Some a, h_size = mapped_size file\<rparr>"
    by (simp_all add: p' d')
  show "PSFDataSet_open (Some file) (view p d) = Inr (view p' d')"
    using valid psf assms(1) by (simp add: PSFDataSet_open_def PSFFile_open_def view_def p' d' img)
  show "holds p' d'"
    using assms(2,3) len by (auto simp: holds_def d' p' posix_mmap_def free_at_def)
qed

lemma handle_close_True:
  assumes "h_buffer h = Some a"
  obtains fs h' where "handle_close True h p = ((posix_munmap a (h_size h) p)\<lparr>pr_fds := fs\<rparr>, h', Inr ())"
    "h_buffer h' = Some a" "h_size h' = h_size h"
proof (cases "h_fd h = -1")
  case True
  have "q = q\<lparr>pr_fds := pr_fds q\<rparr>" for q :: process
    by simp
  with True assms that [of "pr_fds (posix_munmap a (h_size h) p)" h] show thesis
    by (simp add: handle_close_def Let_def)
next
  case False
  with assms that [of "remove1 (h_fd h) (pr_fds p)" "h\<lparr>h_fd := -1\<rparr>"] show thesis
    by (simp add: handle_close_def Let_def)
qed

lemma hd_close_view:
  assumes "hd_is_open d" and "holds p d" and "hd_close True d p = (p', d', r)"
  shows "PSFDataSet_close True (view p d) = (view p' d', r)" and "holds p' d'" and "\<not> hd_is_open d'"
    and "\<And>d2. apart d d2 \<Longrightarrow> holds p d2 \<Longrightarrow> view p' d2 = view p d2 \<and> holds p' d2"
proof -
  obtain a where a: "h_buffer (hd_file d) = Some a"
    using assms(1,2) by (auto simp: holds_def split: option.splits)
  obtain fs h where close: "handle_close True (hd_file d) p
      = ((posix_munmap a (h_size (hd_file d)) p)\<lparr>pr_fds := fs\<rparr>, h, Inr ())"
    using handle_close_True [OF a] by metis
  have p': "p' = (posix_munmap a (h_size (hd_file d)) p)\<lparr>pr_fds := fs\<rparr>" and r: "r = Inr ()"
    and d': "d' = d\<lparr>hd_file := h, hd_is_open := False\<rparr>"
    using assms(1,3) close by (simp_all add: hd_close_def)
  show "\<not> hd_is_open d'" "holds p' d'"
    using d' by (auto simp: holds_def)
  show "PSFDataSet_close True (view p d) = (view p' d', r)"
    using assms(1) d' r by (auto simp: PSFDataSet_close_def PSFFile_close_def view_def Let_def)
  show "view p' d2 = view p d2 \<and> holds p' d2" if "apart d d2" "holds p d2" for d2
    using p' munmap_other [OF that(1) assms(1) a that(2)] by auto
qed

lemma hd_destroy_open:
  assumes "hd_is_open d" and "holds p d" and "hd_destroy True d p = (p', r)"
  shows "r = Inr ()" and "\<And>d2. apart d d2 \<Longrightarrow> holds p d2 \<Longrightarrow> view p' d2 = view p d2 \<and> holds p' d2"
proof -
  obtain a where a: "h_buffer (hd_file d) = Some a"
    using assms(1,2) by (auto simp: holds_def split: option.splits)
  obtain fs h where close: "handle_close True (hd_file d) p
      = ((posix_munmap a (h_size (hd_file d)) p)\<lparr>pr_fds := fs\<rparr>, h, Inr ())"
    and h: "h_buffer h = Some a" "h_size h = h_size (hd_file d)"
    using handle_close_True [OF a] by metis
  obtain fs' h' where "handle_close True h ((posix_munmap a (h_size (hd_file d)) p)\<lparr>pr_fds := fs\<rparr>)
      = ((posix_munmap a (h_size h) ((posix_munmap a (h_size (hd_file d)) p)\<lparr>pr_fds := fs\<rparr>))\<lparr>pr_fds := fs'\<rparr>, h', Inr ())"
    by (rule handle_close_True [OF h(1)])
  then have "handle_close True h ((posix_munmap a (h_size (hd_file d)) p)\<lparr>pr_fds := fs\<rparr>)
      = ((posix_munmap a (h_size (hd_file d)) p)\<lparr>pr_fds := fs'\<rparr>, h', Inr ())"
    unfolding h(2) munmap_with_fds munmap_twice by simp
  with close have p': "p' = (posix_munmap a (h_size (hd_file d)) p)\<lparr>pr_fds := fs'\<rparr>" and "r = Inr ()"
    using assms(3) by (simp_all add: hd_destroy_def handle_destroy_def)
  then show "r = Inr ()" by simp
  show "view p' d2 = view p d2 \<and> holds p' d2" if "apart d d2" "holds p d2" for d2
    using p' munmap_other [OF that(1) assms(1) a that(2)] by auto
qed

subsection \<open>Several data sets in a process\<close>

text \<open>
  What clients do with data sets, where the operating system gives them free pages. A data set that is
  destroyed is open: its file is closed by the destructor only.
\<close>

inductive running :: "process \<Rightarrow> hdataset list \<Rightarrow> bool" where
  running_start: "running p []"
| running_new: "running p ds \<Longrightarrow> free_at p a (mapped_size file) \<Longrightarrow> 0 < mapped_size file \<Longrightarrow>
    hd_new (Some (fd, file)) (Some a) p = (p', Inr d) \<Longrightarrow> running p' (d # ds)"
| running_reopen: "running p (xs @ d # ys) \<Longrightarrow> \<not> hd_is_open d \<Longrightarrow> free_at p a (mapped_size file) \<Longrightarrow>
    0 < mapped_size file \<Longrightarrow> hd_open (Some (fd, file)) (Some a) d p = (p', d', Inr u) \<Longrightarrow> running p' (xs @ d' # ys)"
| running_close: "running p (xs @ d # ys) \<Longrightarrow> hd_close True d p = (p', d', r) \<Longrightarrow> running p' (xs @ d' # ys)"
| running_invert: "running p (xs @ d # ys) \<Longrightarrow> hd_is_open d \<Longrightarrow> running p (xs @ d\<lparr>hd_invertstruct := b\<rparr> # ys)"
| running_destroy: "running p (xs @ d # ys) \<Longrightarrow> hd_is_open d \<Longrightarrow> hd_destroy True d p = (p', r) \<Longrightarrow> running p' (xs @ ys)"

definition process_inv :: "process \<Rightarrow> hdataset list \<Rightarrow> bool" where
  "process_inv p ds \<longleftrightarrow> sorted_wrt apart ds \<and> (\<forall>d \<in> set ds. holds p d \<and> reachable (view p d))"

lemma apart_sym: "apart d d' \<longleftrightarrow> apart d' d"
  by (auto simp: apart_def split: option.splits)

lemma apart_closed [simp]: "\<not> hd_is_open d \<Longrightarrow> apart d d'" "\<not> hd_is_open d \<Longrightarrow> apart d' d"
  by (simp_all add: apart_def)

lemma invert_same [simp]: "holds p (d\<lparr>hd_invertstruct := b\<rparr>) = holds p d" "apart (d\<lparr>hd_invertstruct := b\<rparr>) d' = apart d d'"
  by (simp_all add: holds_def apart_def split: option.splits)

lemma process_inv_split:
  "process_inv p (xs @ d # ys) \<longleftrightarrow> process_inv p (xs @ ys) \<and> holds p d \<and> reachable (view p d)
     \<and> (\<forall>d2 \<in> set (xs @ ys). apart d d2)"
  by (auto simp: process_inv_def sorted_wrt_append apart_sym)

text \<open>An operation on one data set that leaves the others what they see.\<close>

lemma process_inv_frame:
  assumes "process_inv p ds" and "\<And>d. d \<in> set ds \<Longrightarrow> view p' d = view p d \<and> holds p' d"
  shows "process_inv p' ds"
  using assms by (simp add: process_inv_def)

lemma open_apart:
  assumes "free_at p a (mapped_size file)" and "holds p d2" and "hd_file d = \<lparr>h_fd = fd, h_buffer = Some a, h_size = mapped_size file\<rparr>"
  shows "apart d d2"
  using assms by (force simp: apart_def free_at_def holds_def split: option.splits)

lemma open_step:
  assumes "process_inv p ds" and "\<not> hd_is_open d" and "free_at p a (mapped_size file)" and "0 < mapped_size file"
    and "hd_open (Some (fd, file)) (Some a) d p = (p', d', Inr u)"
  shows "process_inv p' ds" and "holds p' d'" and "\<forall>d2 \<in> set ds. apart d' d2"
    and "PSFDataSet_open (Some file) (view p d) = Inr (view p' d')"
proof -
  note opened = hd_open_view [OF assms(2-5)]
  show "holds p' d'" "PSFDataSet_open (Some file) (view p d) = Inr (view p' d')"
    using opened by simp_all
  have free: "free_at (p\<lparr>pr_fds := fd # pr_fds p\<rparr>) a (int (length (mapped file)))"
    using assms(3) by (simp add: free_at_def length_mapped [OF assms(4)])
  show "process_inv p' ds"
    using mmap_other [OF free] assms(1) by (intro process_inv_frame [OF assms(1)]) (auto simp: opened(3) process_inv_def)
  show "\<forall>d2 \<in> set ds. apart d' d2"
    using open_apart [OF assms(3) _ opened(5)] assms(1) by (auto simp: process_inv_def)
qed

lemma running_inv: "running p ds \<Longrightarrow> process_inv p ds"
proof (induction rule: running.induct)
  case (running_start p)
  then show ?case by (simp add: process_inv_def)
next
  case (running_new p ds a content fd p' d)
  define d0 where "d0 = \<lparr>hd_psf = new_psffile, hd_file = new_handle, hd_invertstruct = False, hd_is_open = False\<rparr>"
  from running_new.hyps obtain u where "hd_open (Some (fd, content)) (Some a) d0 p = (p', d, Inr u)" and "\<not> hd_is_open d0"
    by (auto simp: hd_new_def d0_def res_simps split: prod.splits)
  note opened = open_step [OF running_new.IH this(2) running_new.hyps(2,3) this(1)]
  have "reachable (view p' d)"
    using opened(4) by (intro reachable_new [of "Some content"]) (simp add: PSFDataSet_new_def view_def d0_def)
  with opened show ?case
    using process_inv_split [of p' "[]" d ds] by simp
next
  case (running_reopen p xs d ys a content fd p' d' u)
  then have inv: "process_inv p (xs @ ys)" "reachable (view p d)"
    by (simp_all add: process_inv_split)
  note opened = open_step [OF inv(1) running_reopen.hyps(2-5)]
  have "reachable (view p' d')"
    using inv(2) opened(4) by (blast intro: reachable_step step_open)
  with opened show ?case
    by (simp add: process_inv_split)
next
  case (running_close p xs d ys p' d' r)
  then have inv: "process_inv p (xs @ ys)" "holds p d" "reachable (view p d)" "\<forall>d2 \<in> set (xs @ ys). apart d d2"
    by (simp_all add: process_inv_split)
  show ?case
  proof (cases "hd_is_open d")
    case True
    note closed = hd_close_view [OF True inv(2) running_close.hyps(2)]
    have "reachable (view p' d')"
      using inv(3) closed(1) by (blast intro: reachable_step step_close)
    moreover have "process_inv p' (xs @ ys)"
      using closed(4) inv(1,4) by (intro process_inv_frame [OF inv(1)]) (auto simp: process_inv_def)
    ultimately show ?thesis
      using closed(2,3) by (simp add: process_inv_split)
  next
    case False
    with running_close show ?thesis by (simp add: hd_close_def)
  qed
next
  case (running_invert p xs d ys b)
  have "set_invertstruct b (view p d) = Inr (view p (d\<lparr>hd_invertstruct := b\<rparr>))"
    using running_invert.hyps(2) by (simp add: set_invertstruct_def verify_open_def view_def split: option.splits)
  then have "reachable (view p d) \<Longrightarrow> reachable (view p (d\<lparr>hd_invertstruct := b\<rparr>))"
    by (blast intro: reachable_step step_invert)
  with running_invert.IH show ?case
    by (simp add: process_inv_split)
next
  case (running_destroy p xs d ys p' r)
  then have inv: "process_inv p (xs @ ys)" "holds p d" "\<forall>d2 \<in> set (xs @ ys). apart d d2"
    by (simp_all add: process_inv_split)
  with hd_destroy_open [OF running_destroy.hyps(2) inv(2) running_destroy.hyps(3)] show ?case
    by (intro process_inv_frame [OF inv(1)]) (auto simp: process_inv_def)
qed

subsection \<open>What is released\<close>

lemma hd_new_total:
  assumes "PSFDataSet_new (Some file) = Inr ds" and "0 < mapped_size file"
  obtains p' d where "hd_new (Some (fd, file)) (Some a) p = (p', Inr d)"
proof -
  from assms(1) obtain psf where valid: "PSFFile_validate file = Inr True"
    and psf: "PSFFile_deserialize new_psffile (mapped file) (mapped_size file) = Inr psf"
    by (auto simp: PSFDataSet_new_def PSFDataSet_open_def PSFFile_open_def res_simps split: if_splits)
  with that show thesis
    using assms(2) image_at_mmap [OF assms(2) length_mapped [OF assms(2)]]
    by (simp add: hd_new_def hd_open_def handle_open_def Let_def)
qed

lemma hd_new_opened:
  assumes "free_at p a (mapped_size file)" and "0 < mapped_size file"
    and "hd_new (Some (fd, file)) (Some a) p = (p', Inr d)"
  shows "p' = posix_mmap a (mapped file) (p\<lparr>pr_fds := fd # pr_fds p\<rparr>)" and "hd_is_open d" and "holds p' d"
    and "hd_file d = \<lparr>h_fd = fd, h_buffer = Some a, h_size = mapped_size file\<rparr>"
    and "PSFDataSet_new (Some file) = Inr (view p' d)"
proof -
  define d0 where "d0 = \<lparr>hd_psf = new_psffile, hd_file = new_handle, hd_invertstruct = False, hd_is_open = False\<rparr>"
  have closed: "\<not> hd_is_open d0" by (simp add: d0_def)
  obtain u where "hd_open (Some (fd, file)) (Some a) d0 p = (p', d, Inr u)"
    using assms(3) by (auto simp: hd_new_def d0_def res_simps split: prod.splits)
  note opened = hd_open_view [OF closed assms(1,2) this]
  have "view p d0 = \<lparr>ds_psf = new_psffile, ds_image = [], ds_invertstruct = False, ds_is_open = False\<rparr>"
    by (simp add: view_def d0_def)
  with opened show "p' = posix_mmap a (mapped file) (p\<lparr>pr_fds := fd # pr_fds p\<rparr>)" "hd_is_open d" "holds p' d"
    "hd_file d = \<lparr>h_fd = fd, h_buffer = Some a, h_size = mapped_size file\<rparr>"
    "PSFDataSet_new (Some file) = Inr (view p' d)"
    by (simp_all add: PSFDataSet_new_def)
qed

text \<open>Closing gives back the descriptor and the mapping.\<close>

lemma new_close_process:
  assumes "free_at p a (mapped_size file)" and "0 < mapped_size file" and "fd \<noteq> -1"
    and "hd_new (Some (fd, file)) (Some a) p = (p', Inr d)"
  shows "hd_close True d p' = (p, d\<lparr>hd_file := \<lparr>h_fd = -1, h_buffer = Some a, h_size = mapped_size file\<rparr>, hd_is_open := False\<rparr>, Inr ())"
proof -
  note opened = hd_new_opened [OF assms(1,2,4)]
  have "mapped file \<noteq> []"
    using length_mapped [OF assms(2)] assms(2) by auto
  then have "posix_munmap a (mapped_size file) p' = p\<lparr>pr_fds := fd # pr_fds p\<rparr>"
    unfolding opened(1) length_mapped [OF assms(2), symmetric]
    using assms(1) by (intro munmap_mmap) (simp_all add: free_at_def length_mapped [OF assms(2)])
  with opened(2,4) assms(3) show ?thesis
    by (simp add: hd_close_def handle_close_def Let_def)
qed

text \<open>A data set that is destroyed while it is open leaves the process as it was.\<close>

lemma new_destroy_process:
  assumes "free_at p a (mapped_size file)" and "0 < mapped_size file" and "fd \<noteq> -1"
    and "hd_new (Some (fd, file)) (Some a) p = (p', Inr d)"
  shows "hd_destroy True d p' = (p, Inr ())"
proof -
  note opened = hd_new_opened [OF assms(1,2,4)]
  obtain h where h: "handle_close True (hd_file d) p' = (p, h, Inr ())"
    and "h = \<lparr>h_fd = -1, h_buffer = Some a, h_size = mapped_size file\<rparr>"
    using new_close_process [OF assms] opened(2)
    by (auto simp: hd_close_def split: prod.splits sum.splits dest: arg_cong [of _ _ hd_file])
  moreover have "posix_munmap a (mapped_size file) p = p"
    using assms(1) by (auto simp: posix_munmap_def free_at_def fun_eq_iff intro!: process.equality)
  ultimately show ?thesis
    by (simp add: hd_destroy_def handle_destroy_def) (simp add: handle_close_def Let_def)
qed

lemma free_at_fds [simp]: "free_at (p\<lparr>pr_fds := fs\<rparr>) a n = free_at p a n"
  by (simp add: free_at_def)

lemma mmap_with_fds: "posix_mmap a file (p\<lparr>pr_fds := fs\<rparr>) = (posix_mmap a file p)\<lparr>pr_fds := fs\<rparr>"
  by (auto simp: posix_mmap_def intro!: process.equality)

text \<open>A failed constructor gives back nothing.\<close>

lemma failed_new_process:
  assumes "0 < mapped_size file" and "hd_new (Some (fd, file)) (Some a) p = (p', Inl e)"
  shows "p' = posix_mmap a (mapped file) (p\<lparr>pr_fds := fd # pr_fds p\<rparr>)"
  using assms by (auto simp: hd_new_def hd_open_def handle_open_def Let_def split: sum.splits prod.splits)

text \<open>
  The destructor of a data set that was closed unmaps the address of its file again, whatever is
  mapped there then.
\<close>

lemma destroy_closed:
  assumes "h_fd (hd_file d) = -1" and "h_buffer (hd_file d) = Some a" and "0 < h_size (hd_file d)" and "a mod page_size = 0"
    and "hd_is_open b" and "h_buffer (hd_file b) = Some a" and "0 < h_size (hd_file b)"
  shows "\<exists>p'. hd_destroy ok d p = (p', Inr ()) \<and> view p' b = (view p b)\<lparr>ds_image := []\<rparr>"
proof -
  define p' where "p' = posix_munmap a (h_size (hd_file d)) p"
  have "hd_destroy ok d p = (p', Inr ())"
    using assms(1,2) by (simp add: hd_destroy_def handle_destroy_def handle_close_def Let_def p'_def munmap_twice)
  moreover have "pr_mem p' (a + int 0) = None"
    using assms(3,4) pages_ge [OF assms(3)] by (simp add: p'_def posix_munmap_def)
  then have "image_at p' a (h_size (hd_file b)) = []"
    unfolding image_at_def list_all_iff using assms(7) by (metis atLeastLessThan_iff set_upt le0 zero_less_nat_eq)
  then have "view p' b = (view p b)\<lparr>ds_image := []\<rparr>"
    using assms(5,6) by (simp add: view_def)
  ultimately show ?thesis by blast
qed

end
