(* ===== verification/Heap.thy ===== *)
theory Heap
  imports Prelude
begin

section \<open>Objects made with \<open>new\<close>\<close>

text \<open>
  The addresses of \<open>new\<close> and \<open>delete\<close>. A heap is the list of all objects made so far; the
  position of an object is its address, and a deleted object leaves \<open>None\<close> there, so that an
  address is never used twice and every access after a \<open>delete\<close> is seen. \<open>allocator\<close> states
  what the owners of objects rely on. \<open>delete_all\<close> runs destructors: the object dies first, then
  what its destructor deletes is put before what is still to be deleted, which is the order of
  the nested calls.
\<close>

subsection \<open>The interface\<close>

locale allocator =
  fixes alloc :: "'o \<Rightarrow> 'h \<Rightarrow> 'a \<times> 'h"
    and lookup :: "'h \<Rightarrow> 'a \<Rightarrow> 'o option"
    and store :: "'h \<Rightarrow> 'a \<Rightarrow> 'o \<Rightarrow> 'h"
    and release :: "'h \<Rightarrow> 'a \<Rightarrow> 'h"
  assumes alloc_fresh: "lookup h (fst (alloc x h)) = None"
    and lookup_alloc: "lookup (snd (alloc x h)) a = (if a = fst (alloc x h) then Some x else lookup h a)"
    and lookup_store: "lookup h a \<noteq> None \<Longrightarrow> lookup (store h a x) b = (if b = a then Some x else lookup h b)"
    and lookup_release: "lookup (release h a) b = (if b = a then None else lookup h b)"
begin

definition live :: "'h \<Rightarrow> 'a set" where
  "live h = {a. lookup h a \<noteq> None}"

lemma live_alloc: "live (snd (alloc x h)) = insert (fst (alloc x h)) (live h)"
  by (auto simp: live_def lookup_alloc)

lemma fresh_not_live: "fst (alloc x h) \<notin> live h"
  by (simp add: live_def alloc_fresh)

lemma live_store: "a \<in> live h \<Longrightarrow> live (store h a x) = live h"
  by (auto simp: live_def lookup_store)

lemma live_release: "live (release h a) = live h - {a}"
  by (auto simp: live_def lookup_release)

text \<open>An object made after another is another object; a deleted one is gone for good.\<close>

lemma alloc_alloc: "fst (alloc y (snd (alloc x h))) \<noteq> fst (alloc x h)"
  using alloc_fresh [of "snd (alloc x h)" y] by (auto simp: lookup_alloc)

lemma release_alloc: "lookup (release (snd (alloc x h)) (fst (alloc x h))) a = lookup h a"
  by (simp add: lookup_release lookup_alloc alloc_fresh)

end

subsection \<open>The model's heap\<close>

type_synonym 'o heap = "'o option list"

definition lookup :: "'o heap \<Rightarrow> nat \<Rightarrow> 'o option" where
  "lookup h a = (if a < length h then h ! a else None)"

definition alloc :: "'o \<Rightarrow> 'o heap \<Rightarrow> nat \<times> 'o heap" where
  "alloc x h = (length h, h @ [Some x])"

definition store :: "'o heap \<Rightarrow> nat \<Rightarrow> 'o \<Rightarrow> 'o heap" where
  "store h a x = h[a := Some x]"

definition release :: "'o heap \<Rightarrow> nat \<Rightarrow> 'o heap" where
  "release h a = h[a := None]"

lemma lookup_bound: "lookup h a = Some x \<Longrightarrow> a < length h"
  by (simp add: lookup_def split: if_splits)

lemma length_release [simp]: "length (release h a) = length h"
  by (simp add: release_def)

lemma length_store [simp]: "length (store h a x) = length h"
  by (simp add: store_def)

lemma lookup_append: "lookup (h @ g) a = (if a < length h then lookup h a else lookup g (a - length h))"
  by (auto simp: lookup_def nth_append)

interpretation heap: allocator alloc lookup store release
  by unfold_locales
    (auto simp: alloc_def lookup_def store_def release_def nth_append nth_list_update split: if_splits)

lemma store_id: "lookup h a = Some x \<Longrightarrow> store h a x = h"
  by (metis list_update_id lookup_def option.distinct(1) store_def)

lemma store_store: "store (store h a x) a y = store h a y"
  by (simp add: store_def)

lemma store_append: "a < length h \<Longrightarrow> store (h @ g) a x = store h a x @ g"
  by (simp add: store_def list_update_append1)

lemma store_last: "store (h @ [x]) (length h) y = h @ [Some y]"
  by (simp add: store_def)

text \<open>Access through a pointer.\<close>

definition object_at :: "'o heap \<Rightarrow> nat \<Rightarrow> 'o res" where
  "object_at h a = (case lookup h a of None \<Rightarrow> Inl (Undefined UseAfterFree) | Some x \<Rightarrow> Inr x)"

lemma object_at_Inr [simp]: "object_at h a = Inr x \<longleftrightarrow> lookup h a = Some x"
  by (simp add: object_at_def split: option.split)

lemma object_at_Inl [simp]:
  "object_at h a = Inl e \<longleftrightarrow> lookup h a = None \<and> e = Undefined UseAfterFree"
  by (auto simp: object_at_def split: option.split)

lemma object_at_Some: "lookup h a = Some x \<Longrightarrow> object_at h a = Inr x"
  by simp

definition live_count :: "'o heap \<Rightarrow> nat" where
  "live_count h = length (filter (\<lambda>x. x \<noteq> None) h)"

lemma live_count_append [simp]: "live_count (h @ g) = live_count h + live_count g"
  by (simp add: live_count_def)

lemma live_count_simps [simp]: "live_count [] = 0" "live_count (Some x # h) = Suc (live_count h)"
  "live_count (None # h) = live_count h"
  by (simp_all add: live_count_def)

lemma live_count_release: "lookup h a = Some x \<Longrightarrow> live_count h = Suc (live_count (release h a))"
proof -
  assume "lookup h a = Some x"
  then have a: "a < length h" "h ! a = Some x"
    by (simp_all add: lookup_def split: if_splits)
  then have "h = take a h @ Some x # drop (Suc a) h"
    using id_take_nth_drop [of a h] by simp
  moreover have "release h a = take a h @ None # drop (Suc a) h"
    using a by (simp add: release_def upd_conv_take_nth_drop)
  ultimately show ?thesis by (metis live_count_append live_count_simps(2,3) add_Suc_right)
qed

lemma live_bound: "a \<in> heap.live h \<Longrightarrow> a < length h"
  by (auto simp: heap.live_def lookup_def split: if_splits)

lemma live_finite: "finite (heap.live h)"
  by (rule finite_subset [of _ "{..< length h}"]) (auto simp: heap.live_def lookup_def split: if_splits)

subsection \<open>Destructors\<close>

function delete_all :: "('o \<Rightarrow> nat list) \<Rightarrow> 'o heap \<Rightarrow> nat list \<Rightarrow> 'o heap res" where
  "delete_all destructor h [] = Inr h"
| "delete_all destructor h (a # as) =
     rbind (object_at h a) (\<lambda>x. delete_all destructor (release h a) (destructor x @ as))"
  by pat_completeness auto
termination
  by (relation "measures [\<lambda>(d, h, as). live_count h, \<lambda>(d, h, as). length as]")
    (auto dest: live_count_release)

lemma delete_all_append:
  "delete_all d h (as @ bs) = rbind (delete_all d h as) (\<lambda>h. delete_all d h bs)"
  by (induction d h as arbitrary: bs rule: delete_all.induct) (simp_all add: rbind_def split: sum.split)

definition release_all :: "'o heap \<Rightarrow> nat list \<Rightarrow> 'o heap" where
  "release_all h as = fold (\<lambda>a h. release h a) as h"

lemma release_all_simps [simp]:
  "release_all h [] = h"
  "release_all h (a # as) = release_all (release h a) as"
  "release_all h (as @ bs) = release_all (release_all h as) bs"
  by (simp_all add: release_all_def)

lemma length_release_all [simp]: "length (release_all h as) = length h"
  by (induction as arbitrary: h) simp_all

lemma lookup_release_all: "lookup (release_all h as) a = (if a \<in> set as then None else lookup h a)"
  by (induction as arbitrary: h) (simp_all add: heap.lookup_release)

lemma live_release_all: "heap.live (release_all h as) = heap.live h - set as"
  by (auto simp: heap.live_def lookup_release_all)

text \<open>Nothing comes back: an object that is left was there before, and was not deleted.\<close>

lemma delete_all_left:
  "delete_all d h as = Inr h' \<Longrightarrow> lookup h' b = Some x \<Longrightarrow> b \<notin> set as \<and> lookup h b = Some x"
  by (induction d h as rule: delete_all.induct) (auto simp: res_simps heap.lookup_release split: if_splits)

lemma delete_all_length: "delete_all d h as = Inr h' \<Longrightarrow> length h' = length h"
  by (induction d h as rule: delete_all.induct) (auto simp: res_simps)

lemma deleted_twice: "a \<in> set as \<Longrightarrow> delete_all d h (as @ a # bs) = Inl (Undefined UseAfterFree) \<or>
    (\<exists>e. delete_all d h as = Inl e \<and> delete_all d h (as @ a # bs) = Inl e)"
  by (cases "delete_all d h as") (auto simp: delete_all_append object_at_def dest: delete_all_left split: option.split)

lemma live_count_release_all:
  "distinct A \<Longrightarrow> set A \<subseteq> heap.live h \<Longrightarrow> live_count h = length A + live_count (release_all h A)"
proof (induction A arbitrary: h)
  case (Cons a A)
  then obtain x where "lookup h a = Some x"
    by (auto simp: heap.live_def)
  moreover have "set A \<subseteq> heap.live (release h a)"
    using Cons.prems by (auto simp: heap.live_release)
  ultimately show ?case
    using Cons.IH [of "release h a"] Cons.prems(1) live_count_release by fastforce
qed simp

subsection \<open>Trees of objects\<close>

text \<open>\<open>owned d h as A\<close>: the objects \<open>as\<close> and all that their destructors reach are \<open>A\<close>, each once.\<close>

inductive owned :: "('o \<Rightarrow> nat list) \<Rightarrow> 'o heap \<Rightarrow> nat list \<Rightarrow> nat list \<Rightarrow> bool" for d h where
  owned_none: "owned d h [] []"
| owned_one: "lookup h a = Some x \<Longrightarrow> owned d h (d x) A \<Longrightarrow> owned d h as B \<Longrightarrow> distinct (a # A @ B) \<Longrightarrow>
    owned d h (a # as) (a # A @ B)"

lemma owned_live: "owned d h as A \<Longrightarrow> set A \<subseteq> heap.live h"
  by (induction rule: owned.induct) (auto simp: heap.live_def)

lemma owned_distinct: "owned d h as A \<Longrightarrow> distinct A"
  by (induction rule: owned.induct) auto

lemma owned_frame: "owned d h as A \<Longrightarrow> \<forall>a \<in> set A. lookup h' a = lookup h a \<Longrightarrow> owned d h' as A"
proof (induction rule: owned.induct)
  case (owned_one a x A as B)
  then show ?case by (intro owned.owned_one) auto
qed (rule owned_none)

lemma owned_append:
  "owned d h as A \<Longrightarrow> owned d h bs B \<Longrightarrow> set A \<inter> set B = {} \<Longrightarrow> owned d h (as @ bs) (A @ B)"
proof (induction rule: owned.induct)
  case (owned_one a x A as C)
  have "owned d h (as @ bs) (C @ B)"
    using owned_one by auto
  from owned.owned_one [OF owned_one.hyps(1,2) this] show ?case
    using owned_one.hyps(4) owned_one.prems owned_distinct [OF owned_one.prems(1)] by auto
qed simp

lemma owned_delete:
  "owned d h as A \<Longrightarrow> \<forall>a \<in> set A. lookup h' a = lookup h a \<Longrightarrow>
     delete_all d h' (as @ bs) = delete_all d (release_all h' A) bs"
proof (induction arbitrary: h' bs rule: owned.induct)
  case (owned_one a x A as B)
  let ?h = "release h' a"
  have "\<forall>b \<in> set A. lookup ?h b = lookup h b"
    using owned_one by (auto simp: heap.lookup_release)
  note A = owned_one.IH(1) [OF this]
  have "\<forall>b \<in> set B. lookup (release_all ?h A) b = lookup h b"
    using owned_one by (auto simp: heap.lookup_release lookup_release_all)
  note B = owned_one.IH(2) [OF this]
  show ?case
    using owned_one.hyps(1) owned_one.prems by (simp add: object_at_Some A B)
qed simp

end
