(* ===== verification/Runs.thy ===== *)
theory Runs
  imports Heap "HOL-Library.Sublist"
begin

section \<open>Code that works on a heap\<close>

text \<open>
  The steps of code that makes, changes and deletes objects, composed as the code composes them.
\<close>

subsection \<open>Runs\<close>

text \<open>
  A run ends with a result or an error, in a heap, or does not end (\<open>None\<close>). The heap after an
  error matters: what is live there was not deleted on the way out.
\<close>

type_synonym ('a, 'o) run = "'o heap \<Rightarrow> ('a res \<times> 'o heap) option"

definition run_bind :: "('a, 'o) run \<Rightarrow> ('a \<Rightarrow> ('b, 'o) run) \<Rightarrow> ('b, 'o) run" where
  "run_bind m f h = (case m h of
     None \<Rightarrow> None
   | Some (Inl e, h) \<Rightarrow> Some (Inl e, h)
   | Some (Inr x, h) \<Rightarrow> f x h)"

definition run_lift :: "'a res \<Rightarrow> ('a, 'o) run" where
  "run_lift r h = Some (r, h)"

definition run_option :: "'a res option \<Rightarrow> ('a, 'o) run" where
  "run_option r h = map_option (\<lambda>r. (r, h)) r"

definition run_new :: "'o \<Rightarrow> (nat, 'o) run" where
  "run_new x h = (let (a, h) = alloc x h in Some (Inr a, h))"

definition run_get :: "nat \<Rightarrow> ('o, 'o) run" where
  "run_get a h = Some (object_at h a, h)"

definition run_set :: "nat \<Rightarrow> 'o \<Rightarrow> (unit, 'o) run" where
  "run_set a x h = Some (Inr (), store h a x)"

definition run_delete :: "('o \<Rightarrow> nat list) \<Rightarrow> nat \<Rightarrow> (unit, 'o) run" where
  "run_delete d a h = (case delete_all d h [a] of
     Inl e \<Rightarrow> Some (Inl e, h) | Inr h \<Rightarrow> Some (Inr (), h))"

definition run_delete_all :: "('o \<Rightarrow> nat list) \<Rightarrow> nat list \<Rightarrow> (unit, 'o) run" where
  "run_delete_all d as h = (case delete_all d h as of
     Inl e \<Rightarrow> Some (Inl e, h) | Inr h \<Rightarrow> Some (Inr (), h))"

definition run_read :: "('o heap \<Rightarrow> 'a res option) \<Rightarrow> ('a, 'o) run" where
  "run_read f h = map_option (\<lambda>r. (r, h)) (f h)"

subsection \<open>Running\<close>

named_theorems run_simps \<open>the steps of a run\<close>

lemma run_bind_lift [run_simps]:
  "run_bind (run_lift (Inr x)) f h = f x h" "run_bind (run_lift (Inl e)) f h = Some (Inl e, h)"
  by (simp_all add: run_bind_def run_lift_def)

lemma run_bind_return [run_simps]: "run_bind (run_lift (Inr x)) f = f x"
  by (simp add: run_bind_def run_lift_def fun_eq_iff)

lemma run_lift [run_simps]: "run_lift r h = Some (r, h)"
  by (simp add: run_lift_def)

lemma run_bind_new [run_simps]: "run_bind (run_new x) f h = f (length h) (h @ [Some x])"
  by (simp add: run_bind_def run_new_def alloc_def)

lemma run_bind_set [run_simps]: "run_bind (run_set a x) f h = f () (store h a x)"
  by (simp add: run_bind_def run_set_def)

lemma run_bind_get [run_simps]: "lookup h a = Some x \<Longrightarrow> run_bind (run_get a) f h = f x h"
  by (simp add: run_bind_def run_get_def object_at_Some)

lemma run_bind_read [run_simps]:
  "m h = Some (Inr x) \<Longrightarrow> run_bind (run_read m) f h = f x h"
  "m h = Some (Inl e) \<Longrightarrow> run_bind (run_read m) f h = Some (Inl e, h)"
  by (simp_all add: run_bind_def run_read_def)

lemma run_bind_eq_Some: "run_bind m f h = Some (r, h') \<longleftrightarrow>
    (\<exists>e. m h = Some (Inl e, h') \<and> r = Inl e) \<or> (\<exists>x h1. m h = Some (Inr x, h1) \<and> f x h1 = Some (r, h'))"
  by (auto simp: run_bind_def split: option.splits sum.splits)

lemma run_bind_Some [run_simps]:
  "m h = Some (Inr x, h') \<Longrightarrow> run_bind m f h = f x h'"
  "m h = Some (Inl e, h') \<Longrightarrow> run_bind m f h = Some (Inl e, h')"
  "m h = None \<Longrightarrow> run_bind m f h = None"
  by (simp_all add: run_bind_def)

lemma run_bind_assoc: "run_bind (run_bind m f) g h = run_bind m (\<lambda>x. run_bind (f x) g) h"
  by (simp add: run_bind_def split: option.split sum.split)

lemma run_lift_option: "run_lift r = run_option (Some r)"
  by (simp add: run_lift_def run_option_def fun_eq_iff)

lemma run_bind_cong:
  "m = m' \<Longrightarrow> (\<And>x h h1. m' h = Some (Inr x, h1) \<Longrightarrow> f x = f' x) \<Longrightarrow> run_bind m f = run_bind m' f'"
  by (auto simp: run_bind_def fun_eq_iff split: option.split sum.split)

subsection \<open>Runs and results\<close>

text \<open>
  \<open>does h0 P m r Q\<close>: from a heap with \<open>P\<close> the run \<open>m\<close> ends as the result \<open>r\<close> of the model says, in an
  error with the same error, otherwise with a value and a heap that are related by \<open>Q\<close> to the value
  of \<open>r\<close>. In any case the objects of \<open>h0\<close> are as they were: the heap is an extension of \<open>h0\<close>.
\<close>

definition ends :: "'b res \<Rightarrow> ('b \<Rightarrow> 'a \<Rightarrow> 'o heap \<Rightarrow> bool) \<Rightarrow> 'a res \<Rightarrow> 'o heap \<Rightarrow> bool" where
  "ends r Q y h \<longleftrightarrow> (case r of Inl e \<Rightarrow> y = Inl e | Inr x \<Rightarrow> (\<exists>z. y = Inr z \<and> Q x z h))"

lemma ends_simps [simp]:
  "ends (Inl e) Q y h \<longleftrightarrow> y = Inl e"
  "ends (Inr x) Q y h \<longleftrightarrow> (\<exists>z. y = Inr z \<and> Q x z h)"
  by (simp_all add: ends_def)

definition does :: "'o heap \<Rightarrow> ('o heap \<Rightarrow> bool) \<Rightarrow> ('a, 'o) run \<Rightarrow> 'b res
    \<Rightarrow> ('b \<Rightarrow> 'a \<Rightarrow> 'o heap \<Rightarrow> bool) \<Rightarrow> bool" where
  "does h0 P m r Q \<longleftrightarrow>
     (\<forall>h. P h \<longrightarrow> prefix h0 h \<longrightarrow> (\<exists>y h'. m h = Some (y, h') \<and> prefix h0 h' \<and> ends r Q y h'))"

lemma doesI:
  "(\<And>h. P h \<Longrightarrow> prefix h0 h \<Longrightarrow> \<exists>y h'. m h = Some (y, h') \<and> prefix h0 h' \<and> ends r Q y h') \<Longrightarrow> does h0 P m r Q"
  by (simp add: does_def)

lemma doesE:
  assumes "does h0 P m r Q" and "P h" and "prefix h0 h"
  obtains y h' where "m h = Some (y, h')" "prefix h0 h'" "ends r Q y h'"
  using assms unfolding does_def by blast

lemma does_lift: "(\<And>x h. r = Inr x \<Longrightarrow> P h \<Longrightarrow> Q x x h) \<Longrightarrow> does h0 P (run_lift r) r Q"
  by (rule doesI) (cases r; simp add: run_lift)

lemma does_return: "(\<And>h. P h \<Longrightarrow> Q x y h) \<Longrightarrow> does h0 P (run_lift (Inr y)) (Inr x) Q"
  by (rule doesI) (simp add: run_lift)

lemma does_error: "does h0 P (run_lift (Inl e)) (Inl e) Q"
  by (rule doesI) (simp add: run_lift)

lemma does_bind:
  assumes m: "does h0 P m r Q" and f: "\<And>x y. r = Inr x \<Longrightarrow> does h0 (Q x y) (f y) (s x) R"
  shows "does h0 P (run_bind m f) (rbind r s) R"
proof (rule doesI)
  fix h
  assume "P h" and "prefix h0 h"
  with m obtain y h' where y: "m h = Some (y, h')" "prefix h0 h'" "ends r Q y h'"
    by (rule doesE)
  show "\<exists>y h'. run_bind m f h = Some (y, h') \<and> prefix h0 h' \<and> ends (rbind r s) R y h'"
  proof (cases r)
    case (Inl e)
    with y show ?thesis by (simp add: run_bind_def)
  next
    case (Inr x)
    with y obtain z where z: "y = Inr z" "Q x z h'" by auto
    from f [OF Inr] z(2) y(2) obtain w h'' where "f z h' = Some (w, h'')" "prefix h0 h''" "ends (s x) R w h''"
      by (rule doesE)
    with y(1) z(1) Inr show ?thesis by (simp add: run_bind_def)
  qed
qed

lemma does_fact: "(b \<Longrightarrow> does h0 P m r Q) \<Longrightarrow> does h0 (\<lambda>h. P h \<and> b) m r Q"
  by (auto simp: does_def)

lemma does_when: "(b \<Longrightarrow> does h0 P m r Q) \<Longrightarrow> does h0 (\<lambda>h. b \<and> P h) m r Q"
  by (auto simp: does_def)

lemma does_if:
  "(b \<Longrightarrow> does h0 P m r Q) \<Longrightarrow> (\<not> b \<Longrightarrow> does h0 P m' r' Q) \<Longrightarrow>
     does h0 P (if b then m else m') (if b then r else r') Q"
  by simp

lemma does_prod:
  "(\<And>x y. p = (x, y) \<Longrightarrow> does h0 P (f x y) (g x y) Q) \<Longrightarrow>
     does h0 P (case p of (x, y) \<Rightarrow> f x y) (case p of (x, y) \<Rightarrow> g x y) Q"
  by (cases p) simp

lemma does_prods:
  "(\<And>x y z w. p = (x, y) \<Longrightarrow> q = (z, w) \<Longrightarrow> does h0 P (f x y) (g z w) Q) \<Longrightarrow>
     does h0 P (case p of (x, y) \<Rightarrow> f x y) (case q of (x, y) \<Rightarrow> g x y) Q"
  by (cases p; cases q) simp

lemma does_lift_bind:
  assumes "\<And>x. r = Inr x \<Longrightarrow> does h0 P (f x) (s x) R"
  shows "does h0 P (run_bind (run_lift r) f) (rbind r s) R"
proof (rule does_bind [where Q = "\<lambda>x y h. P h \<and> y = x"])
  show "does h0 P (run_lift r) r (\<lambda>x y h. P h \<and> y = x)"
    by (rule does_lift) simp
next
  fix x y
  assume "r = Inr x"
  with assms show "does h0 (\<lambda>h. P h \<and> y = x) (f y) (s x) R"
    by (intro does_fact) simp
qed

text \<open>A step that does not depend on the heap but for its start.\<close>

lemma does_step:
  assumes "\<And>h. P h \<Longrightarrow> prefix h0 h \<Longrightarrow> \<exists>z h'. m h = Some (Inr z, h') \<and> prefix h0 h' \<and> P' z h'"
    and "\<And>z. does h0 (P' z) (f z) r R"
  shows "does h0 P (run_bind m f) r R"
proof (rule doesI)
  fix h
  assume "P h" and "prefix h0 h"
  then obtain z h' where z: "m h = Some (Inr z, h')" "prefix h0 h'" "P' z h'"
    using assms(1) by blast
  from assms(2) z(3,2) obtain y h'' where "f z h' = Some (y, h'')" "prefix h0 h''" "ends r R y h''"
    by (rule doesE)
  with z(1) show "\<exists>y h'. run_bind m f h = Some (y, h') \<and> prefix h0 h' \<and> ends r R y h'"
    by (simp add: run_bind_def)
qed

lemma does_new:
  "(\<And>h. P h \<Longrightarrow> prefix h0 h \<Longrightarrow> P' (length h) (h @ [Some x])) \<Longrightarrow> (\<And>a. does h0 (P' a) (f a) r R) \<Longrightarrow>
     does h0 P (run_bind (run_new x) f) r R"
  by (erule does_step [rotated]) (auto simp: run_new_def alloc_def intro: prefix_prefix)

lemma prefix_store: "prefix h0 h \<Longrightarrow> length h0 \<le> a \<Longrightarrow> prefix h0 (store h a x)"
  by (auto simp: prefix_def store_def list_update_append)

lemma does_set:
  "length h0 \<le> a \<Longrightarrow> (\<And>h. P h \<Longrightarrow> prefix h0 h \<Longrightarrow> P' (store h a x)) \<Longrightarrow> does h0 P' (f ()) r R \<Longrightarrow>
     does h0 P (run_bind (run_set a x) f) r R"
  by (rule does_step [where P' = "\<lambda>u. P'"]) (auto simp: run_set_def prefix_store)

lemma does_get:
  "(\<And>h. P h \<Longrightarrow> lookup h a = Some x) \<Longrightarrow> does h0 P (f x) r R \<Longrightarrow> does h0 P (run_bind (run_get a) f) r R"
  by (rule does_step [where P' = "\<lambda>z h. P h \<and> z = x"], simp add: run_get_def object_at_Some,
    rule does_fact) simp

lemma does_pre: "does h0 P m r Q \<Longrightarrow> (\<And>h. P' h \<Longrightarrow> prefix h0 h \<Longrightarrow> P h) \<Longrightarrow> does h0 P' m r Q"
  by (simp add: does_def)

lemma does_post:
  assumes "does h0 P m r Q" and "\<And>x y h. r = Inr x \<Longrightarrow> prefix h0 h \<Longrightarrow> Q x y h \<Longrightarrow> Q' x y h"
  shows "does h0 P m r Q'"
proof (rule doesI)
  fix h
  assume "P h" and "prefix h0 h"
  with assms(1) obtain y h' where "m h = Some (y, h')" "prefix h0 h'" "ends r Q y h'"
    by (rule doesE)
  with assms(2) show "\<exists>y h'. m h = Some (y, h') \<and> prefix h0 h' \<and> ends r Q' y h'"
    by (cases r) auto
qed

text \<open>The frame: what is as it was from a heap on is so from any heap that it extends.\<close>

lemma does_base:
  assumes "\<And>h. P h \<Longrightarrow> prefix h0 h \<Longrightarrow> \<exists>h1. prefix h0 h1 \<and> prefix h1 h \<and> does h1 (\<lambda>h'. h' = h) m r Q"
  shows "does h0 P m r Q"
proof (rule doesI)
  fix h
  assume "P h" and "prefix h0 h"
  then obtain h1 where h1: "prefix h0 h1" "prefix h1 h" "does h1 (\<lambda>h'. h' = h) m r Q"
    using assms by blast
  from h1(3) refl h1(2) obtain y h' where "m h = Some (y, h')" "prefix h1 h'" "ends r Q y h'"
    by (rule doesE)
  with h1(1) show "\<exists>y h'. m h = Some (y, h') \<and> prefix h0 h' \<and> ends r Q y h'"
    by (meson prefix_order.trans)
qed

lemma does_from: "prefix h0 h \<Longrightarrow> does h (\<lambda>h'. h' = h) m r Q \<Longrightarrow> does h0 (\<lambda>h'. h' = h) m r Q"
  by (rule does_base) auto

lemma does_result:
  assumes "does h (\<lambda>h'. h' = h) m r Q"
  shows "case r of Inl e \<Rightarrow> \<exists>g. m h = Some (Inl e, h @ g) | Inr x \<Rightarrow> \<exists>y g. m h = Some (Inr y, h @ g) \<and> Q x y (h @ g)"
proof -
  from assms refl prefix_order.refl obtain y h' where "m h = Some (y, h')" "prefix h h'" "ends r Q y h'"
    by (rule doesE)
  then show ?thesis by (cases r) (auto simp: prefix_def)
qed

lemma does_Inr:
  assumes "does h (\<lambda>h'. h' = h) m r Q" and "m h = Some (Inr y, h')"
  obtains x where "r = Inr x" "Q x y h'"
  using does_result [OF assms(1)] assms(2) by (auto split: sum.splits)

text \<open>A loop or a call that starts anywhere.\<close>

lemma does_fix: "(\<And>h. P h \<Longrightarrow> prefix h0 h \<Longrightarrow> does h0 (\<lambda>h'. h' = h) m r Q) \<Longrightarrow> does h0 P m r Q"
  by (simp add: does_def)

subsection \<open>Runs that delete nothing\<close>

definition keeps :: "('a, 'o) run \<Rightarrow> bool" where
  "keeps m \<longleftrightarrow> (\<forall>h r h'. m h = Some (r, h') \<longrightarrow> heap.live h \<subseteq> heap.live h')"

named_theorems keeps_intros \<open>runs that delete nothing\<close>

lemma keeps_bind [keeps_intros]: "keeps m \<Longrightarrow> (\<And>x. keeps (f x)) \<Longrightarrow> keeps (run_bind m f)"
  unfolding keeps_def run_bind_eq_Some by blast

lemma keeps_lift [keeps_intros]: "keeps (run_lift r)"
  by (simp add: keeps_def run_lift_def)

lemma keeps_run_option [keeps_intros]: "keeps (run_option r)"
  by (auto simp: keeps_def run_option_def)

lemma keeps_new [keeps_intros]: "keeps (run_new x)"
  by (auto simp: keeps_def run_new_def alloc_def heap.live_def lookup_append dest: lookup_bound)

lemma keeps_get [keeps_intros]: "keeps (run_get a)"
  by (simp add: keeps_def run_get_def)

lemma keeps_set [keeps_intros]: "keeps (run_set a x)"
proof -
  have "lookup h b \<noteq> None \<Longrightarrow> lookup (store h a x) b \<noteq> None" for h b
    by (cases "b = a") (auto simp: lookup_def store_def split: if_splits)
  then show ?thesis by (auto simp: keeps_def run_set_def heap.live_def)
qed

lemma keeps_option [keeps_intros]:
  "keeps f \<Longrightarrow> (\<And>y. keeps (g y)) \<Longrightarrow> keeps (case x of None \<Rightarrow> f | Some y \<Rightarrow> g y)"
  by (cases x) simp_all

lemma keeps_prod [keeps_intros]: "(\<And>x y. keeps (f x y)) \<Longrightarrow> keeps (case p of (x, y) \<Rightarrow> f x y)"
  by (cases p) simp

lemma keeps_if [keeps_intros]: "keeps f \<Longrightarrow> keeps g \<Longrightarrow> keeps (if b then f else g)"
  by simp

end
