(* ===== verification/Objects.thy ===== *)
theory Objects
  imports Runs Vectors
begin

section \<open>Structs, scalars and vectors as objects\<close>

text \<open>
  The other theories take a \<open>Struct\<close> for the values of its members. Here it is what
  \<open>include/psfdata.h\<close> makes it, a map from names to pointers, with the copy constructor and the
  destructor of \<open>src/psfdata.cc\<close>, the virtual \<open>clone\<close>, and the assignment operator that nobody
  wrote. \<open>owns_cell\<close> relates an object to the value that the model gives it: the members are
  there, each in its own object, and nothing else points to them.
\<close>

subsection \<open>The objects\<close>

text \<open>
  A cell is a \<open>T\<close> of \<open>PSFScalarT<T>\<close> or \<open>PSFVectorT<T>\<close>: a number or a string, or a \<open>Struct\<close>
  with its pointers. A vector has the cell that \<open>resize\<close> copies and its elements.
\<close>

datatype cell = Plain scalar | Pointers "structdef option" "(string \<times> nat) list"

text \<open>
  Of the classes of \<open>psfinternal.h\<close> an object keeps its pointers; what else it holds is what the model
  has of it. A \<open>Property\<close> and a \<open>PropertyBlock\<close>, which are members of other objects, come with that: a
  property with a pointer to its value, a block with its properties in a list, and pointers to scalars
  in a map.
\<close>

record property_object =
  po_property :: property
  po_value :: "nat option"

record block_object =
  bo_block :: propertyblock
  bo_proplist :: "property_object list"
  bo_propmap :: "(string \<times> nat) list"

datatype object =
    ScalarObject cell
  | VectorObject cell "cell list"
  | VectorStructObject "int option" "(string \<times> nat) list"
  | PropertyObject property_object
  | DataTypeDefObject "nat option" block_object
  | StructDefObject "nat list"
  | DataTypeRefObject block_object
  | GroupDefObject "nat list"
  | NonSweepValueObject "nat option" block_object
  | HeaderSectionObject "nat list" block_object
  | IndexedContainerObject "nat list" \<comment> \<open>a section of types, traces or values\<close>
  | SweepSectionObject "nat list"
  | ValueSectionSweepObject

definition cell_of :: "scalar \<Rightarrow> cell" where
  "cell_of v = (case v of StructScalar s \<Rightarrow> Pointers (struct_def s) [] | _ \<Rightarrow> Plain v)"

definition cell_typeid :: "cell \<Rightarrow> int" where
  "cell_typeid c = (case c of Plain v \<Rightarrow> scalar_typeid v | Pointers sd ps \<Rightarrow> TYPEID_STRUCT)"

text \<open>
  What the destructors delete: \<open>~Struct\<close> the objects of its members, a vector the members of its
  elements. \<open>VectorStruct\<close> has no destructor of its own, and its map holds plain pointers. The body of
  a destructor is first, then the members, then the base class: \<open>~Container\<close> deletes the children. Nor has
  \<open>PropertyBlock\<close> a destructor: the properties of its list are destroyed, which deletes their values,
  and the scalars of its map are not.
\<close>

definition Struct_destructor :: "cell \<Rightarrow> nat list" where
  "Struct_destructor c = (case c of Plain v \<Rightarrow> [] | Pointers sd ps \<Rightarrow> map snd ps)"

definition opt :: "'a option \<Rightarrow> 'a list" where
  "opt x = (case x of None \<Rightarrow> [] | Some y \<Rightarrow> [y])"

definition Property_destructor :: "property_object \<Rightarrow> nat list" where
  "Property_destructor p = opt (po_value p)"

definition PropertyBlock_destructor :: "block_object \<Rightarrow> nat list" where
  "PropertyBlock_destructor b = concat (map Property_destructor (bo_proplist b))"

definition Container_destructor :: "nat list \<Rightarrow> nat list" where
  "Container_destructor children = children"

definition DataTypeDef_destructor :: "nat option \<Rightarrow> block_object \<Rightarrow> nat list" where
  "DataTypeDef_destructor m_structdef m_properties = opt m_structdef @ PropertyBlock_destructor m_properties"

definition NonSweepValue_destructor :: "nat option \<Rightarrow> block_object \<Rightarrow> nat list" where
  "NonSweepValue_destructor m_value m_propblock = opt m_value @ PropertyBlock_destructor m_propblock"

definition destructor :: "object \<Rightarrow> nat list" where
  "destructor x = (case x of
     ScalarObject c \<Rightarrow> Struct_destructor c
   | VectorObject init cs \<Rightarrow> Struct_destructor init @ concat (map Struct_destructor cs)
   | VectorStructObject n ps \<Rightarrow> []
   | PropertyObject p \<Rightarrow> Property_destructor p
   | DataTypeDefObject m_structdef m_properties \<Rightarrow> DataTypeDef_destructor m_structdef m_properties
   | StructDefObject children \<Rightarrow> Container_destructor children
   | DataTypeRefObject m_properties \<Rightarrow> PropertyBlock_destructor m_properties
   | GroupDefObject children \<Rightarrow> Container_destructor children
   | NonSweepValueObject m_value m_propblock \<Rightarrow> NonSweepValue_destructor m_value m_propblock
   | HeaderSectionObject children m_properties \<Rightarrow>
       PropertyBlock_destructor m_properties @ Container_destructor children
   | IndexedContainerObject children \<Rightarrow> Container_destructor children
   | SweepSectionObject children \<Rightarrow> Container_destructor children
   | ValueSectionSweepObject \<Rightarrow> [])"

text \<open>\<open>delete\<close> through a pointer to \<open>PSFBase\<close>, whose destructor is virtual.\<close>

definition delete_object :: "object heap \<Rightarrow> nat \<Rightarrow> object heap res" where
  "delete_object h a = delete_all destructor h [a]"

text \<open>
  \<open>clone\<close> is \<open>new PSFScalarT(*this)\<close>, which for a struct runs the copy constructor: every member
  is cloned. A chain of structs that closed on itself would be copied for ever; \<open>None\<close> is that
  case, found when the depth exceeds the number of objects.
\<close>

fun clone_cell :: "nat \<Rightarrow> object heap \<Rightarrow> cell \<Rightarrow> (cell \<times> object heap) res option"
  and Struct_copy :: "nat \<Rightarrow> object heap \<Rightarrow> (string \<times> nat) list
     \<Rightarrow> ((string \<times> nat) list \<times> object heap) res option" where
  "clone_cell depth h (Plain v) = Some (Inr (Plain v, h))"
| "clone_cell 0 h (Pointers sd ps) = None"
| "clone_cell (Suc depth) h (Pointers sd ps) =
     map_option (\<lambda>r. rbind r (\<lambda>(ps, h). Inr (Pointers sd ps, h))) (Struct_copy depth h ps)"
| "Struct_copy depth h [] = Some (Inr ([], h))"
| "Struct_copy depth h ((key, p) # ps) =
     (case object_at h p of
        Inl e \<Rightarrow> Some (Inl e)
      | Inr (ScalarObject c) \<Rightarrow>
          (case clone_cell depth h c of
             None \<Rightarrow> None
           | Some (Inl e) \<Rightarrow> Some (Inl e)
           | Some (Inr (c, h)) \<Rightarrow> (let (q, h) = alloc (ScalarObject c) h in
               map_option (\<lambda>r. rbind r (\<lambda>(qs, h). Inr ((key, q) # qs, h))) (Struct_copy depth h ps)))
      | Inr _ \<Rightarrow> Some (Inl (Undefined WrongType)))"

definition clone :: "object heap \<Rightarrow> nat \<Rightarrow> (nat \<times> object heap) res option" where
  "clone h a =
     (case object_at h a of
        Inl e \<Rightarrow> Some (Inl e)
      | Inr (ScalarObject c) \<Rightarrow>
          map_option (\<lambda>r. rbind r (\<lambda>(c, h). Inr (alloc (ScalarObject c) h))) (clone_cell (length h) h c)
      | Inr _ \<Rightarrow> Some (Inl (Undefined WrongType)))"

text \<open>Two maps with the same keys, and entries that are related.\<close>

definition same_keys :: "('b \<Rightarrow> 'c \<Rightarrow> bool) \<Rightarrow> (string \<times> 'b) list \<Rightarrow> (string \<times> 'c) list \<Rightarrow> bool" where
  "same_keys P = list_all2 (\<lambda>(k, p) (k', w). k = k' \<and> P p w)"

lemma same_keys_put: "same_keys P ps m \<Longrightarrow> P q v \<Longrightarrow> same_keys P (map_put k q ps) (map_put k v m)"
  unfolding same_keys_def
proof (induction ps m rule: list_all2_induct)
  case (Cons kp ps kw m)
  then show ?case by (cases kp; cases kw) auto
qed simp

lemma same_keys_mono: "same_keys P ps m \<Longrightarrow> (\<And>p w. p \<in> snd ` set ps \<Longrightarrow> P p w \<Longrightarrow> Q p w) \<Longrightarrow> same_keys Q ps m"
  unfolding same_keys_def
  by (auto simp: list_all2_conv_all_nth split: prod.splits) (metis nth_mem rev_image_eqI snd_conv)+

subsection \<open>What an object owns\<close>

inductive owns_cell :: "object heap \<Rightarrow> cell \<Rightarrow> scalar \<Rightarrow> nat list \<Rightarrow> bool"
  and owns_members :: "object heap \<Rightarrow> (string \<times> nat) list \<Rightarrow> (string \<times> scalar) list \<Rightarrow> nat list \<Rightarrow> bool"
  for h where
  owns_plain: "scalar_typeid v \<noteq> TYPEID_STRUCT \<Longrightarrow> owns_cell h (Plain v) v []"
| owns_struct: "owns_members h ps m A \<Longrightarrow> owns_cell h (Pointers sd ps) (StructScalar (Struct sd m)) A"
| owns_none: "owns_members h [] [] []"
| owns_member: "lookup h p = Some (ScalarObject c) \<Longrightarrow> owns_cell h c v A \<Longrightarrow> owns_members h ps m B
    \<Longrightarrow> distinct (p # A @ B) \<Longrightarrow> owns_members h ((key, p) # ps) ((key, v) # m) (p # A @ B)"

inductive_cases owns_PlainE: "owns_cell h (Plain w) v A"
inductive_cases owns_PointersE: "owns_cell h (Pointers sd ps) v A"
inductive_cases owns_StructE: "owns_cell h c (StructScalar s) A"
inductive_cases owns_NilE: "owns_members h [] m A"
inductive_cases owns_ConsE: "owns_members h (kp # ps) m A"

definition owns_scalar :: "object heap \<Rightarrow> nat \<Rightarrow> scalar \<Rightarrow> nat list \<Rightarrow> bool" where
  "owns_scalar h a v A \<longleftrightarrow>
     (\<exists>c B. lookup h a = Some (ScalarObject c) \<and> owns_cell h c v B \<and> A = a # B \<and> distinct A)"

lemma owns_live:
  "owns_cell h c v A \<Longrightarrow> set A \<subseteq> heap.live h"
  "owns_members h ps m A \<Longrightarrow> set A \<subseteq> heap.live h"
  by (induction rule: owns_cell_owns_members.inducts) (auto simp: heap.live_def)

lemma owns_distinct:
  "owns_cell h c v A \<Longrightarrow> distinct A"
  "owns_members h ps m A \<Longrightarrow> distinct A"
  by (induction rule: owns_cell_owns_members.inducts) auto

lemma owns_frame:
  "owns_cell h c v A \<Longrightarrow> \<forall>a \<in> set A. lookup h' a = lookup h a \<Longrightarrow> owns_cell h' c v A"
  "owns_members h ps m A \<Longrightarrow> \<forall>a \<in> set A. lookup h' a = lookup h a \<Longrightarrow> owns_members h' ps m A"
proof (induction rule: owns_cell_owns_members.inducts)
  case (owns_member p c v A ps m B key)
  then show ?case by (intro owns_cell_owns_members.owns_member) auto
qed (auto intro: owns_cell_owns_members.intros)

lemma live_extend: "a \<in> heap.live h \<Longrightarrow> lookup (h @ g) a = lookup h a"
  by (simp add: lookup_append live_bound)

lemma owns_extend:
  "owns_cell h c v A \<Longrightarrow> owns_cell (h @ g) c v A"
  "owns_members h ps m A \<Longrightarrow> owns_members (h @ g) ps m A"
  by (rule owns_frame(1), assumption, metis live_extend owns_live(1) subsetD)
    (rule owns_frame(2), assumption, metis live_extend owns_live(2) subsetD)

lemma owns_keys: "owns_members h ps m A \<Longrightarrow> map fst ps = map fst m"
  by (induction ps arbitrary: m A) (auto elim: owns_NilE owns_ConsE)

subsection \<open>Destroying what is owned\<close>

lemma delete_owned:
  "owns_cell h c v A \<Longrightarrow> \<forall>a \<in> set A. lookup h' a = lookup h a \<Longrightarrow>
     delete_all destructor h' (Struct_destructor c @ as) = delete_all destructor (release_all h' A) as"
  "owns_members h ps m A \<Longrightarrow> \<forall>a \<in> set A. lookup h' a = lookup h a \<Longrightarrow>
     delete_all destructor h' (map snd ps @ as) = delete_all destructor (release_all h' A) as"
proof (induction arbitrary: h' as and h' as rule: owns_cell_owns_members.inducts)
  case (owns_member p c v A ps m B key)
  have "\<forall>a \<in> set A. lookup (release h' p) a = lookup h a"
    and B: "\<forall>a \<in> set B. lookup (release_all (release h' p) A) a = lookup h a"
    using owns_member.prems \<open>distinct (p # A @ B)\<close>
    by (auto simp: heap.lookup_release lookup_release_all)
  then show ?case
    using owns_member.IH(3) [of "release h' p"] owns_member.IH(5) [OF B] owns_member.prems
      \<open>lookup h p = Some (ScalarObject c)\<close>
    by (simp add: object_at_Some destructor_def)
qed (simp_all add: Struct_destructor_def)

lemma delete_scalar:
  assumes "owns_scalar h a v A"
  shows "delete_object h a = Inr (release_all h A)"
proof -
  obtain c B where c: "lookup h a = Some (ScalarObject c)" "owns_cell h c v B" "A = a # B" "distinct A"
    using assms by (auto simp: owns_scalar_def)
  then have "\<forall>b \<in> set B. lookup (release h a) b = lookup h b"
    by (auto simp: heap.lookup_release)
  from delete_owned(1) [OF c(2) this, of "[]"] c(1,3) show ?thesis
    by (simp add: delete_object_def object_at_Some destructor_def)
qed

subsection \<open>Copies\<close>

text \<open>
  A copy owns objects of its own: all those that were made for it. What was there before is
  untouched, whoever it belongs to.
\<close>

definition fresh :: "object heap \<Rightarrow> object heap \<Rightarrow> nat set" where
  "fresh h h' = {length h ..< length h'}"

lemma new_not_live: "a \<in> fresh h h' \<Longrightarrow> a \<notin> heap.live h"
  by (auto simp: fresh_def dest: live_bound)

lemma clone_cell_owned:
  "owns_cell h c v A \<Longrightarrow> length A < depth \<Longrightarrow>
     \<exists>g c' B. clone_cell depth (h @ ext) c = Some (Inr (c', h @ ext @ g))
       \<and> owns_cell (h @ ext @ g) c' v B \<and> set B = fresh (h @ ext) (h @ ext @ g)"
  "owns_members h ps m A \<Longrightarrow> length A \<le> depth \<Longrightarrow>
     \<exists>g ps' B. Struct_copy depth (h @ ext) ps = Some (Inr (ps', h @ ext @ g))
       \<and> owns_members (h @ ext @ g) ps' m B \<and> set B = fresh (h @ ext) (h @ ext @ g)"
proof (induction arbitrary: depth ext and depth ext rule: owns_cell_owns_members.inducts)
  case (owns_plain v)
  then show ?case
    by (intro exI [of _ "[]"] exI [of _ "Plain v"]) (auto simp: fresh_def intro: owns_cell_owns_members.owns_plain)
next
  case (owns_struct ps m A sd)
  then obtain d where d: "depth = Suc d" "length A \<le> d"
    by (cases depth) auto
  then obtain g ps' B where g: "Struct_copy d (h @ ext) ps = Some (Inr (ps', h @ ext @ g))"
    "owns_members (h @ ext @ g) ps' m B" "set B = fresh (h @ ext) (h @ ext @ g)"
    using owns_struct.IH by blast
  then show ?case
    using d by (intro exI [of _ g] exI [of _ "Pointers sd ps'"] exI [of _ B])
      (auto intro: owns_cell_owns_members.owns_struct)
next
  case owns_none
  then show ?case
    by (intro exI [of _ "[]"] exI [of _ "[]"]) (auto simp: fresh_def intro: owns_cell_owns_members.owns_none)
next
  case (owns_member p c v A ps m B key)
  have p: "lookup (h @ ext) p = Some (ScalarObject c)"
    using owns_member.IH(1) by (simp add: live_extend heap.live_def)
  have "length A < depth" "length B \<le> depth"
    using owns_member.prems by simp_all
  then obtain g c' A' where g: "clone_cell depth (h @ ext) c = Some (Inr (c', h @ ext @ g))"
    and c': "owns_cell (h @ ext @ g) c' v A'" and A': "set A' = fresh (h @ ext) (h @ ext @ g)"
    using owns_member.IH(3) by blast
  let ?q = "length (h @ ext @ g)" and ?ext = "ext @ g @ [Some (ScalarObject c')]"
  obtain g' ps' B' where g': "Struct_copy depth (h @ ?ext) ps = Some (Inr (ps', h @ ?ext @ g'))"
    and ps': "owns_members (h @ ?ext @ g') ps' m B'" and B': "set B' = fresh (h @ ?ext) (h @ ?ext @ g')"
    using owns_member.IH(5) [OF \<open>length B \<le> depth\<close>] by blast
  let ?g = "g @ Some (ScalarObject c') # g'"
  have q: "lookup (h @ ext @ ?g) ?q = Some (ScalarObject c')"
    by (simp add: lookup_def nth_append)
  have c'': "owns_cell (h @ ext @ ?g) c' v A'"
    using owns_extend(1) [OF c', of "Some (ScalarObject c') # g'"] by simp
  have ps'': "owns_members (h @ ext @ ?g) ps' m B'"
    using ps' by simp
  have "distinct (?q # A' @ B')"
    using owns_distinct(1) [OF c'] owns_distinct(2) [OF ps'] A' B' by (auto simp: fresh_def)
  from owns_cell_owns_members.owns_member [OF q c'' ps'' this, of key]
  have "owns_members (h @ ext @ ?g) ((key, ?q) # ps') ((key, v) # m) (?q # A' @ B')" .
  moreover have "set (?q # A' @ B') = fresh (h @ ext) (h @ ext @ ?g)"
    using A' B' by (auto simp: fresh_def)
  moreover have "Struct_copy depth (h @ ext) ((key, p) # ps) = Some (Inr ((key, ?q) # ps', h @ ext @ ?g))"
    using p g g' by (simp add: object_at_Some alloc_def Let_def)
  ultimately show ?case by blast
qed

lemma owns_length:
  assumes "owns_scalar h a v A"
  shows "length A \<le> length h"
proof -
  have "set A \<subseteq> {..< length h}"
    using assms owns_live(1) live_bound by (force simp: owns_scalar_def heap.live_def)
  then have "card (set A) \<le> length h"
    using card_mono [of "{..< length h}" "set A"] by simp
  then show ?thesis
    using assms by (auto simp: owns_scalar_def distinct_card simp del: set_simps)
qed

lemma clone_owned:
  assumes "owns_scalar h a v A"
  shows "\<exists>g b B. clone h a = Some (Inr (b, h @ g)) \<and> owns_scalar (h @ g) b v B \<and> set B = fresh h (h @ g)"
proof -
  obtain c A' where c: "lookup h a = Some (ScalarObject c)" "owns_cell h c v A'" "A = a # A'"
    using assms by (auto simp: owns_scalar_def)
  then obtain g c' B where g: "clone_cell (length h) h c = Some (Inr (c', h @ g))"
    and own: "owns_cell (h @ g) c' v B" and B: "set B = fresh h (h @ g)"
    using clone_cell_owned(1) [OF c(2), of "length h" "[]"] owns_length [OF assms] by auto
  let ?g = "g @ [Some (ScalarObject c')]" and ?b = "length (h @ g)"
  have "owns_scalar (h @ ?g) ?b v (?b # B)"
    using owns_extend(1) [OF own, of "[Some (ScalarObject c')]"] owns_distinct(1) [OF own] B
    by (auto simp: owns_scalar_def lookup_def nth_append fresh_def)
  moreover have "set (?b # B) = fresh h (h @ ?g)"
    using B by (auto simp: fresh_def)
  ultimately show ?thesis
    using c(1) g by (intro exI [of _ ?g] exI [of _ ?b]) (auto simp: clone_def object_at_Some alloc_def)
qed

lemma owns_scalar_frame:
  "owns_scalar h a v A \<Longrightarrow> \<forall>x \<in> set A. lookup h' x = lookup h x \<Longrightarrow> owns_scalar h' a v A"
  by (auto simp: owns_scalar_def intro: owns_frame(1))

lemma owns_scalar_live: "owns_scalar h a v A \<Longrightarrow> set A \<subseteq> heap.live h"
  using owns_live(1) by (force simp: owns_scalar_def heap.live_def)

text \<open>The copy and the original can be deleted in either order, and each delete spares the other.\<close>

lemma clone_independent:
  assumes own: "owns_scalar h a v A" and clone: "clone h a = Some (Inr (b, h'))"
  obtains B h1 h2 where "owns_scalar h' b v B" "owns_scalar h' a v A" "set A \<inter> set B = {}"
    "heap.live h' = heap.live h \<union> set B" "set B \<inter> heap.live h = {}"
    "delete_object h' b = Inr h1" "owns_scalar h1 a v A" "heap.live h1 = heap.live h"
    "delete_object h' a = Inr h2" "owns_scalar h2 b v B" "heap.live h2 = heap.live h' - set A"
proof -
  obtain g B where g: "h' = h @ g" and B: "owns_scalar h' b v B" "set B = fresh h h'"
    using clone_owned [OF own] clone by auto
  have a: "owns_scalar h' a v A"
    unfolding g by (rule owns_scalar_frame [OF own]) (metis live_extend owns_scalar_live own subsetD)
  have disj: "set B \<inter> heap.live h = {}"
    using B(2) new_not_live by blast
  then have AB: "set A \<inter> set B = {}"
    using owns_scalar_live [OF own] by blast
  have "heap.live h' \<subseteq> heap.live h \<union> fresh h h'"
    unfolding g by (auto simp: heap.live_def fresh_def lookup_def nth_append split: if_splits)
  moreover have "heap.live h \<subseteq> heap.live h'"
    using live_extend [of _ h g] unfolding g by (auto simp: heap.live_def)
  ultimately have live: "heap.live h' = heap.live h \<union> set B"
    using B owns_scalar_live [OF B(1)] by auto
  show thesis
  proof (rule that [OF B(1) a AB live disj delete_scalar [OF B(1)] _ _ delete_scalar [OF a]])
    show "owns_scalar (release_all h' B) a v A"
      using AB by (intro owns_scalar_frame [OF a]) (auto simp: lookup_release_all)
    show "heap.live (release_all h' B) = heap.live h"
      using live disj by (auto simp: live_release_all)
    show "owns_scalar (release_all h' A) b v B"
      using AB by (intro owns_scalar_frame [OF B(1)]) (auto simp: lookup_release_all)
    show "heap.live (release_all h' A) = heap.live h' - set A"
      by (rule live_release_all)
  qed
qed

subsection \<open>Reading a struct\<close>

text \<open>
  \<open>deserialize\<close> of a scalar acts on its cell. A struct makes a scalar for each member and stores
  the pointer under the name of the member; a pointer that was there is overwritten, and what it
  pointed to is never deleted.
\<close>

definition cell_measure :: "cell \<Rightarrow> nat" where
  "cell_measure c = (case c of Pointers (Some sd) ps \<Rightarrow> 3 * size sd + 1 | _ \<Rightarrow> 0)"

lemma new_scalar_cell_measure: "new_scalar td = Inr v \<Longrightarrow> cell_measure (cell_of v) < 3 * size td"
  by (cases td) (auto simp: new_scalar_def Let_def cell_measure_def cell_of_def split: if_splits option.splits)

declare run_bind_cong [fundef_cong]

function read_cell :: "image \<Rightarrow> int \<Rightarrow> cell \<Rightarrow> (cell \<times> int, object) run"
  and read_members :: "image \<Rightarrow> (string \<times> nat) list \<Rightarrow> datatypedef list \<Rightarrow> int
     \<Rightarrow> ((string \<times> nat) list \<times> int, object) run"
where
  "read_cell img buf (Plain v) =
     run_bind (run_lift (scalar_deserialize img buf v)) (\<lambda>(v, n). run_lift (Inr (Plain v, n)))"
| "read_cell img startbuf (Pointers None ps) = run_lift (Inl (Undefined NullPointer))"
| "read_cell img startbuf (Pointers (Some structdef) ps) =
     run_bind (read_members img ps (sd_children structdef) startbuf) (\<lambda>(ps, buf).
     run_lift (Inr (Pointers (Some structdef) ps, buf - startbuf)))"
| "read_members img ps [] buf = run_lift (Inr (ps, buf))"
| "read_members img ps (itemdef # itemdefs) buf =
     run_bind (run_lift (new_scalar itemdef)) (\<lambda>v.
     run_bind (run_new (ScalarObject (cell_of v))) (\<lambda>itemvalue.
     run_bind (read_cell img buf (cell_of v)) (\<lambda>(c, n).
     run_bind (run_set itemvalue (ScalarObject c)) (\<lambda>u.
     read_members img (map_put (td_name itemdef) itemvalue ps) itemdefs (buf + n)))))"
  by pat_completeness auto

termination
proof (relation "measure (\<lambda>x. case x of
    Inl (img, buf, c) \<Rightarrow> cell_measure c
  | Inr (img, ps, tds, buf) \<Rightarrow> 3 * size_list size tds)")
qed (auto simp: cell_measure_def run_lift less_Suc_eq_le size_sd_children [THEN less_imp_le]
    dest: new_scalar_cell_measure)

declare run_bind_cong [fundef_cong del]

text \<open>Assigning a member: what the map owns afterwards, and what it owned before or was made for it.\<close>

lemma owns_members_put:
  assumes "owns_members h ps m A" and "lookup h q = Some (ScalarObject c)" and "owns_cell h c v B"
    and "distinct (q # B)" and "set A \<inter> set (q # B) = {}"
  shows "\<exists>C. owns_members h (map_put k q ps) (map_put k v m) C \<and> set C \<subseteq> set A \<union> set (q # B)"
  using assms(1,5)
proof (induction ps arbitrary: m A)
  case Nil
  have "owns_members h [(k, q)] [(k, v)] (q # B @ [])"
    using assms(2-4) by (intro owns_member owns_none) auto
  moreover have "m = []"
    using Nil(1) by (auto elim: owns_NilE)
  ultimately show ?case by auto
next
  case (Cons kp ps)
  from Cons.prems(1) obtain key p c' v' A' m' B' where
    kp: "kp = (key, p)" "m = (key, v') # m'" "A = p # A' @ B'"
    and p: "lookup h p = Some (ScalarObject c')" "owns_cell h c' v' A'" "owns_members h ps m' B'" "distinct (p # A' @ B')"
    by (auto elim!: owns_ConsE)
  have B': "set B' \<inter> set (q # B) = {}"
    using Cons.prems(2) kp(3) by auto
  consider "k < key" | "k = key" | "key < k"
    by (cases k key rule: linorder_cases) auto
  then show ?case
  proof cases
    case 1
    have "owns_members h ((k, q) # kp # ps) ((k, v) # m) (q # B @ A)"
      using assms(2-4) Cons.prems owns_distinct(2) [OF Cons.prems(1)] by (intro owns_member) auto
    with 1 kp show ?thesis by fastforce
  next
    case 2
    have "owns_members h ((k, q) # ps) ((k, v) # m') (q # B @ B')"
      using assms(2-4) p B' by (intro owns_member) auto
    with 2 kp show ?thesis by fastforce
  next
    case 3
    obtain C where C: "owns_members h (map_put k q ps) (map_put k v m') C" "set C \<subseteq> set B' \<union> set (q # B)"
      using Cons.IH [OF p(3) B'] by blast
    then have "owns_members h ((key, p) # map_put k q ps) ((key, v') # map_put k v m') (p # A' @ C)"
      using p Cons.prems(2) kp(3) owns_distinct(2) [OF C(1)] by (intro owns_member) auto
    with 3 kp C(2) show ?thesis by fastforce
  qed
qed

lemma scalar_deserialize_plain:
  "scalar_typeid v \<noteq> TYPEID_STRUCT \<Longrightarrow> scalar_deserialize img buf v = Inr (w, n) \<Longrightarrow>
     scalar_typeid w \<noteq> TYPEID_STRUCT"
  by (cases v) (auto simp: basic_deserialize_defs StringScalar_deserialize_def res_simps typeid_defs)

lemma cell_of_plain: "scalar_typeid v \<noteq> TYPEID_STRUCT \<Longrightarrow> cell_of v = Plain v"
  by (cases v) (simp_all add: cell_of_def)

text \<open>The object of a member, made before it was read, and stored under the name of the member.\<close>

lemma member_stored:
  assumes "owns_members h ps m A" and c: "owns_cell ((h @ [Some x]) @ g) c v B"
    and B: "set B \<subseteq> fresh (h @ [Some x]) ((h @ [Some x]) @ g)"
  shows "\<exists>C. owns_members (h @ Some (ScalarObject c) # g) (map_put k (length h) ps) (map_put k v m) C
    \<and> set C \<subseteq> set A \<union> fresh h (h @ Some (ScalarObject c) # g)"
proof -
  let ?h2 = "h @ Some (ScalarObject c) # g" and ?q = "length h"
  have q: "?q \<notin> set B"
    using B by (auto simp: fresh_def)
  moreover have "lookup ?h2 a = lookup ((h @ [Some x]) @ g) a" if "a \<noteq> ?q" for a
    using that by (auto simp: lookup_def nth_append nth_Cons split: nat.split)
  ultimately have c2: "owns_cell ?h2 c v B"
    by (intro owns_frame(1) [OF c]) metis
  have A: "set A \<inter> set (?q # B) = {}"
    using B owns_live(2) [OF assms(1)] live_bound by (force simp: fresh_def)
  have "lookup ?h2 ?q = Some (ScalarObject c)"
    by (simp add: lookup_def nth_append)
  from owns_members_put [OF owns_extend(2) [OF assms(1)] this c2 _ A] obtain C where
    "owns_members ?h2 (map_put k ?q ps) (map_put k v m) C" "set C \<subseteq> set A \<union> set (?q # B)"
    using q owns_distinct(1) [OF c2] by fastforce
  moreover have "set (?q # B) \<subseteq> fresh h ?h2"
    using B by (auto simp: fresh_def)
  ultimately show ?thesis by blast
qed

text \<open>The objects that are made for the members of a value, at every depth.\<close>

fun type_members :: "datatypedef \<Rightarrow> nat" and types_members :: "datatypedef list \<Rightarrow> nat" where
  "type_members (DataTypeDef tid name typeid pb None sz) = 0"
| "type_members (DataTypeDef tid name typeid pb (Some (StructDef children sdsize)) sz) =
     (if typeid = TYPEID_STRUCT then types_members children else 0)"
| "types_members [] = 0"
| "types_members (td # tds) = Suc (type_members td) + types_members tds"

lemma read_plain_does:
  assumes "scalar_typeid v0 \<noteq> TYPEID_STRUCT"
  shows "does h (\<lambda>h'. h' = h) (read_cell img buf (cell_of v0)) (scalar_deserialize img buf v0)
    (\<lambda>(v, n) (c, n') h'. n' = n \<and> (\<exists>g B. h' = h @ g \<and> owns_cell h' c v B \<and> set B \<subseteq> fresh h h' \<and> live_count g = 0))"
proof (rule doesI)
  fix h'
  assume h': "h' = h"
  show "\<exists>y h''. read_cell img buf (cell_of v0) h' = Some (y, h'') \<and> prefix h h'' \<and> ends (scalar_deserialize img buf v0)
    (\<lambda>(v, n) (c, n') h'. n' = n \<and> (\<exists>g B. h' = h @ g \<and> owns_cell h' c v B \<and> set B \<subseteq> fresh h h' \<and> live_count g = 0)) y h''"
  proof (cases "scalar_deserialize img buf v0")
    case (Inl e)
    then show ?thesis by (simp add: cell_of_plain [OF assms] run_simps h')
  next
    case (Inr x)
    then obtain v n where x: "x = (v, n)" "scalar_deserialize img buf v0 = Inr (v, n)"
      by (cases x) simp
    then have "owns_cell h (Plain v) v []"
      using scalar_deserialize_plain [OF assms] by (simp add: owns_plain)
    with x show ?thesis by (auto simp: cell_of_plain [OF assms] run_simps h' intro!: exI [of _ "[]"])
  qed
qed

lemma read_cell_does:
  "new_scalar td = Inr v0 \<Longrightarrow>
     does h (\<lambda>h'. h' = h) (read_cell img buf (cell_of v0)) (scalar_deserialize img buf v0)
       (\<lambda>(v, n) (c, n') h'. n' = n \<and> (\<exists>g B. h' = h @ g \<and> owns_cell h' c v B \<and> set B \<subseteq> fresh h h'
          \<and> live_count g = type_members td))"
  "owns_members h ps m A \<Longrightarrow>
     does h (\<lambda>h'. h' = h) (read_members img ps tds buf) (Struct_loop img m tds buf)
       (\<lambda>(m', e) (ps', e') h'. e' = e \<and> (\<exists>g B. h' = h @ g \<and> owns_members h' ps' m' B
          \<and> set B \<subseteq> set A \<union> fresh h h' \<and> live_count g = types_members tds))"
proof (induct td and tds arbitrary: img buf v0 h and img buf m h ps A rule: typedef_induct)
  case (1 tid name typeid pb sz)
  show ?case
  proof (cases "scalar_typeid v0 = TYPEID_STRUCT")
    case True
    with 1 have "v0 = StructScalar (Struct None [])"
      by (auto simp: new_scalar_def Let_def typeid_defs split: if_splits)
    then show ?thesis
      by (auto simp: cell_of_def run_simps intro!: doesI)
  next
    case False
    from read_plain_does [OF this] show ?thesis by simp
  qed
next
  case (2 tid name typeid pb children sdsize sz)
  show ?case
  proof (cases "scalar_typeid v0 = TYPEID_STRUCT")
    case True
    then have v0: "v0 = StructScalar (Struct (Some (StructDef children sdsize)) [])" and typeid: "typeid = TYPEID_STRUCT"
      using "2.prems"(1) by (auto simp: new_scalar_def Let_def typeid_defs split: if_splits)
    have "does h (\<lambda>h'. h' = h)
        (run_bind (read_members img [] children buf) (\<lambda>(ps, e).
          run_lift (Inr (Pointers (Some (StructDef children sdsize)) ps, e - buf))))
        (rbind (Struct_loop img [] children buf) (\<lambda>(m, e).
          Inr (StructScalar (Struct (Some (StructDef children sdsize)) m), e - buf)))
        (\<lambda>(v, n) (c, n') h'. n' = n \<and> (\<exists>g B. h' = h @ g \<and> owns_cell h' c v B \<and> set B \<subseteq> fresh h h'
          \<and> live_count g = types_members children))"
      by (rule does_bind [OF "2.hyps" [OF owns_none]])
        (auto intro!: does_return, blast intro: owns_struct)
    moreover have "scalar_deserialize img buf v0 = rbind (Struct_loop img [] children buf) (\<lambda>(m, e).
        Inr (StructScalar (Struct (Some (StructDef children sdsize)) m), e - buf))"
      by (cases "Struct_loop img [] children buf") (auto simp: v0)
    moreover have "read_cell img buf (cell_of v0) = run_bind (read_members img [] children buf) (\<lambda>(ps, e).
        run_lift (Inr (Pointers (Some (StructDef children sdsize)) ps, e - buf)))"
      by (simp add: v0 cell_of_def)
    ultimately show ?thesis
      using typeid by simp
  next
    case False
    have "typeid \<noteq> TYPEID_STRUCT"
      using False "2.prems"(1) by (auto simp: new_scalar_def Let_def split: if_splits)
    with read_plain_does [OF False] show ?thesis by simp
  qed
next
  case 3
  then show ?case
    by (auto intro!: does_return)
next
  case (4 td tds)
  let ?Q = "\<lambda>(m', e) (ps', e') h'. e' = e \<and> (\<exists>g B. h' = h @ g \<and> owns_members h' ps' m' B
    \<and> set B \<subseteq> set A \<union> fresh h h' \<and> live_count g = types_members (td # tds))"
  have "does h (\<lambda>h'. h' = h @ [Some (ScalarObject (cell_of v0))])
      (run_bind (read_cell img buf (cell_of v0)) (\<lambda>(c, n). run_bind (run_set (length h) (ScalarObject c)) (\<lambda>u.
        read_members img (map_put (td_name td) (length h) ps) tds (buf + n))))
      (rbind (scalar_deserialize img buf v0) (\<lambda>(v, n). Struct_loop img (map_put (td_name td) v m) tds (buf + n))) ?Q"
    if v0: "new_scalar td = Inr v0" for v0
  proof (rule does_bind)
    let ?h1 = "h @ [Some (ScalarObject (cell_of v0))]"
    show "does h (\<lambda>h'. h' = ?h1) (read_cell img buf (cell_of v0)) (scalar_deserialize img buf v0)
        (\<lambda>(v, n) (c, n') h'. n' = n \<and> (\<exists>g B. h' = ?h1 @ g \<and> owns_cell h' c v B \<and> set B \<subseteq> fresh ?h1 h'
          \<and> live_count g = type_members td))"
      by (rule does_from [OF _ "4.hyps"(1) [OF v0]]) simp
    fix x :: "scalar \<times> int" and y :: "cell \<times> int"
    obtain v n c n' where xy: "x = (v, n)" "y = (c, n')"
      by (cases x; cases y)
    show "does h ((\<lambda>(v, n) (c, n') h'. n' = n \<and> (\<exists>g B. h' = ?h1 @ g \<and> owns_cell h' c v B \<and> set B \<subseteq> fresh ?h1 h'
          \<and> live_count g = type_members td)) x y)
        (case y of (c, n) \<Rightarrow> run_bind (run_set (length h) (ScalarObject c)) (\<lambda>u.
          read_members img (map_put (td_name td) (length h) ps) tds (buf + n)))
        (case x of (v, n) \<Rightarrow> Struct_loop img (map_put (td_name td) v m) tds (buf + n)) ?Q"
      unfolding xy prod.case
    proof (rule does_set [where P' = "\<lambda>h'. \<exists>g C. h' = h @ g \<and> owns_members h' (map_put (td_name td) (length h) ps)
        (map_put (td_name td) v m) C \<and> set C \<subseteq> set A \<union> fresh h h' \<and> live_count g = Suc (type_members td) \<and> n' = n"])
      fix h' 
      assume "n' = n \<and> (\<exists>g B. h' = ?h1 @ g \<and> owns_cell h' c v B \<and> set B \<subseteq> fresh ?h1 h' \<and> live_count g = type_members td)"
      then obtain g B where g: "n' = n" "h' = ?h1 @ g" "owns_cell h' c v B" "set B \<subseteq> fresh ?h1 h'" "live_count g = type_members td"
        by blast
      from member_stored [OF "4.prems" this(3) [unfolded g(2)] this(4) [unfolded g(2)], of "td_name td"] obtain C where
        "owns_members (h @ Some (ScalarObject c) # g) (map_put (td_name td) (length h) ps) (map_put (td_name td) v m) C"
        "set C \<subseteq> set A \<union> fresh h (h @ Some (ScalarObject c) # g)"
        by blast
      then show "\<exists>g C. store h' (length h) (ScalarObject c) = h @ g \<and> owns_members (store h' (length h) (ScalarObject c))
          (map_put (td_name td) (length h) ps) (map_put (td_name td) v m) C
          \<and> set C \<subseteq> set A \<union> fresh h (store h' (length h) (ScalarObject c)) \<and> live_count g = Suc (type_members td) \<and> n' = n"
        using g(1,5) by (intro exI [of _ "Some (ScalarObject c) # g"] exI [of _ C])
          (simp add: g(2) store_def list_update_append)
    next
      show "does h (\<lambda>h'. \<exists>g C. h' = h @ g \<and> owns_members h' (map_put (td_name td) (length h) ps)
          (map_put (td_name td) v m) C \<and> set C \<subseteq> set A \<union> fresh h h' \<and> live_count g = Suc (type_members td) \<and> n' = n)
        (read_members img (map_put (td_name td) (length h) ps) tds (buf + n'))
        (Struct_loop img (map_put (td_name td) v m) tds (buf + n)) ?Q"
      proof (rule does_fix)
        fix h'
        assume "\<exists>g C. h' = h @ g \<and> owns_members h' (map_put (td_name td) (length h) ps)
          (map_put (td_name td) v m) C \<and> set C \<subseteq> set A \<union> fresh h h' \<and> live_count g = Suc (type_members td) \<and> n' = n"
        then obtain g C where g: "h' = h @ g" "owns_members h' (map_put (td_name td) (length h) ps) (map_put (td_name td) v m) C"
          "set C \<subseteq> set A \<union> fresh h h'" "live_count g = Suc (type_members td)" "n' = n"
          by blast
        show "does h (\<lambda>h''. h'' = h') (read_members img (map_put (td_name td) (length h) ps) tds (buf + n'))
            (Struct_loop img (map_put (td_name td) v m) tds (buf + n)) ?Q"
          unfolding g(5)
        proof (rule does_from, simp add: g(1), rule does_post [OF "4.hyps"(2) [OF g(2)]])
          fix x y h''
          assume "(case x of (m', e) \<Rightarrow> \<lambda>(ps', e') h''. e' = e \<and> (\<exists>g B. h'' = h' @ g \<and> owns_members h'' ps' m' B
            \<and> set B \<subseteq> set C \<union> fresh h' h'' \<and> live_count g = types_members tds)) y h''"
          then obtain m' e ps' g' B where "x = (m', e)" "y = (ps', e)" and g': "h'' = h' @ g'" "owns_members h'' ps' m' B"
            "set B \<subseteq> set C \<union> fresh h' h''" "live_count g' = types_members tds"
            by (auto split: prod.splits)
          moreover have "fresh h h' \<subseteq> fresh h h''" "fresh h' h'' \<subseteq> fresh h h''"
            using g(1) g'(1) by (auto simp: fresh_def)
          then have "set B \<subseteq> set A \<union> fresh h h''"
            using g(3) g'(3) by blast
          ultimately show "?Q x y h''"
            using g(1,4) by (auto intro!: exI [of _ "g @ g'"])
        qed
      qed
    qed simp
  qed
  then show ?case
    unfolding read_members.simps Struct_loop.simps
    by (intro does_lift_bind does_new [where P' = "\<lambda>a h'. h' = h @ [Some (ScalarObject (cell_of v0))] \<and> a = length h" for v0] does_fact) auto
qed

subsection \<open>The value of a cell\<close>

text \<open>
  The value that a cell stands for, read through its pointers, and how many objects it has. A chain of
  structs that closed on itself has no value.
\<close>

fun cell_scalar :: "nat \<Rightarrow> object heap \<Rightarrow> cell \<Rightarrow> scalar res option"
  and pointed_scalars :: "nat \<Rightarrow> object heap \<Rightarrow> (string \<times> nat) list \<Rightarrow> (string \<times> scalar) list res option" where
  "cell_scalar depth h (Plain v) = Some (Inr v)"
| "cell_scalar 0 h (Pointers sd ps) = None"
| "cell_scalar (Suc depth) h (Pointers sd ps) =
     map_option (\<lambda>r. rbind r (\<lambda>m. Inr (StructScalar (Struct sd m)))) (pointed_scalars depth h ps)"
| "pointed_scalars depth h [] = Some (Inr [])"
| "pointed_scalars depth h ((key, p) # ps) =
     (case object_at h p of
        Inl e \<Rightarrow> Some (Inl e)
      | Inr (ScalarObject c) \<Rightarrow>
          (case cell_scalar depth h c of
             None \<Rightarrow> None
           | Some (Inl e) \<Rightarrow> Some (Inl e)
           | Some (Inr v) \<Rightarrow> map_option (\<lambda>r. rbind r (\<lambda>m. Inr ((key, v) # m))) (pointed_scalars depth h ps))
      | Inr _ \<Rightarrow> Some (Inl (Undefined WrongType)))"

lemma cell_scalar_owned:
  "owns_cell h c v A \<Longrightarrow> length A < depth \<Longrightarrow> cell_scalar depth h c = Some (Inr v)"
  "owns_members h ps m A \<Longrightarrow> length A \<le> depth \<Longrightarrow> pointed_scalars depth h ps = Some (Inr m)"
proof (induction arbitrary: depth and depth rule: owns_cell_owns_members.inducts)
  case (owns_struct ps m A sd)
  then obtain d where "depth = Suc d" "length A \<le> d"
    by (cases depth) auto
  with owns_struct.IH show ?case by simp
next
  case (owns_member p c v A ps m B key)
  then have "cell_scalar depth h c = Some (Inr v)" "pointed_scalars depth h ps = Some (Inr m)"
    by auto
  with \<open>lookup h p = Some (ScalarObject c)\<close> show ?case
    by (simp add: object_at_Some)
qed simp_all

fun value_members :: "scalar \<Rightarrow> nat" and values_members :: "(string \<times> scalar) list \<Rightarrow> nat" where
  "value_members (StructScalar (Struct sd m)) = values_members m"
| "value_members v = 0"
| "values_members [] = 0"
| "values_members ((key, v) # m) = Suc (value_members v) + values_members m"

lemma owns_cell_length:
  "owns_cell h c v A \<Longrightarrow> length A = value_members v"
  "owns_members h ps m A \<Longrightarrow> length A = values_members m"
proof (induction rule: owns_cell_owns_members.inducts)
  case (owns_plain v)
  then show ?case by (cases v rule: value_members.cases) (auto simp: typeid_defs)
qed auto

lemma owns_cell_owned:
  "owns_cell h c v A \<Longrightarrow> owned destructor h (Struct_destructor c) A"
  "owns_members h ps m A \<Longrightarrow> owned destructor h (map snd ps) A"
proof (induction rule: owns_cell_owns_members.inducts)
  case (owns_member p c v A ps m B key)
  have "destructor (ScalarObject c) = Struct_destructor c"
    by (simp add: destructor_def)
  with owns_member show ?case
    using owned_one [of h p "ScalarObject c" destructor A "map snd ps" B] by simp
qed (simp_all add: Struct_destructor_def owned_none)

end
