(* ===== verification/Inversion.thy ===== *)
theory Inversion
  imports Objects DataSet
begin

section \<open>Turning a vector of structs into a struct of vectors\<close>

text \<open>
  \<open>get_signal\<close> of \<open>src/psf.cc\<close> with \<open>invertstruct\<close>, on the heap: a \<open>VectorStruct\<close> with a new
  vector for each member, filled by \<open>assign_scalar\<close>, and then \<open>delete vec\<close>. The values are those
  of \<open>invert\<close>; what matters here is who owns them. A member that is a struct is assigned with the
  operator that the compiler writes, which copies its pointers.
\<close>

subsection \<open>The code\<close>

text \<open>
  \<open>resize\<close> of a vector: the constructor of \<open>VectorStruct\<close> calls it on vectors without elements
  only, so that no element is moved.
\<close>

definition vector_resize :: "object heap \<Rightarrow> nat \<Rightarrow> int \<Rightarrow> object heap res" where
  "vector_resize h a n =
     rbind (object_at h a) (\<lambda>x. case x of
       VectorObject init cs \<Rightarrow>
         if n < 0 then Inl (Throw LengthError)
         else rbind (delete_all destructor h (concat (map Struct_destructor (drop (nat n) cs)))) (\<lambda>h.
           Inr (store h a (VectorObject init (take (nat n) cs @ replicate (nat n - length cs) init))))
     | _ \<Rightarrow> Inl (Undefined WrongType))"

text \<open>
  \<open>(*this)[i] = dynamic_cast<const PSFScalarT<T> &>(rhs).value\<close>: the element becomes the same
  cell, for a struct with the same pointers; the pointers it had are forgotten.
\<close>

definition vector_assign_scalar :: "object heap \<Rightarrow> nat \<Rightarrow> int \<Rightarrow> nat \<Rightarrow> object heap res" where
  "vector_assign_scalar h a i rhs =
     rbind (object_at h a) (\<lambda>x. rbind (object_at h rhs) (\<lambda>y.
     case x of
       VectorObject init cs \<Rightarrow>
         (case y of
            ScalarObject c \<Rightarrow>
              if cell_typeid c \<noteq> cell_typeid init then Inl (Throw BadCast)
              else if 0 \<le> i \<and> i < int (length cs) then Inr (store h a (VectorObject init (cs[nat i := c])))
              else Inl (Undefined OutOfBounds)
          | _ \<Rightarrow> Inl (Throw BadCast))
     | _ \<Rightarrow> Inl (Undefined WrongType)))"

fun heap_assign_loop :: "object heap \<Rightarrow> string \<Rightarrow> cell list \<Rightarrow> int \<Rightarrow> nat \<Rightarrow> object heap res" where
  "heap_assign_loop h key [] jindex vec = Inr h"
| "heap_assign_loop h key (j # js) jindex vec =
     (case j of
        Plain v \<Rightarrow> Inl (Undefined WrongType)
      | Pointers sd ps \<Rightarrow>
          (case map_find ps key of
             None \<Rightarrow> Inl (Undefined EndIterator)
           | Some p \<Rightarrow> rbind (vector_assign_scalar h vec jindex p) (\<lambda>h.
               heap_assign_loop h key js (jindex + 1) vec)))"

fun heap_copy_loop :: "object heap \<Rightarrow> cell list \<Rightarrow> (string \<times> nat) list \<Rightarrow> object heap res" where
  "heap_copy_loop h structvec [] = Inr h"
| "heap_copy_loop h structvec ((key, vec) # rest) =
     rbind (vector_resize h vec (int (length structvec))) (\<lambda>h.
     rbind (heap_assign_loop h key structvec 0 vec) (\<lambda>h. heap_copy_loop h structvec rest))"

fun heap_init_loop :: "object heap \<Rightarrow> datatypedef list \<Rightarrow> (string \<times> nat) list
    \<Rightarrow> ((string \<times> nat) list \<times> object heap) res" where
  "heap_init_loop h [] m = Inr (m, h)"
| "heap_init_loop h (itemdef # itemdefs) m =
     rbind (new_vector itemdef) (\<lambda>w. let (a, h) = alloc (VectorObject (cell_of (pv_init w)) []) h in
     heap_init_loop h itemdefs (map_put (td_name itemdef) a m))"

text \<open>\<open>new VectorStruct(structvec)\<close>.\<close>

definition new_VectorStruct :: "object heap \<Rightarrow> nat \<Rightarrow> (nat \<times> object heap) res" where
  "new_VectorStruct h structvec =
     rbind (object_at h structvec) (\<lambda>x. case x of
       VectorObject (Pointers sd ps) cs \<Rightarrow>
         (case sd of
            None \<Rightarrow> Inl (Undefined NullPointer)
          | Some sd \<Rightarrow>
              rbind (heap_init_loop h (sd_children sd) []) (\<lambda>(m, h).
              rbind (heap_copy_loop h cs m) (\<lambda>h.
              Inr (alloc (VectorStructObject (Some (int (length cs))) m) h))))
     | _ \<Rightarrow> Inl (Undefined WrongType))"

text \<open>\<open>get_signal\<close> with \<open>m_invertstruct\<close>, from the vector on.\<close>

definition heap_invert :: "object heap \<Rightarrow> nat \<Rightarrow> (nat \<times> object heap) res" where
  "heap_invert h vec =
     rbind (object_at h vec) (\<lambda>x. case x of
       VectorObject (Pointers sd ps) cs \<Rightarrow>
         rbind (new_VectorStruct h vec) (\<lambda>(vs, h).
         rbind (delete_object h vec) (\<lambda>h. Inr (vs, h)))
     | _ \<Rightarrow> Inr (vec, h))"

subsection \<open>Vectors and what they own\<close>

inductive owns_cells :: "object heap \<Rightarrow> cell list \<Rightarrow> scalar list \<Rightarrow> nat list \<Rightarrow> bool" for h where
  owns_cells_Nil: "owns_cells h [] [] []"
| owns_cells_Cons: "owns_cell h c v A \<Longrightarrow> owns_cells h cs vs B \<Longrightarrow> set A \<inter> set B = {} \<Longrightarrow>
    owns_cells h (c # cs) (v # vs) (A @ B)"

definition owns_vector :: "object heap \<Rightarrow> nat \<Rightarrow> psfvector \<Rightarrow> nat list \<Rightarrow> bool" where
  "owns_vector h a w A \<longleftrightarrow>
     (\<exists>init cs B. lookup h a = Some (VectorObject init cs) \<and> owns_cell h init (pv_init w) []
        \<and> owns_cells h cs (pv_elems w) B \<and> a \<notin> set B \<and> A = a # B)"

lemma owns_cells_distinct: "owns_cells h cs vs A \<Longrightarrow> distinct A"
  by (induction rule: owns_cells.induct) (auto dest: owns_distinct(1))

lemma owns_cells_live: "owns_cells h cs vs A \<Longrightarrow> set A \<subseteq> heap.live h"
  by (induction rule: owns_cells.induct) (auto dest: owns_live(1))

lemma delete_owned_cells:
  "owns_cells h cs vs A \<Longrightarrow> \<forall>a \<in> set A. lookup h' a = lookup h a \<Longrightarrow>
     delete_all destructor h' (concat (map Struct_destructor cs) @ as)
       = delete_all destructor (release_all h' A) as"
proof (induction arbitrary: h' rule: owns_cells.induct)
  case (owns_cells_Cons c v A cs vs B)
  then have "\<forall>a \<in> set B. lookup (release_all h' A) a = lookup h a"
    by (auto simp: lookup_release_all)
  then show ?case
    using owns_cells_Cons delete_owned(1) [OF owns_cells_Cons.hyps(1), of h'] by simp
qed simp

lemma owns_cell_empty: "owns_cell h c v [] \<Longrightarrow> Struct_destructor c = []"
  by (erule owns_cell.cases) (auto simp: Struct_destructor_def elim: owns_members.cases)

lemma delete_vector:
  assumes "owns_vector h a w A" and "\<forall>b \<in> set A. lookup h' b = lookup h b"
  shows "delete_object h' a = Inr (release_all h' A)"
proof -
  obtain init cs B where v: "lookup h a = Some (VectorObject init cs)" "owns_cell h init (pv_init w) []"
    and B: "owns_cells h cs (pv_elems w) B" "a \<notin> set B" "A = a # B"
    using assms(1) by (auto simp: owns_vector_def)
  then have "\<forall>b \<in> set B. lookup (release h' a) b = lookup h b"
    using assms(2) by (auto simp: heap.lookup_release)
  from delete_owned_cells [OF B(1) this, of "[]"] v B assms(2) show ?thesis
    by (simp add: delete_object_def object_at_Some destructor_def owns_cell_empty)
qed

text \<open>The member of an owned struct: its own object, which holds the member's value.\<close>

lemma owns_find:
  "owns_members h ps m A \<Longrightarrow> map_find m key = Some x \<Longrightarrow>
     \<exists>p c C. map_find ps key = Some p \<and> lookup h p = Some (ScalarObject c) \<and> owns_cell h c x C
       \<and> set (p # C) \<subseteq> set A"
proof (induction ps arbitrary: m A)
  case Nil
  then show ?case by (auto elim: owns_NilE)
next
  case (Cons kp ps)
  from Cons.prems(1) show ?case
  proof (rule owns_ConsE)
    fix p c v A' m' B key'
    assume *: "kp = (key', p)" "m = (key', v) # m'" "A = p # A' @ B" "lookup h p = Some (ScalarObject c)"
      "owns_cell h c v A'" "owns_members h ps m' B"
    show ?thesis
    proof (cases "key' = key")
      case True
      then show ?thesis using * Cons.prems(2) by auto
    next
      case False
      then have "map_find m' key = Some x" using * Cons.prems(2) by auto
      from Cons.IH [OF *(6) this] * False show ?thesis by auto
    qed
  qed
qed

lemma owns_typeid: "owns_cell h c v A \<Longrightarrow> cell_typeid c = scalar_typeid v"
  by (erule owns_cell.cases) (simp_all add: cell_typeid_def)

subsection \<open>The new vectors\<close>

text \<open>
  \<open>shares h A c x\<close>: in the heap \<open>h\<close> the cell stands for \<open>x\<close>, and all its objects are of \<open>A\<close>.
\<close>

definition shares :: "object heap \<Rightarrow> nat set \<Rightarrow> cell \<Rightarrow> scalar \<Rightarrow> bool" where
  "shares h A c x \<longleftrightarrow> (\<exists>C. owns_cell h c x C \<and> set C \<subseteq> A)"

lemma snd_map_put: "snd ` set (map_put k q ps) \<subseteq> insert q (snd ` set ps)"
  by (induction k q ps rule: map_put.induct) auto

lemma distinct_map_put: "distinct (map snd ps) \<Longrightarrow> q \<notin> snd ` set ps \<Longrightarrow> distinct (map snd (map_put k q ps))"
  using snd_map_put by (induction k q ps rule: map_put.induct) (force split: if_splits)+

definition new_vector_at :: "object heap \<Rightarrow> nat \<Rightarrow> psfvector \<Rightarrow> bool" where
  "new_vector_at h p w \<longleftrightarrow> lookup h p = Some (VectorObject (cell_of (pv_init w)) []) \<and> pv_elems w = []
     \<and> owns_cell h (cell_of (pv_init w)) (pv_init w) []"

lemma new_vector_cell:
  assumes "new_vector td = Inr w"
  shows "pv_elems w = [] \<and> owns_cell h (cell_of (pv_init w)) (pv_init w) []"
  using assms by (auto simp: new_vector_def Let_def cell_of_def typeid_defs split: if_splits
      intro!: owns_plain owns_struct owns_none)

lemma heap_init_loop_new:
  assumes "init_loop tds m = Inr m'" and "same_keys (new_vector_at h) ps m" and "distinct (map snd ps)"
    and "snd ` set ps \<subseteq> {N ..< length h}" and "N \<le> length h"
  shows "\<exists>g ps'. heap_init_loop h tds ps = Inr (ps', h @ g) \<and> same_keys (new_vector_at (h @ g)) ps' m'
    \<and> distinct (map snd ps') \<and> snd ` set ps' \<subseteq> {N ..< length (h @ g)}"
  using assms
proof (induction tds arbitrary: m h ps)
  case Nil
  then show ?case by (intro exI [of _ "[]"] exI [of _ ps]) simp
next
  case (Cons td tds)
  then obtain w where w: "new_vector td = Inr w" and loop: "init_loop tds (map_put (td_name td) w m) = Inr m'"
    by (auto simp: res_simps)
  let ?h = "h @ [Some (VectorObject (cell_of (pv_init w)) [])]" and ?q = "length h"
  have q: "new_vector_at ?h ?q w"
    using new_vector_cell [OF w] by (simp add: new_vector_at_def lookup_def)
  have "same_keys (new_vector_at ?h) ps m"
  proof (rule same_keys_mono [OF Cons.prems(2)])
    show "new_vector_at ?h p w'" if "p \<in> snd ` set ps" "new_vector_at h p w'" for p w'
      using that Cons.prems(4) owns_extend(1) by (auto simp: new_vector_at_def lookup_append)
  qed
  from same_keys_put [OF this q, of "td_name td"]
  have m: "same_keys (new_vector_at ?h) (map_put (td_name td) ?q ps) (map_put (td_name td) w m)" .
  have dist: "distinct (map snd (map_put (td_name td) ?q ps))"
    using Cons.prems(3,4) by (intro distinct_map_put) auto
  have "snd ` set (map_put (td_name td) ?q ps) \<subseteq> {N ..< length ?h}"
    using Cons.prems(4,5) by (intro order.trans [OF snd_map_put]) auto
  from Cons.IH [OF loop m dist this] Cons.prems(5) obtain g ps' where
    "heap_init_loop ?h tds (map_put (td_name td) ?q ps) = Inr (ps', ?h @ g)"
    "same_keys (new_vector_at (?h @ g)) ps' m'" "distinct (map snd ps')"
    "snd ` set ps' \<subseteq> {N ..< length (?h @ g)}"
    by auto
  with w show ?case
    by (intro exI [of _ "Some (VectorObject (cell_of (pv_init w)) []) # g"] exI [of _ ps'])
      (simp add: alloc_def)
qed

subsection \<open>Filling them\<close>

lemma shares_member:
  assumes "shares h0 A j v" and "struct_member key v = Inr x"
  shows "\<exists>sd ps p c. j = Pointers sd ps \<and> map_find ps key = Some p \<and> p \<in> A
    \<and> lookup h0 p = Some (ScalarObject c) \<and> shares h0 A c x"
proof -
  obtain s where v: "v = StructScalar s" "map_find (struct_map s) key = Some x"
    using assms(2) by (auto simp: struct_member_def split: scalar.splits option.splits)
  obtain C where C: "owns_cell h0 j v C" "set C \<subseteq> A"
    using assms(1) by (auto simp: shares_def)
  from C(1) v(1) obtain sd ps m where j: "j = Pointers sd ps" "s = Struct sd m" "owns_members h0 ps m C"
    by (auto elim: owns_cell.cases)
  from owns_find [OF j(3), of key x] v(2) j(2) obtain p c D where
    "map_find ps key = Some p" "lookup h0 p = Some (ScalarObject c)" "owns_cell h0 c x D" "set (p # D) \<subseteq> set C"
    by auto
  with j(1) C(2) show ?thesis by (fastforce simp: shares_def)
qed

lemma heap_assign_loop_shares:
  assumes "list_all2 (shares h0 A) js vs" and "\<forall>a \<in> A. lookup h a = lookup h0 a" and "vec \<notin> A"
    and "lookup h vec = Some (VectorObject (cell_of (pv_init w)) cs)" and "list_all2 (shares h0 A) cs (pv_elems w)"
    and "cell_typeid (cell_of (pv_init w)) = scalar_typeid (pv_init w)"
    and "assign_loop key vs jindex w = Inr w'"
  shows "pv_init w' = pv_init w \<and> (\<exists>cs'. heap_assign_loop h key js jindex vec
      = Inr (store h vec (VectorObject (cell_of (pv_init w)) cs')) \<and> list_all2 (shares h0 A) cs' (pv_elems w'))"
  using assms
proof (induction js arbitrary: vs jindex h cs w)
  case Nil
  then show ?case by (auto intro!: exI [of _ cs] simp: store_id)
next
  case (Cons j js)
  then obtain v vs' where vs: "vs = v # vs'" "shares h0 A j v" "list_all2 (shares h0 A) js vs'"
    by (auto simp: list_all2_Cons1)
  from Cons.prems(7) vs(1) obtain x w1 where x: "struct_member key v = Inr x"
    and w1: "pv_assign_scalar w jindex x = Inr w1" and loop: "assign_loop key vs' (jindex + 1) w1 = Inr w'"
    by (auto simp: res_simps)
  have w1_eq: "w1 = pv_store w jindex x" and range: "0 \<le> jindex" "jindex < pv_size w"
    and cls: "scalar_typeid x = scalar_typeid (pv_init w)"
    using w1 by (auto simp: pv_assign_scalar_def split: if_splits)
  obtain sd ps p c where j: "j = Pointers sd ps" "map_find ps key = Some p" "p \<in> A"
    "lookup h0 p = Some (ScalarObject c)" "shares h0 A c x"
    using shares_member [OF vs(2) x] by blast
  have c: "cell_typeid c = scalar_typeid x"
    using j(5) owns_typeid by (auto simp: shares_def)
  let ?obj = "VectorObject (cell_of (pv_init w)) (cs[nat jindex := c])"
  have len: "length cs = length (pv_elems w)"
    using Cons.prems(5) by (rule list_all2_lengthD)
  have step: "vector_assign_scalar h vec jindex p = Inr (store h vec ?obj)"
    using Cons.prems(2,4,6) j c cls range len
    by (simp add: vector_assign_scalar_def object_at_Some pv_size_def)
  have "list_all2 (shares h0 A) (cs[nat jindex := c]) (pv_elems w1)"
    using Cons.prems(5) j(5) by (simp add: w1_eq pv_store_def list_all2_update_cong)
  moreover have "lookup (store h vec ?obj) vec = Some ?obj"
    "\<forall>a \<in> A. lookup (store h vec ?obj) a = lookup h0 a"
    using Cons.prems(2-4) by (auto simp: heap.lookup_store)
  ultimately have "pv_init w' = pv_init w1 \<and> (\<exists>cs'. heap_assign_loop (store h vec ?obj) key js (jindex + 1) vec
      = Inr (store (store h vec ?obj) vec (VectorObject (cell_of (pv_init w1)) cs'))
      \<and> list_all2 (shares h0 A) cs' (pv_elems w'))"
    using Cons.IH [OF vs(3) _ Cons.prems(3) _ _ _ loop] Cons.prems(6) by (simp add: w1_eq pv.init_store)
  then show ?case
    using j(1,2) step by (auto simp: w1_eq pv.init_store store_store)
qed

definition vector_shares :: "object heap \<Rightarrow> object heap \<Rightarrow> nat set \<Rightarrow> nat \<Rightarrow> psfvector \<Rightarrow> bool" where
  "vector_shares h0 h A p w \<longleftrightarrow> (\<exists>cs. lookup h p = Some (VectorObject (cell_of (pv_init w)) cs)
     \<and> list_all2 (shares h0 A) cs (pv_elems w))"

lemma heap_copy_loop_shares:
  assumes "list_all2 (shares h0 A) js (pv_elems structvec)" and "\<forall>a \<in> A. lookup h a = lookup h0 a"
    and "same_keys (new_vector_at h) ps m" and "distinct (map snd ps)" and "snd ` set ps \<inter> A = {}"
    and "copy_loop structvec m = Inr m'"
  shows "\<exists>h'. heap_copy_loop h js ps = Inr h' \<and> length h' = length h \<and> same_keys (vector_shares h0 h' A) ps m'
    \<and> (\<forall>a. a \<notin> snd ` set ps \<longrightarrow> lookup h' a = lookup h a)"
  using assms(2-)
proof (induction ps arbitrary: h m m')
  case Nil
  then show ?case by (auto simp: same_keys_def)
next
  case (Cons kp ps)
  then obtain key p w m1 where kp: "kp = (key, p)" "m = (key, w) # m1" and p: "new_vector_at h p w"
    and m1: "same_keys (new_vector_at h) ps m1"
    by (cases kp) (auto simp: same_keys_def list_all2_Cons1)
  let ?n = "pv_size structvec"
  from Cons.prems(5) kp(2) obtain w1 w2 m2 where w1: "pv_resize w ?n = Inr w1"
    and w2: "assign_loop key (pv_elems structvec) 0 w1 = Inr w2" and m2: "copy_loop structvec m1 = Inr m2"
    and m': "m' = (key, w2) # m2"
    by (auto simp: res_simps)
  let ?c = "cell_of (pv_init w)"
  let ?h1 = "store h p (VectorObject ?c (replicate (length js) ?c))"
  have len: "?n = int (length js)"
    using assms(1) by (simp add: pv_size_def list_all2_lengthD)
  have w1_eq: "pv_init w1 = pv_init w" "pv_elems w1 = replicate (length js) (pv_init w)"
    using w1 p len by (auto simp: pv_resize_def new_vector_at_def)
  have resize: "vector_resize h p (int (length js)) = Inr ?h1"
    using p by (simp add: vector_resize_def new_vector_at_def object_at_Some)
  have c: "owns_cell h0 ?c (pv_init w) []"
    using p by (auto simp: new_vector_at_def intro: owns_frame(1))
  have pA: "p \<notin> A" and ps: "p \<notin> snd ` set ps"
    using Cons.prems(3,4) kp(1) by auto
  have h1: "lookup ?h1 a = (if a = p then Some (VectorObject ?c (replicate (length js) ?c)) else lookup h a)" for a
    using p by (simp add: heap.lookup_store new_vector_at_def)
  have old: "\<forall>a \<in> A. lookup ?h1 a = lookup h0 a"
    using Cons.prems(1) pA by (auto simp: h1)
  have "shares h0 A ?c (pv_init w)"
    using c by (auto simp: shares_def)
  then have new: "list_all2 (shares h0 A) (replicate (length js) ?c) (pv_elems w1)"
    by (simp add: w1_eq list_all2_conv_all_nth)
  from heap_assign_loop_shares [OF assms(1) old pA _ new _ w2] obtain cs where init: "pv_init w2 = pv_init w"
    and cs: "list_all2 (shares h0 A) cs (pv_elems w2)"
    and assign: "heap_assign_loop ?h1 key js 0 p = Inr (store ?h1 p (VectorObject ?c cs))"
    using h1 [of p] owns_typeid [OF c] by (auto simp: w1_eq)
  let ?h2 = "store ?h1 p (VectorObject ?c cs)"
  have h2: "lookup ?h2 a = (if a = p then Some (VectorObject ?c cs) else lookup h a)" for a
    using h1 [of p] h1 [of a] heap.lookup_store [of ?h1 p _ a] by auto
  have old2: "\<forall>a \<in> A. lookup ?h2 a = lookup h0 a"
    using Cons.prems(1) pA by (auto simp: h2)
  have "same_keys (new_vector_at ?h2) ps m1"
  proof (rule same_keys_mono [OF m1])
    fix q w'
    assume "q \<in> snd ` set ps" and q: "new_vector_at h q w'"
    with ps have "q \<noteq> p" by auto
    with q show "new_vector_at ?h2 q w'"
      using owns_frame(1) [of h _ _ "[]" ?h2] by (auto simp: new_vector_at_def h2)
  qed
  then obtain h' where h': "heap_copy_loop ?h2 js ps = Inr h'" "length h' = length ?h2"
    "same_keys (vector_shares h0 h' A) ps m2" "\<forall>a. a \<notin> snd ` set ps \<longrightarrow> lookup h' a = lookup ?h2 a"
    using Cons.IH [OF old2 _ _ _ m2] Cons.prems(3,4) kp(1) by auto
  have "vector_shares h0 h' A p w2"
    using h'(4) ps init cs by (auto simp: vector_shares_def h2)
  with h' kp m' resize assign show ?case
    by (intro exI [of _ h']) (auto simp: same_keys_def h2)
qed

subsection \<open>What becomes of the vector of structs\<close>

text \<open>
  The inversion as a whole: the objects of the vector are deleted, each once, and no other object
  that was there. What the new vectors hold was copied before: an element without pointers is
  whole, an element with pointers points to deleted objects only.
\<close>

definition with_members :: "scalar \<Rightarrow> bool" where
  "with_members v \<longleftrightarrow> (case v of StructScalar s \<Rightarrow> struct_map s \<noteq> [] | _ \<Rightarrow> False)"

definition dead_pointers :: "object heap \<Rightarrow> cell \<Rightarrow> bool" where
  "dead_pointers h c \<longleftrightarrow> Struct_destructor c \<noteq> [] \<and> (\<forall>q \<in> set (Struct_destructor c). lookup h q = None)"

definition inverted :: "object heap \<Rightarrow> nat \<Rightarrow> psfvector \<Rightarrow> bool" where
  "inverted h p w \<longleftrightarrow> (\<exists>cs. lookup h p = Some (VectorObject (cell_of (pv_init w)) cs)
     \<and> list_all2 (\<lambda>c x. if with_members x then dead_pointers h c else owns_cell h c x []) cs (pv_elems w))"

lemma has_members_eq: "has_members w \<longleftrightarrow> (\<exists>x \<in> set (pv_elems w). with_members x)"
  by (auto simp: has_members_def with_members_def list_ex_iff)

lemma owns_members_pointers:
  "owns_members h ps m A \<Longrightarrow> snd ` set ps \<subseteq> set A \<and> (ps = [] \<longrightarrow> A = [])"
proof (induction ps arbitrary: m A)
  case Nil
  then show ?case by (auto elim: owns_NilE)
next
  case (Cons kp ps)
  from Cons.prems show ?case
    by (rule owns_ConsE) (use Cons.IH in fastforce)
qed

lemma owns_pointers:
  "owns_cell h c x C \<Longrightarrow> set (Struct_destructor c) \<subseteq> set C"
  "owns_cell h c x C \<Longrightarrow> with_members x \<longleftrightarrow> Struct_destructor c \<noteq> []"
  "owns_cell h c x C \<Longrightarrow> Struct_destructor c = [] \<Longrightarrow> C = []"
proof -
  assume "owns_cell h c x C"
  then have "set (Struct_destructor c) \<subseteq> set C \<and> (with_members x \<longleftrightarrow> Struct_destructor c \<noteq> [])
      \<and> (Struct_destructor c = [] \<longrightarrow> C = [])"
  proof cases
    case owns_plain
    then show ?thesis
      by (cases x) (simp_all add: with_members_def Struct_destructor_def)
  next
    case (owns_struct ps m sd)
    with owns_members_pointers [OF owns_struct(3)] owns_keys [OF owns_struct(3)] show ?thesis
      by (auto simp: with_members_def Struct_destructor_def)
  qed
  then show "set (Struct_destructor c) \<subseteq> set C" "with_members x \<longleftrightarrow> Struct_destructor c \<noteq> []"
    "Struct_destructor c = [] \<Longrightarrow> C = []"
    by auto
qed

lemma shares_mono: "shares h A c x \<Longrightarrow> A \<subseteq> B \<Longrightarrow> shares h B c x"
  by (auto simp: shares_def)

lemma owns_cells_shares: "owns_cells h cs vs A \<Longrightarrow> list_all2 (shares h (set A)) cs vs"
proof (induction rule: owns_cells.induct)
  case (owns_cells_Cons c v A cs vs B)
  have "shares h (set (A @ B)) c v"
    using owns_cells_Cons.hyps(1) by (auto simp: shares_def)
  moreover have "list_all2 (shares h (set (A @ B))) cs vs"
    using owns_cells_Cons.IH by (rule list_all2_mono) (simp add: shares_mono)
  ultimately show ?case by simp
qed simp

lemma inverted_of_shares:
  assumes "vector_shares h h1 A p w" and "p \<notin> A" and "\<forall>a. lookup h2 a = (if a \<in> A then None else lookup h1 a)"
  shows "inverted h2 p w"
proof -
  obtain cs where cs: "lookup h1 p = Some (VectorObject (cell_of (pv_init w)) cs)"
    "list_all2 (shares h A) cs (pv_elems w)"
    using assms(1) by (auto simp: vector_shares_def)
  have "if with_members x then dead_pointers h2 c else owns_cell h2 c x []" if c: "shares h A c x" for c x
  proof -
    obtain C where C: "owns_cell h c x C" "set C \<subseteq> A"
      using c by (auto simp: shares_def)
    show ?thesis
    proof (cases "Struct_destructor c = []")
      case True
      with C(1) show ?thesis
        using owns_pointers(2,3) [OF C(1)] by (auto intro: owns_frame(1))
    next
      case False
      with owns_pointers(1,2) [OF C(1)] C(2) assms(3) show ?thesis
        by (auto simp: dead_pointers_def)
    qed
  qed
  then have "list_all2 (\<lambda>c x. if with_members x then dead_pointers h2 c else owns_cell h2 c x []) cs (pv_elems w)"
    using cs(2) by (rule list_all2_mono [rotated])
  with cs(1) assms(2,3) show ?thesis by (auto simp: inverted_def)
qed

lemma owns_vector_live: "owns_vector h a w A \<Longrightarrow> set A \<subseteq> heap.live h"
  using owns_cells_live by (fastforce simp: owns_vector_def heap.live_def)

lemma owns_vector_bound: "owns_vector h a w A \<Longrightarrow> set A \<subseteq> {..< length h}"
  using owns_vector_live live_bound by blast

lemma new_VectorStruct_shares:
  assumes own: "owns_vector h a w A" and vs: "VectorStruct_of_structvec w = Inr (VectorStruct n m)"
  shows "\<exists>h1 ps. new_VectorStruct h a = Inr (alloc (VectorStructObject n ps) h1) \<and> length h \<le> length h1
    \<and> same_keys (vector_shares h h1 (set A)) ps m \<and> distinct (map snd ps)
    \<and> snd ` set ps \<subseteq> {length h ..< length h1} \<and> (\<forall>x < length h. lookup h1 x = lookup h x)"
proof -
  obtain c cs B where a: "lookup h a = Some (VectorObject c cs)" and c: "owns_cell h c (pv_init w) []"
    and B: "owns_cells h cs (pv_elems w) B" "A = a # B"
    using own by (auto simp: owns_vector_def)
  obtain sd m0 mi where init: "pv_init w = StructScalar (Struct (Some sd) m0)"
    and mi: "init_loop (sd_children sd) [] = Inr mi" and m: "copy_loop w mi = Inr m" and n: "n = Some (pv_size w)"
    using vs by (auto simp: VectorStruct_of_structvec_def init_from_structdef_def copy_from_structvector_def res_simps
        split: scalar.splits option.splits) (metis struct.collapse)
  have c_eq: "\<exists>ps0. c = Pointers (Some sd) ps0"
    using c init by (auto elim: owns_cell.cases)
  have len: "length cs = length (pv_elems w)"
    using owns_cells_shares [OF B(1)] by (rule list_all2_lengthD)
  from heap_init_loop_new [OF mi, of h "[]" "length h"] obtain g ps where
    g: "heap_init_loop h (sd_children sd) [] = Inr (ps, h @ g)" and ps: "same_keys (new_vector_at (h @ g)) ps mi"
      "distinct (map snd ps)" "snd ` set ps \<subseteq> {length h ..< length (h @ g)}"
    by (auto simp: same_keys_def)
  note A = owns_vector_bound [OF own]
  have cells: "list_all2 (shares h (set A)) cs (pv_elems w)"
    using owns_cells_shares [OF B(1)] by (rule list_all2_mono) (auto simp: B(2) intro: shares_mono)
  have old: "\<forall>x \<in> set A. lookup (h @ g) x = lookup h x"
    using A by (auto simp: lookup_append)
  have "snd ` set ps \<inter> set A = {}"
    using ps(3) A by fastforce
  from heap_copy_loop_shares [OF cells old ps(1,2) this m] obtain h1 where
    h1: "heap_copy_loop (h @ g) cs ps = Inr h1" "length h1 = length (h @ g)" "same_keys (vector_shares h h1 (set A)) ps m"
      "\<forall>x. x \<notin> snd ` set ps \<longrightarrow> lookup h1 x = lookup (h @ g) x"
    by blast
  have "lookup h1 x = lookup h x" if "x < length h" for x
  proof -
    have "x \<notin> snd ` set ps"
      using that ps(3) by fastforce
    with that h1(4) show ?thesis by (simp add: lookup_append)
  qed
  moreover have "new_VectorStruct h a = Inr (alloc (VectorStructObject n ps) h1)"
    using a c_eq g h1(1) n len by (auto simp: new_VectorStruct_def object_at_Some pv_size_def)
  ultimately show ?thesis
    using h1 ps by (intro exI [of _ h1] exI [of _ ps]) simp
qed

lemma heap_invert_result:
  assumes own: "owns_vector h a w A" and inv: "invert True (Some w) = Inr (VectorStructSignal b (VectorStruct n m))"
  shows "\<exists>vs h' ps. heap_invert h a = Inr (vs, h') \<and> lookup h' vs = Some (VectorStructObject n ps)
    \<and> same_keys (inverted h') ps m \<and> distinct (vs # map snd ps) \<and> length h \<le> vs
    \<and> (\<forall>x < length h. lookup h' x = (if x \<in> set A then None else lookup h x))"
proof -
  from inv have vsw: "VectorStruct_of_structvec w = Inr (VectorStruct n m)"
    by (auto simp: invert_def res_simps split: if_splits)
  from new_VectorStruct_shares [OF own vsw] obtain h1 ps where
    new: "new_VectorStruct h a = Inr (alloc (VectorStructObject n ps) h1)" and len: "length h \<le> length h1"
    and ps: "same_keys (vector_shares h h1 (set A)) ps m" "distinct (map snd ps)" "snd ` set ps \<subseteq> {length h ..< length h1}"
    and old: "\<forall>x < length h. lookup h1 x = lookup h x"
    by blast
  obtain c cs where a: "lookup h a = Some (VectorObject c cs)" "\<exists>sd ps. c = Pointers sd ps"
  proof -
    obtain c cs where "lookup h a = Some (VectorObject c cs)" "owns_cell h c (pv_init w) []"
      using own by (auto simp: owns_vector_def)
    moreover have "\<exists>s. pv_init w = StructScalar s"
      using vsw by (auto simp: VectorStruct_of_structvec_def split: scalar.splits)
    ultimately show thesis
      using that by (auto elim: owns_cell.cases)
  qed
  note A = owns_vector_bound [OF own]
  let ?vs = "length h1" and ?h2 = "h1 @ [Some (VectorStructObject n ps)]"
  let ?h' = "release_all ?h2 A"
  have h2: "lookup ?h2 x = (if x = ?vs then Some (VectorStructObject n ps) else lookup h1 x)" for x
    by (auto simp: lookup_def nth_append)
  have "\<forall>x \<in> set A. lookup ?h2 x = lookup h x"
    using A old len by (auto simp: h2)
  from delete_vector [OF own this] have "heap_invert h a = Inr (?vs, ?h')"
    using a new by (auto simp: heap_invert_def object_at_Some alloc_def)
  moreover have "same_keys (inverted ?h') ps m"
  proof (rule same_keys_mono [OF ps(1)])
    fix p w'
    assume p: "p \<in> snd ` set ps" and w': "vector_shares h h1 (set A) p w'"
    then have "p \<notin> set A" "p \<noteq> ?vs"
      using ps(3) A by fastforce+
    moreover have "vector_shares h ?h2 (set A) p w'"
      using w' \<open>p \<noteq> ?vs\<close> by (simp add: vector_shares_def h2)
    ultimately show "inverted ?h' p w'"
      by (intro inverted_of_shares) (auto simp: lookup_release_all)
  qed
  moreover have "lookup ?h' ?vs = Some (VectorStructObject n ps)"
    using A len by (auto simp: lookup_release_all h2)
  moreover have "\<forall>x < length h. lookup ?h' x = (if x \<in> set A then None else lookup h x)"
    using old len by (auto simp: lookup_release_all h2)
  ultimately show ?thesis
    using ps(2,3) len by fastforce
qed

text \<open>
  What a caller can do with the vectors of the result: one without structs is deleted like any
  other, and one with structs is an error to delete.
\<close>

lemma cell_of_pointers: "Struct_destructor (cell_of v) = []"
  by (cases v) (simp_all add: cell_of_def Struct_destructor_def)

lemma concat_first: "concat xss = x # ys \<Longrightarrow> \<exists>xs. x # xs \<in> set xss"
proof (induction xss)
  case (Cons zs xss)
  then show ?case by (cases zs) auto
qed simp

lemma delete_inverted:
  assumes "inverted h p w"
  shows "delete_object h p = (if has_members w then Inl (Undefined UseAfterFree) else Inr (release h p))"
proof -
  obtain cs where p: "lookup h p = Some (VectorObject (cell_of (pv_init w)) cs)"
    and cs: "list_all2 (\<lambda>c x. if with_members x then dead_pointers h c else owns_cell h c x []) cs (pv_elems w)"
    using assms by (auto simp: inverted_def)
  have ptrs: "destructor (VectorObject (cell_of (pv_init w)) cs) = concat (map Struct_destructor cs)"
    by (simp add: destructor_def cell_of_pointers)
  have elems: "Struct_destructor c \<noteq> [] \<longrightarrow> dead_pointers h c" if "c \<in> set cs" for c
    using cs that owns_pointers(2) by (fastforce simp: in_set_conv_nth list_all2_conv_all_nth split: if_splits)
  have none: "(\<exists>c \<in> set cs. Struct_destructor c \<noteq> []) \<longleftrightarrow> has_members w"
    using cs owns_pointers(2) unfolding has_members_eq
    by (fastforce simp: in_set_conv_nth list_all2_conv_all_nth dead_pointers_def split: if_splits)
  show ?thesis
  proof (cases "concat (map Struct_destructor cs) = []")
    case True
    then have "\<not> has_members w"
      using none by simp
    with p ptrs True show ?thesis
      by (simp add: delete_object_def object_at_Some del: concat_eq_Nil_conv)
  next
    case False
    then obtain q ys where q: "concat (map Struct_destructor cs) = q # ys"
      by (auto simp: neq_Nil_conv simp del: concat_eq_Nil_conv)
    from concat_first [OF q] obtain qs where "q # qs \<in> set (map Struct_destructor cs)"
      by blast
    then obtain c where c: "c \<in> set cs" "Struct_destructor c = q # qs"
      by auto
    then have "lookup h q = None"
      using elems [OF c(1)] by (simp add: dead_pointers_def)
    then have "object_at (release h p) q = Inl (Undefined UseAfterFree)"
      unfolding object_at_Inl by (simp add: heap.lookup_release)
    moreover have "has_members w"
      using none c by force
    ultimately show ?thesis
      using p ptrs q by (simp add: delete_object_def object_at_Some del: object_at_Inl)
  qed
qed

end
