(* ===== verification/SweepOwnership.thy ===== *)
theory SweepOwnership
  imports Runs SweepValues
begin

section \<open>Who owns the vectors of a sweep (src/psfsweepvalue.cc)\<close>

text \<open>
  \<open>get_values\<close> makes a \<open>SweepValue\<close>, which owns a vector for the parameter and one for each trace,
  reads into them, takes one of them out and deletes the rest. Here these are objects on a heap;
  a vector holds the value that \<open>SweepValues\<close> gives it, and owns the members of its structs as
  \<open>Inversion\<close> says. Reading changes what the vectors hold and makes no object, so that the loops of
  \<open>SweepValues\<close> serve as they are; what the vectors hold after a failed read is not followed.
\<close>

subsection \<open>The objects\<close>

datatype sweep_object =
    VectorObj psfvector
  | SweepValueObj bool "nat option" "nat list" \<comment> \<open>windowed or simple, \<open>m_paramvalues\<close>, the vectors\<close>

text \<open>\<open>SweepValue::~SweepValue\<close>.\<close>

definition SweepValue_destructor :: "sweep_object \<Rightarrow> nat list" where
  "SweepValue_destructor x = (case x of
     VectorObj w \<Rightarrow> []
   | SweepValueObj windowed m_paramvalues vecs \<Rightarrow>
       (case m_paramvalues of None \<Rightarrow> [] | Some p \<Rightarrow> [p]) @ vecs)"

definition get_SweepValue :: "nat \<Rightarrow> (bool \<times> nat option \<times> nat list, sweep_object) run" where
  "get_SweepValue v = run_bind (run_get v) (\<lambda>x. case x of
     SweepValueObj windowed m_paramvalues vecs \<Rightarrow> run_lift (Inr (windowed, m_paramvalues, vecs))
   | VectorObj w \<Rightarrow> run_lift (Inl (Undefined WrongType)))"

definition get_vector :: "nat \<Rightarrow> (psfvector, sweep_object) run" where
  "get_vector a = run_bind (run_get a) (\<lambda>x. case x of
     VectorObj w \<Rightarrow> run_lift (Inr w)
   | SweepValueObj _ _ _ \<Rightarrow> run_lift (Inl (Undefined WrongType)))"

fun get_vectors :: "nat list \<Rightarrow> (psfvector list, sweep_object) run" where
  "get_vectors [] = run_lift (Inr [])"
| "get_vectors (a # as) = run_bind (get_vector a) (\<lambda>w.
     run_bind (get_vectors as) (\<lambda>ws. run_lift (Inr (w # ws))))"

fun set_vectors :: "nat list \<Rightarrow> psfvector list \<Rightarrow> (unit, sweep_object) run" where
  "set_vectors (a # as) (w # ws) = run_bind (run_set a (VectorObj w)) (\<lambda>u. set_vectors as ws)"
| "set_vectors _ _ = run_lift (Inr ())"

subsection \<open>\<open>deserialize\<close> of a \<open>SweepValue\<close>\<close>

text \<open>The data vectors: each is made, resized and then put into the \<open>SweepValue\<close>.\<close>

fun new_data_vectors :: "indexedcontainer option \<Rightarrow> int \<Rightarrow> nat \<Rightarrow> datatyperef list
    \<Rightarrow> (unit, sweep_object) run" where
  "new_data_vectors types n v [] = run_lift (Inr ())"
| "new_data_vectors types n v (trace # filt) =
     run_bind (run_lift (DataTypeRef_new_vector types trace)) (\<lambda>w.
     run_bind (run_new (VectorObj w)) (\<lambda>vec.
     run_bind (run_lift (pv_resize w n)) (\<lambda>w.
     run_bind (run_set vec (VectorObj w)) (\<lambda>u.
     run_bind (get_SweepValue v) (\<lambda>(windowed, m_paramvalues, vecs).
     run_bind (run_set v (SweepValueObj windowed m_paramvalues (vecs @ [vec]))) (\<lambda>u.
     new_data_vectors types n v filt))))))"

definition new_param_vector :: "indexedcontainer option \<Rightarrow> nat \<Rightarrow> datatyperef \<Rightarrow> (nat, sweep_object) run" where
  "new_param_vector types v paramtype =
     run_bind (get_SweepValue v) (\<lambda>(windowed, m_paramvalues, vecs).
     case m_paramvalues of
       Some p \<Rightarrow> run_lift (Inr p)
     | None \<Rightarrow>
         run_bind (run_lift (DataTypeRef_new_vector types paramtype)) (\<lambda>w.
         run_bind (run_new (VectorObj w)) (\<lambda>p.
         run_bind (run_set v (SweepValueObj windowed (Some p) vecs)) (\<lambda>u. run_lift (Inr p)))))"

definition deserialize_simple :: "psffile \<Rightarrow> image \<Rightarrow> int \<Rightarrow> int \<Rightarrow> datatyperef list \<Rightarrow> nat
    \<Rightarrow> (int, sweep_object) run" where
  "deserialize_simple psf img startbuf n filt v =
     run_bind (run_lift (get_value_section_sweep psf)) (\<lambda>vss.
     run_bind (new_data_vectors (m_types psf) n v filt) (\<lambda>u.
     run_bind (run_lift (get_paramtype psf)) (\<lambda>paramtype.
     run_bind (new_param_vector (m_types psf) v paramtype) (\<lambda>p.
     run_bind (get_vector p) (\<lambda>paramvalues. let paramstartidx = pv_size paramvalues in
     run_bind (run_lift (pv_resize paramvalues (paramstartidx + n))) (\<lambda>paramvalues.
     run_bind (get_SweepValue v) (\<lambda>(windowed, m_paramvalues, as).
     run_bind (get_vectors as) (\<lambda>vecs.
     run_bind (run_lift (simple_loop (m_types psf) vss img paramtype filt paramstartidx (nat n) 0
         paramvalues vecs startbuf)) (\<lambda>(paramvalues, vecs, buf).
     run_bind (run_set p (VectorObj paramvalues)) (\<lambda>u.
     run_bind (set_vectors as vecs) (\<lambda>u.
     run_lift (Inr (buf - startbuf)))))))))))))"

text \<open>
  The windowed variant reads the header first, makes the parameter vector before the others, and
  begins those with \<open>clear()\<close>, which forgets vectors that were there.
\<close>

definition deserialize_windowed :: "psffile \<Rightarrow> image \<Rightarrow> int \<Rightarrow> int \<Rightarrow> datatyperef list \<Rightarrow> nat
    \<Rightarrow> (int, sweep_object) run" where
  "deserialize_windowed psf img startbuf totaln filt v =
     run_bind (run_lift (header_int psf ''PSF window size'')) (\<lambda>windowsize.
     run_bind (run_lift (header_int psf ''PSF traces'')) (\<lambda>ntraces.
     run_bind (run_lift (get_paramtype psf)) (\<lambda>paramtype.
     run_bind (new_param_vector (m_types psf) v paramtype) (\<lambda>p.
     run_bind (get_SweepValue v) (\<lambda>(windowed, m_paramvalues, as).
     run_bind (run_set v (SweepValueObj windowed m_paramvalues [])) (\<lambda>u.
     run_bind (new_data_vectors (m_types psf) totaln v filt) (\<lambda>u.
     run_bind (run_lift (get_value_section_sweep psf)) (\<lambda>vss.
     run_bind (get_vector p) (\<lambda>paramvalues.
     run_bind (get_SweepValue v) (\<lambda>(windowed, m_paramvalues, as).
     run_bind (get_vectors as) (\<lambda>vecs.
     run_bind (run_option (windowed_loop (m_types psf) vss img paramtype filt windowsize
         ntraces totaln 0 paramvalues vecs startbuf)) (\<lambda>(paramvalues, vecs, buf).
     run_bind (run_set p (VectorObj paramvalues)) (\<lambda>u.
     run_bind (set_vectors as vecs) (\<lambda>u.
     run_lift (Inr (buf - startbuf))))))))))))))))"

text \<open>The virtual call.\<close>

definition SweepValue_deserialize :: "psffile \<Rightarrow> image \<Rightarrow> int \<Rightarrow> int \<Rightarrow> datatyperef list \<Rightarrow> nat
    \<Rightarrow> (int, sweep_object) run" where
  "SweepValue_deserialize psf img buf n filt v =
     run_bind (get_SweepValue v) (\<lambda>(windowed, m_paramvalues, vecs).
     if windowed then deserialize_windowed psf img buf n filt v else deserialize_simple psf img buf n filt v)"

definition new_value :: "valuesectionsweep \<Rightarrow> (nat, sweep_object) run" where
  "new_value vss = run_new (SweepValueObj (vss_windowedsweep vss) None [])"

definition SweepValue_get_param_values :: "bool \<Rightarrow> nat \<Rightarrow> (nat option, sweep_object) run" where
  "SweepValue_get_param_values free v =
     run_bind (get_SweepValue v) (\<lambda>(windowed, result, vecs).
     run_bind (if free then run_set v (SweepValueObj windowed None vecs) else run_lift (Inr ())) (\<lambda>u.
     run_lift (Inr result)))"

subsection \<open>\<open>get_values\<close> and \<open>get_param_values\<close>\<close>

definition heap_get_values_filter :: "psffile \<Rightarrow> image \<Rightarrow> valuesectionsweep \<Rightarrow> datatyperef list
    \<Rightarrow> (nat, sweep_object) run" where
  "heap_get_values_filter psf img vss filt =
     run_bind (new_value vss) (\<lambda>value.
     run_bind (run_lift (header_int psf ''PSF sweep points'')) (\<lambda>n.
     run_bind (SweepValue_deserialize psf img (vss_valuebuf vss) n filt value) (\<lambda>k.
     run_lift (Inr value))))"

definition heap_get_values :: "psffile \<Rightarrow> image \<Rightarrow> valuesectionsweep \<Rightarrow> string \<Rightarrow> (nat, sweep_object) run" where
  "heap_get_values psf img vss name =
     run_bind (run_lift (rbind (get_trace_section psf) (\<lambda>traces. get_trace_by_name traces name))) (\<lambda>trace.
     run_bind (heap_get_values_filter psf img vss [trace]) (\<lambda>v.
     run_bind (get_SweepValue v) (\<lambda>(windowed, m_paramvalues, vecs).
     run_bind (run_lift (vector_at vecs 0)) (\<lambda>result.
     run_bind (run_set v (SweepValueObj windowed m_paramvalues [])) (\<lambda>u.
     run_bind (run_delete SweepValue_destructor v) (\<lambda>u.
     run_lift (Inr result)))))))"

definition heap_get_param_values :: "psffile \<Rightarrow> image \<Rightarrow> valuesectionsweep \<Rightarrow> (nat option, sweep_object) run" where
  "heap_get_param_values psf img vss =
     run_bind (heap_get_values_filter psf img vss []) (\<lambda>v.
     run_bind (SweepValue_get_param_values True v) (\<lambda>result.
     run_bind (run_delete SweepValue_destructor v) (\<lambda>u.
     run_lift (Inr result))))"

subsection \<open>Running it\<close>

lemma run_bind_SweepValue [run_simps]:
  "lookup h v = Some (SweepValueObj b p vs) \<Longrightarrow> run_bind (get_SweepValue v) f h = f (b, p, vs) h"
  by (simp add: get_SweepValue_def run_bind_def run_get_def run_lift_def object_at_Some)

lemma run_bind_vector [run_simps]:
  "lookup h a = Some (VectorObj w) \<Longrightarrow> run_bind (get_vector a) f h = f w h"
  by (simp add: get_vector_def run_bind_def run_get_def run_lift_def object_at_Some)

lemma keeps_object [keeps_intros]:
  "(\<And>w. keeps (f w)) \<Longrightarrow> (\<And>b p vs. keeps (g b p vs)) \<Longrightarrow>
     keeps (case x of VectorObj w \<Rightarrow> f w | SweepValueObj b p vs \<Rightarrow> g b p vs)"
  by (cases x) simp_all

lemma keeps_SweepValue [keeps_intros]: "keeps (get_SweepValue v)"
  unfolding get_SweepValue_def by (intro keeps_intros)

lemma keeps_vector [keeps_intros]: "keeps (get_vector a)"
  unfolding get_vector_def by (intro keeps_intros)

lemma keeps_vectors [keeps_intros]: "keeps (get_vectors as)"
  by (induction as) (simp_all add: keeps_intros)

lemma keeps_set_vectors [keeps_intros]: "keeps (set_vectors as ws)"
  by (induction as ws rule: set_vectors.induct) (simp_all add: keeps_intros)

lemma keeps_new_data_vectors [keeps_intros]: "keeps (new_data_vectors types n v filt)"
  by (induction filt) (simp_all, (intro keeps_intros | assumption)+)

lemma keeps_new_param_vector [keeps_intros]: "keeps (new_param_vector types v paramtype)"
  unfolding new_param_vector_def by (intro keeps_intros)

lemma keeps_deserialize [keeps_intros]: "keeps (SweepValue_deserialize psf img buf n filt v)"
  unfolding SweepValue_deserialize_def deserialize_simple_def deserialize_windowed_def Let_def
  by (intro keeps_intros)

subsection \<open>The vectors of a \<open>SweepValue\<close>\<close>

lemma new_data_vectors_run:
  assumes "create_data_vectors types n filt = Inr ws" and "lookup h v = Some (SweepValueObj b p vs)"
  shows "new_data_vectors types n v filt h = Some (Inr (),
    store (h @ map (\<lambda>w. Some (VectorObj w)) ws) v (SweepValueObj b p (vs @ [length h ..< length h + length ws])))"
  using assms
proof (induction filt arbitrary: ws h vs)
  case Nil
  then show ?case by (simp add: run_simps store_id)
next
  case (Cons trace filt)
  then obtain w w' ws' where w: "DataTypeRef_new_vector types trace = Inr w" "pv_resize w n = Inr w'"
    and ws: "ws = w' # ws'" "create_data_vectors types n filt = Inr ws'"
    by (auto simp: res_simps)
  let ?h = "h @ [Some (VectorObj w')]" and ?x = "SweepValueObj b p (vs @ [length h])"
  have v: "v < length h"
    using Cons.prems(2) by (rule lookup_bound)
  have "lookup (store ?h v ?x) v = Some ?x"
    using v by (simp add: heap.lookup_store lookup_append Cons.prems(2))
  note IH = Cons.IH [OF ws(2) this]
  have "[length h ..< length h + length ws] = length h # [length ?h ..< length ?h + length ws']"
    using ws(1) upt_conv_Cons [of "length h" "length h + length ws"] by (simp del: upt_Suc)
  moreover have "store (store ?h v ?x @ g) v y = store (h @ Some (VectorObj w') # g) v y" for g y
    using store_append [of v ?h g ?x] v by (simp add: store_store flip: store_append)
  ultimately show ?case
    using IH w ws(1) v Cons.prems(2)
    by (simp add: run_simps store_last lookup_append del: upt_Suc upt_rec_numeral)
qed

lemma new_data_vectors_error:
  assumes "create_data_vectors types n filt = Inl e" and "lookup h v = Some (SweepValueObj b p vs)"
  shows "\<exists>h'. new_data_vectors types n v filt h = Some (Inl e, h')"
  using assms
proof (induction filt arbitrary: h vs)
  case (Cons trace filt)
  have v: "v < length h"
    using Cons.prems(2) by (rule lookup_bound)
  consider "DataTypeRef_new_vector types trace = Inl e"
    | w where "DataTypeRef_new_vector types trace = Inr w" "pv_resize w n = Inl e"
    | w w' where "DataTypeRef_new_vector types trace = Inr w" "pv_resize w n = Inr w'"
      "create_data_vectors types n filt = Inl e"
    using Cons.prems(1) by (auto simp: res_simps)
  then show ?case
  proof cases
    case (3 w w')
    let ?h = "h @ [Some (VectorObj w')]" and ?x = "SweepValueObj b p (vs @ [length h])"
    have "lookup (store ?h v ?x) v = Some ?x"
      using v by (simp add: heap.lookup_store lookup_append Cons.prems(2))
    from Cons.IH [OF 3(3) this] 3(1,2) v Cons.prems(2) show ?thesis
      by (simp add: run_simps store_last lookup_append)
  qed (simp_all add: run_simps)
qed simp

abbreviation vectors_at :: "sweep_object heap \<Rightarrow> nat list \<Rightarrow> psfvector list \<Rightarrow> bool" where
  "vectors_at h as ws \<equiv> list_all2 (\<lambda>a w. lookup h a = Some (VectorObj w)) as ws"

lemma vectors_at_cong:
  "vectors_at h as ws \<Longrightarrow> (\<And>x. x \<in> set as \<Longrightarrow> lookup h' x = lookup h x) \<Longrightarrow> vectors_at h' as ws"
  by (simp add: list_all2_conv_all_nth)

lemma get_vectors_run: "vectors_at h as ws \<Longrightarrow> get_vectors as h = Some (Inr ws, h)"
  by (induction as ws rule: list_all2_induct) (simp_all add: run_simps)

lemma run_bind_vectors [run_simps]: "vectors_at h as ws \<Longrightarrow> run_bind (get_vectors as) f h = f ws h"
  by (simp add: get_vectors_run run_simps)

lemma set_vectors_run:
  assumes "vectors_at h as ws0" and "distinct as" and "length ws = length as"
  shows "\<exists>h'. set_vectors as ws h = Some (Inr (), h') \<and> length h' = length h \<and> vectors_at h' as ws
    \<and> (\<forall>x. x \<notin> set as \<longrightarrow> lookup h' x = lookup h x)"
  using assms
proof (induction as arbitrary: h ws ws0)
  case Nil
  then show ?case by (simp add: run_simps)
next
  case (Cons a as)
  then obtain w ws' w0 ws0' where ws: "ws = w # ws'" "ws0 = w0 # ws0'" "length ws' = length as"
    by (cases ws; cases ws0) auto
  let ?h = "store h a (VectorObj w)"
  have a: "lookup ?h x = (if x = a then Some (VectorObj w) else lookup h x)" for x
    using Cons.prems(1) ws(2) by (simp add: heap.lookup_store)
  have "vectors_at h as ws0'" "a \<notin> set as"
    using Cons.prems(1,2) ws(2) by simp_all
  then have "vectors_at ?h as ws0'"
    by (auto simp: a list_all2_conv_all_nth)
  from Cons.IH [OF this _ ws(3)] Cons.prems(2) obtain h' where
    "set_vectors as ws' ?h = Some (Inr (), h')" "length h' = length h" "vectors_at h' as ws'"
    "\<forall>x. x \<notin> set as \<longrightarrow> lookup h' x = lookup ?h x"
    by auto
  with ws(1) Cons.prems(2) show ?case
    by (intro exI [of _ h']) (simp add: run_simps a)
qed

text \<open>The loops keep the number of vectors.\<close>

lemma simple_traces_length: "simple_traces types vss img valuebuf i filt vecs = Inr ws \<Longrightarrow> length ws = length vecs"
  by (induction types vss img valuebuf i filt vecs arbitrary: ws rule: simple_traces.induct) (auto simp: res_simps)

lemma simple_loop_length:
  "simple_loop types vss img paramtype filt start k i pv vecs buf = Inr (pv', ws, buf') \<Longrightarrow> length ws = length vecs"
  by (induction k arbitrary: i pv vecs buf)
    (fastforce simp: simple_point_def Let_def res_simps dest: simple_traces_length)+

lemma windowed_traces_length:
  "windowed_traces types vss img windowsize valuebuf n i filt vecs = Inr ws \<Longrightarrow> length ws = length vecs"
  by (induction types vss img windowsize valuebuf n i filt vecs arbitrary: ws rule: windowed_traces.induct)
    (auto simp: res_simps Let_def)

lemma windowed_loop_length:
  "windowed_loop types vss img paramtype filt windowsize ntraces totaln i pv vecs buf = Some r \<Longrightarrow>
     \<forall>pv' ws buf'. r = Inr (pv', ws, buf') \<longrightarrow> length ws = length vecs"
proof (erule windowed_loop.raw_induct [rotated])
  fix loop types vss img paramtype filt windowsize ntraces totaln i pv vecs buf and r
  assume IH: "\<And>types vss img paramtype filt windowsize ntraces totaln i pv vecs buf r.
      loop types vss img paramtype filt windowsize ntraces totaln i pv vecs buf = Some r \<Longrightarrow>
      \<forall>pv' ws buf'. r = Inr (pv', ws, buf') \<longrightarrow> length ws = length vecs"
    and loop: "(if i < totaln
      then (case window_step types vss img paramtype filt windowsize ntraces i pv vecs buf of
          Inl e \<Rightarrow> Some (Inl e)
        | Inr r \<Rightarrow> (case r of (i, pv, vecs, buf) \<Rightarrow>
            loop types vss img paramtype filt windowsize ntraces totaln i pv vecs buf))
      else Some (Inr (pv, vecs, buf))) = Some r"
  show "\<forall>pv' ws buf'. r = Inr (pv', ws, buf') \<longrightarrow> length ws = length vecs"
  proof (cases "i < totaln \<and> (\<exists>s. window_step types vss img paramtype filt windowsize ntraces i pv vecs buf = Inr s)")
    case True
    then obtain i' pv' vecs' buf' where
      step: "window_step types vss img paramtype filt windowsize ntraces i pv vecs buf = Inr (i', pv', vecs', buf')"
      by auto
    then have "length vecs' = length vecs"
      by (auto simp: window_step_def Let_def res_simps dest: windowed_traces_length)
    with IH loop True step show ?thesis by auto
  qed (use loop in \<open>auto split: if_splits sum.splits\<close>)
qed

text \<open>A \<open>SweepValue\<close> and its vectors, which are all that was made since the heap \<open>h0\<close>.\<close>

definition sweep_at :: "sweep_object heap \<Rightarrow> nat \<Rightarrow> nat \<Rightarrow> nat list \<Rightarrow> psfvector \<Rightarrow> psfvector list \<Rightarrow> bool" where
  "sweep_at h v p as pw ws \<longleftrightarrow> (\<exists>b. lookup h v = Some (SweepValueObj b (Some p) as))
     \<and> lookup h p = Some (VectorObj pw) \<and> vectors_at h as ws \<and> distinct (v # p # as)"

definition made_since :: "'o heap \<Rightarrow> 'o heap \<Rightarrow> nat set \<Rightarrow> bool" where
  "made_since h0 h A \<longleftrightarrow> length h0 \<le> length h \<and> (\<forall>x < length h0. lookup h x = lookup h0 x)
     \<and> (\<forall>x \<ge> length h0. lookup h x \<noteq> None \<longleftrightarrow> x \<in> A) \<and> A \<subseteq> {length h0 ..}"

lemma made_since_live: "made_since h0 h A \<Longrightarrow> heap.live h = heap.live h0 \<union> A \<and> heap.live h0 \<inter> A = {}"
proof -
  assume made: "made_since h0 h A"
  have "lookup h0 x = None" if "length h0 \<le> x" for x
    using that by (simp add: lookup_def)
  with made have "x \<in> heap.live h \<longleftrightarrow> x \<in> heap.live h0 \<or> x \<in> A" "x \<in> A \<Longrightarrow> lookup h0 x = None" for x
    by (cases "x < length h0"; force simp: made_since_def heap.live_def)+
  then show ?thesis by (auto simp: heap.live_def)
qed

lemma sweep_finish:
  assumes "sweep_at h v p as pw0 ws0" and "made_since h0 h (set (v # p # as))" and "length ws = length as"
  shows "\<exists>h'. run_bind (run_set p (VectorObj pw)) (\<lambda>u. run_bind (set_vectors as ws) f) h = f () h'
    \<and> sweep_at h' v p as pw ws \<and> made_since h0 h' (set (v # p # as))"
proof -
  let ?h = "store h p (VectorObj pw)"
  have p: "lookup ?h x = (if x = p then Some (VectorObj pw) else lookup h x)" for x
    using assms(1) by (simp add: heap.lookup_store sweep_at_def)
  have dist: "distinct (v # p # as)" and vecs: "vectors_at h as ws0"
    using assms(1) by (simp_all add: sweep_at_def)
  have "vectors_at ?h as ws0"
    using vecs dist by (auto simp: p list_all2_conv_all_nth)
  from set_vectors_run [OF this _ assms(3)] dist obtain h' where
    h': "set_vectors as ws ?h = Some (Inr (), h')" "length h' = length h" "vectors_at h' as ws"
      "\<forall>x. x \<notin> set as \<longrightarrow> lookup h' x = lookup ?h x"
    by auto
  have other: "lookup h' x = lookup h x" if "x \<notin> set (p # as)" for x
    using that h'(4) p by simp
  have "lookup h' x \<noteq> None \<and> lookup h x \<noteq> None" if "x \<in> set as" for x
    using that h'(3) vecs by (auto simp: in_set_conv_nth list_all2_conv_all_nth)
  moreover have "lookup h' p \<noteq> None \<and> lookup h p \<noteq> None"
    using h'(4) p dist assms(1) by (auto simp: sweep_at_def)
  ultimately have "(lookup h' x \<noteq> None) = (lookup h x \<noteq> None)" for x
    using other [of x] by (cases "x \<in> set (p # as)") auto
  moreover have "x \<notin> set (p # as)" if "x < length h0" for x
    using assms(2) that by (auto simp: made_since_def)
  ultimately have "made_since h0 h' (set (v # p # as))"
    using assms(2) other h'(2) unfolding made_since_def by simp
  moreover have "sweep_at h' v p as pw ws"
    using assms(1) h'(3,4) dist p by (auto simp: sweep_at_def)
  ultimately show ?thesis
    using h'(1) by (intro exI [of _ h']) (simp add: run_simps)
qed

subsection \<open>A fresh \<open>SweepValue\<close> is filled like the model's\<close>

text \<open>
  \<open>filled h0 v r x\<close>: the run \<open>x\<close> on a \<open>SweepValue\<close> that is empty so far ends like \<open>r\<close>, and then
  the vectors hold what \<open>r\<close> says and nothing else was made.
\<close>

definition filled :: "sweep_object heap \<Rightarrow> nat \<Rightarrow> (psfvector \<times> psfvector list \<times> int) res option
    \<Rightarrow> (int res \<times> sweep_object heap) option \<Rightarrow> bool" where
  "filled h0 v r x \<longleftrightarrow> (case r of
     None \<Rightarrow> x = None
   | Some (Inl e) \<Rightarrow> (\<exists>h'. x = Some (Inl e, h'))
   | Some (Inr (pw, ws, k)) \<Rightarrow> (\<exists>h' p as. x = Some (Inr k, h') \<and> sweep_at h' v p as pw ws
       \<and> made_since h0 h' (set (v # p # as))))"

text \<open>Making the vectors, in either order.\<close>

lemma lookup_made:
  "v < length h \<Longrightarrow> lookup (store (h @ map Some xs) v y) x = (if x = v then Some y
     else if x < length h then lookup h x else if x < length h + length xs then Some (xs ! (x - length h)) else None)"
  by (auto simp: store_append lookup_def nth_append store_def)

lemma made_since_new:
  assumes made: "made_since h0 h A" and v: "v \<in> A"
  shows "made_since h0 (store (h @ map Some xs) v y) (A \<union> {length h ..< length h + length xs})"
proof -
  have A: "x < length h" "length h0 \<le> x" if "x \<in> A" for x
    using made that by (auto simp: made_since_def dest: lookup_bound)
  have len: "length h0 \<le> length h" and old: "lookup h x = lookup h0 x" if "x < length h0" for x
    using made that by (auto simp: made_since_def)
  have new: "lookup h x \<noteq> None \<longleftrightarrow> x \<in> A" if "length h0 \<le> x" for x
    using made that by (auto simp: made_since_def)
  note at = lookup_made [OF A(1) [OF v], of xs y]
  show ?thesis
    unfolding made_since_def
  proof (intro conjI allI impI)
    show "length h0 \<le> length (store (h @ map Some xs) v y)"
      using made by (simp add: made_since_def)
    show "lookup (store (h @ map Some xs) v y) x = lookup h0 x" if "x < length h0" for x
      using that A(2) [OF v] old [OF that] made by (simp add: at made_since_def)
    show "(lookup (store (h @ map Some xs) v y) x \<noteq> None) = (x \<in> A \<union> {length h ..< length h + length xs})"
      if "length h0 \<le> x" for x
      using that A(1) [of x] A(1) [OF v] v new [OF that] by (auto simp: at)
    show "A \<union> {length h ..< length h + length xs} \<subseteq> {length h0 ..}"
      using made by (auto simp: made_since_def)
  qed
qed

lemma new_data_vectors_made:
  assumes "create_data_vectors types n filt = Inr ws" and v: "lookup h v = Some (SweepValueObj b p [])"
    and made: "made_since h0 h A" "v \<in> A"
  shows "\<exists>h' as. new_data_vectors types n v filt h = Some (Inr (), h') \<and> lookup h' v = Some (SweepValueObj b p as)
    \<and> vectors_at h' as ws \<and> distinct as \<and> set as \<inter> heap.live h = {} \<and> made_since h0 h' (A \<union> set as)
    \<and> (\<forall>x \<in> heap.live h. x \<noteq> v \<longrightarrow> lookup h' x = lookup h x)"
proof -
  let ?as = "[length h ..< length h + length ws]"
  let ?h = "store (h @ map (\<lambda>w. Some (VectorObj w)) ws) v (SweepValueObj b p ?as)"
  have run: "new_data_vectors types n v filt h = Some (Inr (), ?h)"
    using new_data_vectors_run [OF assms(1) v] by simp
  have len: "v < length h"
    using v by (rule lookup_bound)
  note at = lookup_made [OF len, of "map VectorObj ws" "SweepValueObj b p ?as", simplified, unfolded comp_def]
  have "vectors_at ?h ?as ws"
    using len by (auto simp: list_all2_conv_all_nth at)
  moreover have "made_since h0 ?h (A \<union> set ?as)"
    using made_since_new [OF made, of "map VectorObj ws"] by (simp add: comp_def)
  moreover have "x < length h" if "x \<in> heap.live h" for x
    using that by (rule live_bound)
  then have "set ?as \<inter> heap.live h = {}" "\<forall>x \<in> heap.live h. x \<noteq> v \<longrightarrow> lookup ?h x = lookup h x"
    by (fastforce simp: at)+
  moreover have "lookup ?h v = Some (SweepValueObj b p ?as)"
    by (simp add: at)
  ultimately show ?thesis
    using run by (intro exI [of _ ?h] exI [of _ ?as]) simp
qed

lemma new_param_vector_made:
  assumes "DataTypeRef_new_vector types paramtype = Inr w" and v: "lookup h v = Some (SweepValueObj b None as)"
    and made: "made_since h0 h A" "v \<in> A"
  shows "\<exists>h' p. new_param_vector types v paramtype h = Some (Inr p, h') \<and> lookup h' v = Some (SweepValueObj b (Some p) as)
    \<and> lookup h' p = Some (VectorObj w) \<and> p \<notin> heap.live h \<and> made_since h0 h' (insert p A)
    \<and> (\<forall>x \<in> heap.live h. x \<noteq> v \<longrightarrow> lookup h' x = lookup h x)"
proof -
  let ?h = "store (h @ [Some (VectorObj w)]) v (SweepValueObj b (Some (length h)) as)"
  have len: "v < length h"
    using v by (rule lookup_bound)
  note at = lookup_made [OF len, of "[VectorObj w]" "SweepValueObj b (Some (length h)) as", simplified]
  have "made_since h0 ?h (insert (length h) A)"
    using made_since_new [OF made, of "[VectorObj w]"] by simp
  moreover have "x < length h" if "x \<in> heap.live h" for x
    using that by (rule live_bound)
  then have "length h \<notin> heap.live h" "\<forall>x \<in> heap.live h. x \<noteq> v \<longrightarrow> lookup ?h x = lookup h x"
    by (auto simp: at)
  moreover have "lookup ?h v = Some (SweepValueObj b (Some (length h)) as)" "lookup ?h (length h) = Some (VectorObj w)"
    using len by (simp_all add: at)
  moreover have "new_param_vector types v paramtype h = Some (Inr (length h), ?h)"
    using len assms(1) v by (simp add: new_param_vector_def run_simps lookup_append)
  ultimately show ?thesis by blast
qed

lemma new_param_vector_error:
  "DataTypeRef_new_vector types paramtype = Inl e \<Longrightarrow> lookup h v = Some (SweepValueObj b None as) \<Longrightarrow>
     \<exists>h'. new_param_vector types v paramtype h = Some (Inl e, h')"
  by (simp add: new_param_vector_def run_simps)

text \<open>The end of both variants: the loop has run, and its vectors are stored.\<close>

lemma filled_error: "r = Some (Inl e) \<Longrightarrow> \<exists>h'. x = Some (Inl e, h') \<Longrightarrow> filled h0 v r x"
  by (simp add: filled_def)

lemma filled_loop:
  assumes "sweep_at h v p as pw0 ws0" and "made_since h0 h (set (v # p # as))"
    and "\<And>pw ws buf. loop = Some (Inr (pw, ws, buf)) \<Longrightarrow> length ws = length as"
  shows "filled h0 v (map_option (\<lambda>r. rbind r (\<lambda>(pw, ws, buf). Inr (pw, ws, buf - startbuf))) loop)
    (run_bind (run_option loop) (\<lambda>(pw, ws, buf).
       run_bind (run_set p (VectorObj pw)) (\<lambda>u. run_bind (set_vectors as ws) (\<lambda>u.
       run_lift (Inr (buf - startbuf))))) h)"
proof (cases loop)
  case None
  then show ?thesis by (simp add: filled_def run_bind_def run_option_def)
next
  case (Some r)
  show ?thesis
  proof (cases r)
    case (Inl e)
    with Some show ?thesis by (intro filled_error [of _ e]) (simp_all add: run_bind_def run_option_def)
  next
    case (Inr x)
    obtain pw ws buf where x: "x = (pw, ws, buf)" by (cases x)
    have "length ws = length as"
      using assms(3) Some Inr x by simp
    from sweep_finish [OF assms(1,2) this, of pw "\<lambda>u. run_lift (Inr (buf - startbuf))"] Some Inr x show ?thesis
      by (auto simp: filled_def run_simps run_option_def run_bind_def)
  qed
qed

lemma vectors_at_live: "vectors_at h as ws \<Longrightarrow> set as \<subseteq> heap.live h"
  by (auto simp: heap.live_def in_set_conv_nth list_all2_conv_all_nth)

lemma vectors_at_kept:
  "vectors_at h as ws \<Longrightarrow> v \<notin> set as \<Longrightarrow> \<forall>x \<in> heap.live h. x \<noteq> v \<longrightarrow> lookup h' x = lookup h x \<Longrightarrow> vectors_at h' as ws"
  using vectors_at_live [of h as ws] by (fastforce simp: list_all2_conv_all_nth heap.live_def)

lemma fresh_value: "lookup (h0 @ [Some x]) (length h0) = Some x" "made_since h0 (h0 @ [Some x]) {length h0}"
  by (auto simp: lookup_def made_since_def nth_append)

lemma data_then_param:
  assumes v: "lookup h v = Some (SweepValueObj b None [])" and made: "made_since h0 h {v}"
    and "create_data_vectors types n filt = Inr ws" and "DataTypeRef_new_vector types pt = Inr w"
  shows "\<exists>h1 h2 p as. new_data_vectors types n v filt h = Some (Inr (), h1)
    \<and> new_param_vector types v pt h1 = Some (Inr p, h2) \<and> sweep_at h2 v p as w ws
    \<and> made_since h0 h2 (set (v # p # as))"
proof -
  obtain h1 as where h1: "new_data_vectors types n v filt h = Some (Inr (), h1)"
    "lookup h1 v = Some (SweepValueObj b None as)" "vectors_at h1 as ws" "distinct as" "set as \<inter> heap.live h = {}"
    "made_since h0 h1 ({v} \<union> set as)"
    using new_data_vectors_made [OF assms(3) v made] by blast
  obtain h2 p where h2: "new_param_vector types v pt h1 = Some (Inr p, h2)"
    "lookup h2 v = Some (SweepValueObj b (Some p) as)" "lookup h2 p = Some (VectorObj w)" "p \<notin> heap.live h1"
    "made_since h0 h2 (insert p ({v} \<union> set as))" "\<forall>x \<in> heap.live h1. x \<noteq> v \<longrightarrow> lookup h2 x = lookup h1 x"
    using new_param_vector_made [OF assms(4) h1(2,6)] by blast
  have "v \<notin> set as" "p \<notin> set as" "p \<noteq> v"
    using h1(2,5) v h2(4) vectors_at_live [OF h1(3)] by (auto simp: heap.live_def)
  then have "sweep_at h2 v p as w ws" "made_since h0 h2 (set (v # p # as))"
    using h2 h1(4) vectors_at_kept [OF h1(3) _ h2(6)] by (auto simp: sweep_at_def insert_commute)
  with h1(1) h2(1) show ?thesis by blast
qed

lemma param_then_data:
  assumes v: "lookup h v = Some (SweepValueObj b None [])" and made: "made_since h0 h {v}"
    and "create_data_vectors types n filt = Inr ws" and "DataTypeRef_new_vector types pt = Inr w"
  shows "\<exists>h1 h2 p as. new_param_vector types v pt h = Some (Inr p, h1)
    \<and> lookup h1 v = Some (SweepValueObj b (Some p) [])
    \<and> new_data_vectors types n v filt h1 = Some (Inr (), h2) \<and> sweep_at h2 v p as w ws
    \<and> made_since h0 h2 (set (v # p # as))"
proof -
  obtain h1 p where h1: "new_param_vector types v pt h = Some (Inr p, h1)"
    "lookup h1 v = Some (SweepValueObj b (Some p) [])" "lookup h1 p = Some (VectorObj w)" "p \<notin> heap.live h"
    "made_since h0 h1 (insert p {v})"
    using new_param_vector_made [OF assms(4) v made] by blast
  obtain h2 as where h2: "new_data_vectors types n v filt h1 = Some (Inr (), h2)"
    "lookup h2 v = Some (SweepValueObj b (Some p) as)" "vectors_at h2 as ws" "distinct as" "set as \<inter> heap.live h1 = {}"
    "made_since h0 h2 (insert p {v} \<union> set as)" "\<forall>x \<in> heap.live h1. x \<noteq> v \<longrightarrow> lookup h2 x = lookup h1 x"
    using new_data_vectors_made [OF assms(3) h1(2,5)] by blast
  have "v \<notin> set as" "p \<notin> set as" "p \<noteq> v" "lookup h2 p = Some (VectorObj w)"
    using h1 v h2(5,7) by (auto simp: heap.live_def)
  then have "sweep_at h2 v p as w ws" "made_since h0 h2 (set (v # p # as))"
    using h2 by (auto simp: sweep_at_def insert_commute)
  with h1(1,2) h2(1) show ?thesis by blast
qed

lemma deserialize_simple_filled:
  assumes v: "lookup h v = Some (SweepValueObj b None [])" and made: "made_since h0 h {v}"
  shows "filled h0 v (Some (SweepValueSimple_deserialize psf img startbuf n filt))
     (deserialize_simple psf img startbuf n filt v h)"
proof -
  note defs = SweepValueSimple_deserialize_def deserialize_simple_def
  note data = new_data_vectors_made [OF _ v made, of "m_types psf" n filt]
  consider e where "get_value_section_sweep psf = Inl e"
    | vss e where "get_value_section_sweep psf = Inr vss" "create_data_vectors (m_types psf) n filt = Inl e"
    | vss ws e where "get_value_section_sweep psf = Inr vss" "create_data_vectors (m_types psf) n filt = Inr ws"
        "get_paramtype psf = Inl e"
    | vss ws pt e where "get_value_section_sweep psf = Inr vss" "create_data_vectors (m_types psf) n filt = Inr ws"
        "get_paramtype psf = Inr pt" "DataTypeRef_new_vector (m_types psf) pt = Inl e"
    | vss ws pt w where "get_value_section_sweep psf = Inr vss" "create_data_vectors (m_types psf) n filt = Inr ws"
        "get_paramtype psf = Inr pt" "DataTypeRef_new_vector (m_types psf) pt = Inr w"
    by (metis (no_types, opaque_lifting) sum.exhaust)
  then show ?thesis
  proof cases
    case (2 vss e)
    with new_data_vectors_error [OF 2(2) v] show ?thesis
      by (intro filled_error [of _ e]) (auto simp: defs run_simps)
  next
    case (4 vss ws pt e)
    obtain h1 as where "new_data_vectors (m_types psf) n v filt h = Some (Inr (), h1)"
      "lookup h1 v = Some (SweepValueObj b None as)"
      using data [OF 4(2)] by blast
    with 4 new_param_vector_error [OF 4(4)] show ?thesis
      by (intro filled_error [of _ e]) (fastforce simp: defs run_simps)+
  next
    case (5 vss ws pt w)
    obtain h1 h2 p as where h: "new_data_vectors (m_types psf) n v filt h = Some (Inr (), h1)"
      "new_param_vector (m_types psf) v pt h1 = Some (Inr p, h2)" "sweep_at h2 v p as w ws"
      "made_since h0 h2 (set (v # p # as))"
      using data_then_param [OF v made 5(2,4)] by blast
    obtain b' where at: "lookup h2 v = Some (SweepValueObj b' (Some p) as)" "lookup h2 p = Some (VectorObj w)"
      "vectors_at h2 as ws"
      using h(3) by (auto simp: sweep_at_def)
    show ?thesis
    proof (cases "pv_resize w (pv_size w + n)")
      case (Inl e)
      with 5 h(1,2) at show ?thesis
        by (intro filled_error [of _ e]) (simp_all add: defs run_simps Let_def)
    next
      case (Inr w')
      let ?loop = "simple_loop (m_types psf) vss img pt filt (pv_size w) (nat n) 0 w' ws startbuf"
      have "length ws' = length as" if "Some ?loop = Some (Inr (pw, ws', buf))" for pw ws' buf
        using that simple_loop_length at(3) by (auto dest: list_all2_lengthD)
      note filled = filled_loop [where startbuf = startbuf and loop = "Some ?loop", OF h(3,4) this]
      have "SweepValueSimple_deserialize psf img startbuf n filt
          = rbind ?loop (\<lambda>(pw, ws, buf). Inr (pw, ws, buf - startbuf))"
        using 5 Inr by (simp add: defs Let_def)
      moreover have "deserialize_simple psf img startbuf n filt v h = run_bind (run_lift ?loop) (\<lambda>(pw, ws, buf).
          run_bind (run_set p (VectorObj pw)) (\<lambda>u. run_bind (set_vectors as ws) (\<lambda>u.
          run_lift (Inr (buf - startbuf))))) h2"
        using 5 h(1,2) at Inr by (simp add: defs run_simps Let_def)
      ultimately show ?thesis
        using filled by (simp add: run_lift_option)
    qed
  qed (auto intro!: filled_error simp: defs run_simps dest!: data)
qed

lemma deserialize_windowed_filled:
  assumes v: "lookup h v = Some (SweepValueObj b None [])" and made: "made_since h0 h {v}"
  shows "filled h0 v (SweepValueWindowed_deserialize psf img startbuf n filt)
     (deserialize_windowed psf img startbuf n filt v h)"
proof -
  note defs = SweepValueWindowed_deserialize_def SweepValueWindowed_prepare_def deserialize_windowed_def
  show ?thesis
  proof (cases "rbind (header_int psf ''PSF window size'') (\<lambda>windowsize. rbind (header_int psf ''PSF traces'')
      (\<lambda>ntraces. rbind (get_paramtype psf) (\<lambda>pt. Inr (windowsize, ntraces, pt))))")
    case (Inl e)
    then show ?thesis
      by (intro filled_error [of _ e]) (auto simp: defs run_simps rbind_eq_Inl)
  next
    case (Inr r)
    obtain ws0 nt pt where r: "header_int psf ''PSF window size'' = Inr ws0" "header_int psf ''PSF traces'' = Inr nt"
      "get_paramtype psf = Inr pt"
      using Inr by (auto simp: res_simps)
    consider e where "DataTypeRef_new_vector (m_types psf) pt = Inl e"
      | w e where "DataTypeRef_new_vector (m_types psf) pt = Inr w" "create_data_vectors (m_types psf) n filt = Inl e"
      | w ws where "DataTypeRef_new_vector (m_types psf) pt = Inr w" "create_data_vectors (m_types psf) n filt = Inr ws"
      by (metis sum.exhaust)
    then show ?thesis
    proof cases
      case (1 e)
      with r new_param_vector_error [OF 1 v] show ?thesis
        by (intro filled_error [of _ e]) (auto simp: defs run_simps)
    next
      case (2 w e)
      obtain h1 p where h1: "new_param_vector (m_types psf) v pt h = Some (Inr p, h1)"
        "lookup h1 v = Some (SweepValueObj b (Some p) [])"
        using new_param_vector_made [OF 2(1) v made] by blast
      with r 2 new_data_vectors_error [OF 2(2) h1(2)] show ?thesis
        by (intro filled_error [of _ e]) (auto simp: defs run_simps store_id)
    next
      case (3 w ws)
      obtain h1 h2 p as where h: "new_param_vector (m_types psf) v pt h = Some (Inr p, h1)"
        "lookup h1 v = Some (SweepValueObj b (Some p) [])"
        "new_data_vectors (m_types psf) n v filt h1 = Some (Inr (), h2)" "sweep_at h2 v p as w ws"
        "made_since h0 h2 (set (v # p # as))"
        using param_then_data [OF v made 3(2,1)] by blast
      obtain b' where at: "lookup h2 v = Some (SweepValueObj b' (Some p) as)" "lookup h2 p = Some (VectorObj w)"
        "vectors_at h2 as ws"
        using h(4) by (auto simp: sweep_at_def)
      show ?thesis
      proof (cases "get_value_section_sweep psf")
        case (Inl e)
        with r 3 h show ?thesis
          by (intro filled_error [of _ e]) (auto simp: defs run_simps store_id)
      next
        case (Inr vss)
        let ?loop = "windowed_loop (m_types psf) vss img pt filt ws0 nt n 0 w ws startbuf"
        have "length ws' = length as" if "?loop = Some (Inr (pw, ws', buf))" for pw ws' buf
          using windowed_loop_length [OF that] at(3) by (auto dest: list_all2_lengthD)
        note filled = filled_loop [where startbuf = startbuf and loop = ?loop, OF h(4,5) this]
        have "SweepValueWindowed_deserialize psf img startbuf n filt
            = map_option (\<lambda>r. rbind r (\<lambda>(pw, ws, buf). Inr (pw, ws, buf - startbuf))) ?loop"
          using r 3 Inr by (simp add: defs map_option_case)
        moreover have "deserialize_windowed psf img startbuf n filt v h = run_bind (run_option ?loop) (\<lambda>(pw, ws, buf).
            run_bind (run_set p (VectorObj pw)) (\<lambda>u. run_bind (set_vectors as ws) (\<lambda>u.
            run_lift (Inr (buf - startbuf))))) h2"
          using r 3 h at Inr by (simp add: defs run_simps store_id)
        ultimately show ?thesis
          using filled by simp
      qed
    qed
  qed
qed

subsection \<open>What is left when a request is over\<close>

lemma get_values_filter_filled:
  "filled h0 (length h0) (ValueSectionSweep_get_values_filter psf img vss filt)
     (run_bind (new_value vss) (\<lambda>value. run_bind (run_lift (header_int psf ''PSF sweep points'')) (\<lambda>n.
       SweepValue_deserialize psf img (vss_valuebuf vss) n filt value)) h0)"
proof (cases "header_int psf ''PSF sweep points''")
  case (Inl e)
  then show ?thesis
    by (intro filled_error [of _ e]) (auto simp: ValueSectionSweep_get_values_filter_def new_value_def run_simps)
next
  case (Inr n)
  then show ?thesis
    using deserialize_simple_filled [OF fresh_value] deserialize_windowed_filled [OF fresh_value]
    by (simp add: ValueSectionSweep_get_values_filter_def new_value_def run_simps fresh_value SweepValue_deserialize_def)
qed

lemma heap_get_values_filter_run:
  "case ValueSectionSweep_get_values_filter psf img vss filt of
     None \<Rightarrow> heap_get_values_filter psf img vss filt h = None
   | Some (Inl e) \<Rightarrow> \<exists>h'. heap_get_values_filter psf img vss filt h = Some (Inl e, h') \<and> heap.live h \<subset> heap.live h'
   | Some (Inr (pw, ws, k)) \<Rightarrow> \<exists>h' v p as. heap_get_values_filter psf img vss filt h = Some (Inr v, h')
       \<and> sweep_at h' v p as pw ws \<and> made_since h h' (set (v # p # as))"
proof -
  let ?run = "run_bind (run_lift (header_int psf ''PSF sweep points'')) (\<lambda>n.
    SweepValue_deserialize psf img (vss_valuebuf vss) n filt (length h))"
  let ?h = "h @ [Some (SweepValueObj (vss_windowedsweep vss) None [])]"
  have run: "heap_get_values_filter psf img vss filt h = run_bind ?run (\<lambda>k. run_lift (Inr (length h))) ?h"
    by (simp add: heap_get_values_filter_def new_value_def run_simps run_bind_assoc)
  have "keeps ?run"
    by (intro keeps_intros)
  then have leak: "heap.live h \<subset> heap.live h'" if "?run ?h = Some (r, h')" for r h'
  proof -
    have "heap.live ?h \<subseteq> heap.live h'"
      using \<open>keeps ?run\<close> that unfolding keeps_def by blast
    moreover have "heap.live ?h = insert (length h) (heap.live h)" "length h \<notin> heap.live h"
      using heap.live_alloc [of "SweepValueObj (vss_windowedsweep vss) None []" h] live_bound [of "length h" h]
      by (auto simp: alloc_def)
    ultimately show ?thesis by blast
  qed
  have "filled h (length h) (ValueSectionSweep_get_values_filter psf img vss filt) (?run ?h)"
    using get_values_filter_filled [of h psf img vss filt] by (simp add: new_value_def run_simps)
  then show ?thesis
    unfolding run using leak
    by (auto simp: filled_def run_simps split: option.splits sum.splits)
qed

lemma destructor_VectorObj [simp]: "SweepValue_destructor (VectorObj w) = []"
  by (simp add: SweepValue_destructor_def)

lemma delete_vectors:
  "distinct xs \<Longrightarrow> \<forall>x \<in> set xs. \<exists>w. lookup g x = Some (VectorObj w) \<Longrightarrow>
     delete_all SweepValue_destructor g xs = Inr (release_all g xs)"
proof (induction xs arbitrary: g)
  case (Cons x xs)
  then obtain w where "lookup g x = Some (VectorObj w)" by auto
  moreover have "delete_all SweepValue_destructor (release g x) xs = Inr (release_all (release g x) xs)"
    using Cons by (intro Cons.IH) (auto simp: heap.lookup_release)
  ultimately show ?case by (simp add: object_at_Some)
qed simp

text \<open>The destructor after a vector was taken out: it deletes the others, and the vector stays.\<close>

lemma release_SweepValue:
  assumes "sweep_at h v p as pw ws" and "made_since h0 h (set (v # p # as))"
    and "lookup h' v = Some (SweepValueObj b q bs)" and "\<forall>x. x \<noteq> v \<longrightarrow> lookup h' x = lookup h x" and "length h' = length h"
    and "set (case q of None \<Rightarrow> [] | Some p \<Rightarrow> [p]) \<union> set bs \<subseteq> set (p # as)"
    and "distinct ((case q of None \<Rightarrow> [] | Some p \<Rightarrow> [p]) @ bs)"
  shows "\<exists>h''. run_delete SweepValue_destructor v h' = Some (Inr (), h'')
    \<and> made_since h0 h'' (set (p # as) - set (SweepValue_destructor (SweepValueObj b q bs)))
    \<and> (\<forall>x \<in> set (p # as) - set (SweepValue_destructor (SweepValueObj b q bs)). lookup h'' x = lookup h x)"
proof -
  let ?ds = "SweepValue_destructor (SweepValueObj b q bs)"
  have ds: "set ?ds \<subseteq> set (p # as)" "distinct ?ds"
    using assms(6,7) by (auto simp: SweepValue_destructor_def)
  have vecs: "\<exists>w. lookup h x = Some (VectorObj w)" "x \<noteq> v" if "x \<in> set (p # as)" for x
    using assms(1) that by (auto simp: sweep_at_def in_set_conv_nth list_all2_conv_all_nth)
  have "\<forall>x \<in> set ?ds. \<exists>w. lookup (release h' v) x = Some (VectorObj w)"
    using ds(1) vecs assms(4) by (auto simp: heap.lookup_release subset_iff)
  then have del: "delete_all SweepValue_destructor h' [v] = Inr (release_all (release h' v) ?ds)"
    using delete_vectors [OF ds(2)] assms(3) by (simp add: object_at_Some)
  let ?h = "release_all (release h' v) ?ds"
  have at: "lookup ?h x = (if x = v \<or> x \<in> set ?ds then None else lookup h x)" for x
    using assms(4) by (auto simp: lookup_release_all heap.lookup_release)
  have "made_since h0 ?h (set (p # as) - set ?ds)"
    unfolding made_since_def
  proof (intro conjI allI impI)
    show "length h0 \<le> length ?h" "set (p # as) - set ?ds \<subseteq> {length h0 ..}"
      using assms(2,5) by (auto simp: made_since_def)
    show "lookup ?h x = lookup h0 x" if "x < length h0" for x
    proof -
      have "x \<notin> set (v # p # as)"
        using assms(2) that by (auto simp: made_since_def)
      with that assms(2) ds(1) show ?thesis by (auto simp: at made_since_def)
    qed
    show "(lookup ?h x \<noteq> None) = (x \<in> set (p # as) - set ?ds)" if "length h0 \<le> x" for x
      using assms(2) that vecs(2) by (auto simp: at made_since_def)
  qed
  moreover have "\<forall>x \<in> set (p # as) - set ?ds. lookup ?h x = lookup h x"
    using vecs(2) by (auto simp: at)
  ultimately show ?thesis
    using del by (intro exI [of _ ?h]) (simp add: run_delete_def)
qed

text \<open>
  A request for a signal: the result is the vector that the model gives, everything else that was
  made for it is gone, and what was there before is untouched. After an error, what was made is
  still there, since nothing holds a pointer to it.
\<close>

lemma get_values_filter_length:
  "ValueSectionSweep_get_values_filter psf img vss filt = Some (Inr (pw, ws, k)) \<Longrightarrow> length ws = length filt"
proof -
  have create: "length vecs = length filt" if "create_data_vectors types n filt = Inr vecs" for types n vecs
    using that by (induction filt arbitrary: vecs) (auto simp: res_simps)
  assume "ValueSectionSweep_get_values_filter psf img vss filt = Some (Inr (pw, ws, k))"
  then show ?thesis
    using create
    by (auto simp: ValueSectionSweep_get_values_filter_def SweepValueSimple_deserialize_def
        SweepValueWindowed_deserialize_def SweepValueWindowed_prepare_def Let_def res_simps
        split: sum.splits if_splits option.splits dest!: simple_loop_length windowed_loop_length)
qed

lemma heap_get_values_run:
  "case ValueSectionSweep_get_values psf img vss name of
     None \<Rightarrow> heap_get_values psf img vss name h = None
   | Some (Inl e) \<Rightarrow> \<exists>h'. heap_get_values psf img vss name h = Some (Inl e, h') \<and>
       (if \<exists>trace. rbind (get_trace_section psf) (\<lambda>traces. get_trace_by_name traces name) = Inr trace
        then heap.live h \<subset> heap.live h' else h' = h)
   | Some (Inr w) \<Rightarrow> \<exists>h' a. heap_get_values psf img vss name h = Some (Inr a, h')
       \<and> lookup h' a = Some (VectorObj w) \<and> made_since h h' {a}"
proof (cases "rbind (get_trace_section psf) (\<lambda>traces. get_trace_by_name traces name)")
  case (Inl e)
  then show ?thesis by (simp add: ValueSectionSweep_get_values_def heap_get_values_def run_simps)
next
  case (Inr trace)
  note run = heap_get_values_filter_run [of psf img vss "[trace]" h]
  note defs = ValueSectionSweep_get_values_def heap_get_values_def
  consider "ValueSectionSweep_get_values_filter psf img vss [trace] = None"
    | e where "ValueSectionSweep_get_values_filter psf img vss [trace] = Some (Inl e)"
    | pw ws k where "ValueSectionSweep_get_values_filter psf img vss [trace] = Some (Inr (pw, ws, k))"
    by (metis not_None_eq prod_cases3 sum.exhaust)
  then show ?thesis
  proof cases
    case (3 pw ws k)
    with run obtain h1 v p as where h1: "heap_get_values_filter psf img vss [trace] h = Some (Inr v, h1)"
      and sweep: "sweep_at h1 v p as pw ws" and made: "made_since h h1 (set (v # p # as))"
      by auto
    obtain b where v: "lookup h1 v = Some (SweepValueObj b (Some p) as)" and len: "length as = length ws"
      using sweep by (auto simp: sweep_at_def dest: list_all2_lengthD)
    have "length ws = 1"
      using get_values_filter_length [OF 3] by simp
    then obtain w a where ws: "ws = [w]" "as = [a]"
      using len by (auto simp: length_Suc_conv)
    let ?h2 = "store h1 v (SweepValueObj b (Some p) [])"
    have h2: "lookup ?h2 x = (if x = v then Some (SweepValueObj b (Some p) []) else lookup h1 x)" for x
      using v by (simp add: heap.lookup_store)
    from release_SweepValue [OF sweep made, of ?h2 b "Some p" "[]"] ws sweep obtain h3 where
      "run_delete SweepValue_destructor v ?h2 = Some (Inr (), h3)" "made_since h h3 {a}" "lookup h3 a = lookup h1 a"
      by (auto simp: h2 SweepValue_destructor_def sweep_at_def)
    with 3 Inr h1 v ws sweep show ?thesis
      by (auto simp: defs run_simps vector_at_def sweep_at_def run_lift_def)
  qed (use run Inr in \<open>auto simp: defs run_simps\<close>)
qed

lemma heap_get_param_values_run:
  "case ValueSectionSweep_get_param_values psf img vss of
     None \<Rightarrow> heap_get_param_values psf img vss h = None
   | Some (Inl e) \<Rightarrow> \<exists>h'. heap_get_param_values psf img vss h = Some (Inl e, h') \<and> heap.live h \<subset> heap.live h'
   | Some (Inr w) \<Rightarrow> \<exists>h' a. heap_get_param_values psf img vss h = Some (Inr (Some a), h')
       \<and> lookup h' a = Some (VectorObj w) \<and> made_since h h' {a}"
proof -
  note run = heap_get_values_filter_run [of psf img vss "[]" h]
  note defs = ValueSectionSweep_get_param_values_def heap_get_param_values_def SweepValue_get_param_values_def
  consider "ValueSectionSweep_get_values_filter psf img vss [] = None"
    | e where "ValueSectionSweep_get_values_filter psf img vss [] = Some (Inl e)"
    | pw ws k where "ValueSectionSweep_get_values_filter psf img vss [] = Some (Inr (pw, ws, k))"
    by (metis not_None_eq prod_cases3 sum.exhaust)
  then show ?thesis
  proof cases
    case (3 pw ws k)
    with run obtain h1 v p as where h1: "heap_get_values_filter psf img vss [] h = Some (Inr v, h1)"
      and sweep: "sweep_at h1 v p as pw ws" and made: "made_since h h1 (set (v # p # as))"
      by auto
    obtain b where v: "lookup h1 v = Some (SweepValueObj b (Some p) as)" and len: "length as = length ws"
      using sweep by (auto simp: sweep_at_def dest: list_all2_lengthD)
    have as: "as = []"
      using get_values_filter_length [OF 3] len by simp
    let ?h2 = "store h1 v (SweepValueObj b None [])"
    have h2: "lookup ?h2 x = (if x = v then Some (SweepValueObj b None []) else lookup h1 x)" for x
      using v by (simp add: heap.lookup_store)
    from release_SweepValue [OF sweep made, of ?h2 b None "[]"] as sweep obtain h3 where
      "run_delete SweepValue_destructor v ?h2 = Some (Inr (), h3)" "made_since h h3 {p}" "lookup h3 p = lookup h1 p"
      by (auto simp: h2 SweepValue_destructor_def sweep_at_def)
    with 3 h1 v as sweep show ?thesis
      by (auto simp: defs run_simps sweep_at_def run_lift_def)
  qed (use run in \<open>auto simp: defs run_simps\<close>)
qed

end
