(* ===== verification/SweepIterator.thy ===== *)
theory SweepIterator
  imports SweepOwnership
begin

section \<open>Iterating over a sweep (src/psfinternal.h, src/psfsweepvalue.cc)\<close>

text \<open>
  \<open>SweepValueIterator\<close> reads one point at a time into a \<open>SweepValue\<close> of its caller. Nothing in
  the library uses it, and \<open>equal\<close>, which compares a member that does not exist, could not be
  instantiated; \<open>begin\<close>, \<open>end\<close>, \<open>increment\<close> and \<open>dereference\<close> are here. The lemmas say what a step
  reads, and that a step on a simple sweep makes one more vector for each trace, which it never fills.
\<close>

subsection \<open>The iterator\<close>

record iterator =
  it_buf :: int
  it_nextbuf :: int
  it_v :: "nat option"
  it_psf :: "psffile option"
  it_filter :: "datatyperef list option"

definition CHUNKID_VALUESECTIONEND :: int where
  "CHUNKID_VALUESECTIONEND = 15"

definition SweepValueIterator_deserialize :: "image \<Rightarrow> iterator \<Rightarrow> (int, sweep_object) run" where
  "SweepValueIterator_deserialize img it =
     (case (it_psf it, it_filter it) of
        (Some psf, Some filt) \<Rightarrow>
          run_bind (run_lift (GET_INT32 img (it_buf it))) (\<lambda>w. let chunkid = sint w in
          if chunkid \<noteq> CHUNKID_VALUESECTIONEND
          then (case it_v it of
              None \<Rightarrow> run_lift (Inl (Undefined NullPointer))
            | Some v \<Rightarrow> SweepValue_deserialize psf img (it_buf it) 1 filt v)
          else run_lift (Inr 0))
      | _ \<Rightarrow> run_lift (Inr 0))"

definition new_SweepValueIterator :: "image \<Rightarrow> nat option \<Rightarrow> int \<Rightarrow> psffile option \<Rightarrow> datatyperef list option
    \<Rightarrow> (iterator, sweep_object) run" where
  "new_SweepValueIterator img v valuebuf psf filt =
     (let it = \<lparr>it_buf = valuebuf, it_nextbuf = valuebuf, it_v = v, it_psf = psf, it_filter = filt\<rparr> in
      run_bind (SweepValueIterator_deserialize img it) (\<lambda>n.
      run_lift (Inr (it\<lparr>it_nextbuf := it_buf it + n\<rparr>))))"

definition SweepValueIterator_increment :: "image \<Rightarrow> iterator \<Rightarrow> (iterator, sweep_object) run" where
  "SweepValueIterator_increment img it =
     (let it = it\<lparr>it_buf := it_nextbuf it\<rparr> in
      run_bind (SweepValueIterator_deserialize img it) (\<lambda>n.
      run_lift (Inr (it\<lparr>it_nextbuf := it_buf it + n\<rparr>))))"

definition SweepValueIterator_dereference :: "iterator \<Rightarrow> nat res" where
  "SweepValueIterator_dereference it = deref (it_v it)"

definition ValueSectionSweep_begin :: "psffile \<Rightarrow> image \<Rightarrow> valuesectionsweep \<Rightarrow> nat \<Rightarrow> datatyperef list
    \<Rightarrow> (iterator, sweep_object) run" where
  "ValueSectionSweep_begin psf img vss v filt =
     new_SweepValueIterator img (Some v) (vss_valuebuf vss) (Some psf) (Some filt)"

definition ValueSectionSweep_end :: "image \<Rightarrow> valuesectionsweep \<Rightarrow> (iterator, sweep_object) run" where
  "ValueSectionSweep_end img vss = new_SweepValueIterator img None (vss_endbuf vss - 4) None None"

subsection \<open>A step\<close>

lemma end_stays: "ValueSectionSweep_end img vss h = Some (Inr it, h') \<Longrightarrow>
    h' = h \<and> it_buf it = vss_endbuf vss - 4 \<and> SweepValueIterator_increment img it h = Some (Inr it, h)"
  by (auto simp: ValueSectionSweep_end_def new_SweepValueIterator_def SweepValueIterator_increment_def
      SweepValueIterator_deserialize_def run_simps)

lemma end_marker_stays:
  assumes "GET_INT32 img (it_nextbuf it) = Inr 15"
  shows "SweepValueIterator_increment img it h = Some (Inr (it\<lparr>it_buf := it_nextbuf it\<rparr>), h)"
  using assms by (cases "it_psf it"; cases "it_filter it")
    (simp_all add: SweepValueIterator_increment_def SweepValueIterator_deserialize_def CHUNKID_VALUESECTIONEND_def
      run_simps Let_def)

text \<open>The first point of a simple sweep, read into an empty \<open>SweepValue\<close>.\<close>

lemma begin_reads_point:
  assumes "\<not> vss_windowedsweep vss" and "GET_INT32 img (vss_valuebuf vss) = Inr w" and "sint w \<noteq> 15"
    and "SweepValueSimple_deserialize psf img (vss_valuebuf vss) 1 filt = Inr (pw, ws, k)"
  shows "\<exists>it h' v p as. run_bind (new_value vss) (\<lambda>v. ValueSectionSweep_begin psf img vss v filt) h = Some (Inr it, h')
    \<and> SweepValueIterator_dereference it = Inr v \<and> it_nextbuf it = vss_valuebuf vss + k \<and> sweep_at h' v p as pw ws"
proof -
  let ?h = "h @ [Some (SweepValueObj False None [])]"
  have "filled h (length h) (Some (Inr (pw, ws, k)))
      (deserialize_simple psf img (vss_valuebuf vss) 1 filt (length h) ?h)"
    using deserialize_simple_filled [OF fresh_value, where b = False and n = 1 and psf = psf and img = img
        and startbuf = "vss_valuebuf vss" and filt = filt] assms(4) by simp
  then obtain h' p as where h': "deserialize_simple psf img (vss_valuebuf vss) 1 filt (length h) ?h = Some (Inr k, h')"
    "sweep_at h' (length h) p as pw ws"
    by (auto simp: filled_def)
  with assms(1-3) show ?thesis
    by (auto simp: new_value_def run_simps ValueSectionSweep_begin_def new_SweepValueIterator_def
        SweepValueIterator_deserialize_def SweepValueIterator_dereference_def CHUNKID_VALUESECTIONEND_def Let_def
        SweepValue_deserialize_def deref_def run_bind_SweepValue [OF fresh_value(1)])
qed

text \<open>Reading on: the vectors of the first read are written again, those of this read never.\<close>

lemma simple_traces_append:
  "simple_traces types vss img valuebuf i filt (vecs @ extra) = Inr ws \<Longrightarrow> length vecs = length filt \<Longrightarrow>
     \<exists>ws'. ws = ws' @ extra \<and> length ws' = length filt"
proof (induction filt arbitrary: vecs ws)
  case (Cons trace filt)
  then show ?case by (cases vecs) (fastforce simp: res_simps)+
qed simp

lemma simple_loop_append:
  "simple_loop types vss img paramtype filt start k i pv (vecs @ extra) buf = Inr (pv', ws, buf') \<Longrightarrow>
     length vecs = length filt \<Longrightarrow> \<exists>ws'. ws = ws' @ extra \<and> length ws' = length filt"
proof (induction k arbitrary: i pv vecs buf)
  case (Suc k)
  then show ?case
    by (fastforce simp: simple_point_def Let_def res_simps dest!: simple_traces_append)
qed auto

lemma step_makes_vectors:
  assumes sweep: "lookup h v = Some (SweepValueObj False (Some p) as)" and "length as = length filt"
    and "distinct (v # p # as)" and "vectors_at h as ws0" and p: "lookup h p = Some (VectorObj pw0)"
    and run: "deserialize_simple psf img buf n filt v h = Some (Inr k, h')"
    and new: "create_data_vectors (m_types psf) n filt = Inr ws"
  shows "\<exists>as'. lookup h' v = Some (SweepValueObj False (Some p) (as @ as')) \<and> length as' = length filt
    \<and> vectors_at h' as' ws \<and> set as' \<inter> heap.live h = {}"
proof -
  obtain vss where vss: "get_value_section_sweep psf = Inr vss"
    using run by (cases "get_value_section_sweep psf") (auto simp: deserialize_simple_def run_simps)
  let ?bs = "[length h ..< length h + length ws]"
  let ?h = "store (h @ map (\<lambda>w. Some (VectorObj w)) ws) v (SweepValueObj False (Some p) (as @ ?bs))"
  note data = new_data_vectors_run [OF new sweep]
  have len: "v < length h"
    using sweep by (rule lookup_bound)
  note at = lookup_made [OF len, of "map VectorObj ws" "SweepValueObj False (Some p) (as @ ?bs)", simplified, unfolded comp_def]
  have bound: "x < length h" if "x \<in> set (p # as)" for x
    using that p vectors_at_live [OF assms(4)] live_bound lookup_bound by auto
  have "vectors_at ?h as ws0"
    using assms(3,4) bound by (auto simp: at list_all2_conv_all_nth)
  moreover have "vectors_at ?h ?bs ws"
    using len by (auto simp: list_all2_conv_all_nth at)
  ultimately have vecs: "vectors_at ?h (as @ ?bs) (ws0 @ ws)"
    by (rule list_all2_appendI)
  have p': "lookup ?h p = Some (VectorObj pw0)" and v': "lookup ?h v = Some (SweepValueObj False (Some p) (as @ ?bs))"
    using assms(3) p bound by (simp_all add: at)
  obtain pt where pt: "get_paramtype psf = Inr pt"
    using run by (cases "get_paramtype psf") (auto simp: deserialize_simple_def run_simps vss data)
  have param: "new_param_vector (m_types psf) v pt ?h = Some (Inr p, ?h)"
    by (simp add: new_param_vector_def run_bind_SweepValue [OF v'] run_lift)
  let ?loop = "rbind (pv_resize pw0 (pv_size pw0 + n)) (\<lambda>w. simple_loop (m_types psf) vss img pt filt (pv_size pw0)
      (nat n) 0 w (ws0 @ ws) buf)"
  have "deserialize_simple psf img buf n filt v h = run_bind (run_lift ?loop) (\<lambda>(pw, ws, buf').
      run_bind (run_set p (VectorObj pw)) (\<lambda>u. run_bind (set_vectors (as @ ?bs) ws) (\<lambda>u.
      run_lift (Inr (buf' - buf))))) ?h"
    using vecs by (cases "pv_resize pw0 (pv_size pw0 + n)")
      (simp_all add: deserialize_simple_def run_simps run_bind_SweepValue [OF v'] vss data pt param p' Let_def)
  then obtain pw ws' buf' where loop: "?loop = Inr (pw, ws', buf')"
    and set: "run_bind (run_set p (VectorObj pw)) (\<lambda>u. run_bind (set_vectors (as @ ?bs) ws') (\<lambda>u.
      run_lift (Inr (buf' - buf)))) ?h = Some (Inr k, h')"
    using run by (cases ?loop) (auto simp: run_simps)
  have "length ws0 = length filt"
    using assms(2,4) by (simp add: list_all2_lengthD [symmetric])
  then obtain ws1 where ws': "ws' = ws1 @ ws" "length ws1 = length filt"
    using loop simple_loop_append by (fastforce simp: res_simps)
  let ?h2 = "store ?h p (VectorObj pw)"
  have h2: "lookup ?h2 x = (if x = p then Some (VectorObj pw) else lookup ?h x)" for x
    using p' by (simp add: heap.lookup_store)
  have "p \<notin> set (as @ ?bs)" and dist: "distinct (as @ ?bs)"
    using assms(3) bound by fastforce+
  then have "vectors_at ?h2 (as @ ?bs) (ws0 @ ws)"
    by (intro vectors_at_cong [OF vecs]) (auto simp: h2)
  from set_vectors_run [OF this dist, of ws'] ws' assms(2) list_all2_lengthD [OF vecs] obtain h3 where
    h3: "set_vectors (as @ ?bs) ws' ?h2 = Some (Inr (), h3)" "vectors_at h3 (as @ ?bs) (ws1 @ ws)"
      "\<forall>x. x \<notin> set (as @ ?bs) \<longrightarrow> lookup h3 x = lookup ?h2 x"
    by auto
  have "h' = h3"
    using set h3(1) by (simp add: run_simps)
  moreover have "vectors_at h3 ?bs ws"
    using h3(2) ws'(2) assms(2) by (simp add: list_all2_append)
  moreover have "lookup h3 v = Some (SweepValueObj False (Some p) (as @ ?bs))"
    using h3(3) assms(3) len v' by (simp add: h2)
  moreover have "length ws = length filt"
    using new by (induction filt arbitrary: ws) (auto simp: res_simps)
  moreover have "set ?bs \<inter> heap.live h = {}"
    using live_bound by fastforce
  ultimately show ?thesis
    by (intro exI [of _ ?bs]) simp
qed

end
