(* ===== verification/Conversions.thy ===== *)
theory Conversions
  imports Scalars
begin

section \<open>Numbers to and from text, and \<open>operator double\<close> (src/psfdata.cc)\<close>

text \<open>
  How the standard library prints an \<open>int\<close>, and what \<open>atof\<close> makes of a string in the C locale;
  the conversion of an \<open>int\<close> to \<open>double\<close>; and with them the conversion of a scalar to \<open>double\<close>.
  Doubles are bit patterns. A decimal or an integer becomes the nearest double, ties to even
  (\<open>round_ratio\<close>), which for an \<open>int\<close> is exact.
\<close>

subsection \<open>Decimal numerals\<close>

definition digit_char :: "nat \<Rightarrow> char" where
  "digit_char d = char_of (48 + d)"

fun decimal_nat :: "nat \<Rightarrow> string" where
  "decimal_nat n = (if n < 10 then [digit_char n] else decimal_nat (n div 10) @ [digit_char (n mod 10)])"

declare decimal_nat.simps [simp del]

definition decimal :: "int \<Rightarrow> string" where
  "decimal i = (if i < 0 then CHR ''-'' # decimal_nat (nat (- i)) else decimal_nat (nat i))"

lemma of_char_digit [simp]: "d < 10 \<Longrightarrow> of_char (digit_char d) = 48 + d"
  by (simp add: digit_char_def)

lemma isdigit_digit_char [simp]: "d < 10 \<Longrightarrow> isdigit (digit_char d)"
  by (simp add: isdigit_def)

lemma decimal_nat_digits: "list_all isdigit (decimal_nat n)"
  by (induction n rule: decimal_nat.induct) (subst decimal_nat.simps, simp)

lemma decimal_nat_nonempty [simp]: "decimal_nat n \<noteq> []"
  by (subst decimal_nat.simps) simp

lemma of_char_digit_int [simp]: "d < 10 \<Longrightarrow> of_char (digit_char d) = 48 + int d"
  by (metis of_char_digit of_nat_add of_nat_numeral of_nat_of_char)

lemma decimal_nat_value: "digits_value (decimal_nat n) = int n"
proof (induction n rule: decimal_nat.induct)
  case (1 n)
  then show ?case
    by (subst decimal_nat.simps) (simp add: digits_value_def zdiv_int zmod_int)
qed

lemma atoi_digits:
  assumes "list_all isdigit s" and "s \<noteq> []"
  shows "dropWhile isspace s = s" "hd s \<noteq> CHR ''-''" "hd s \<noteq> CHR ''+''" "takeWhile isdigit s = s"
proof -
  have "isdigit (hd s)"
    using assms by (cases s) auto
  then show "hd s \<noteq> CHR ''-''" "hd s \<noteq> CHR ''+''" "dropWhile isspace s = s"
    using assms(2) by (auto simp: isdigit_def isspace_def dropWhile_eq_self_iff)
  show "takeWhile isdigit s = s"
    using assms(1) by (simp add: list_all_iff)
qed

lemma atoi_decimal: "int_range i \<Longrightarrow> atoi (decimal i) = Inr i"
proof -
  assume range: "int_range i"
  note digits = atoi_digits [OF decimal_nat_digits decimal_nat_nonempty] decimal_nat_nonempty
  have "\<not> isspace CHR ''-''"
    by (simp add: isspace_def)
  then show ?thesis
    using range by (simp add: atoi_def decimal_def Let_def decimal_nat_value digits del: dropWhile_eq_Nil_conv)
qed

subsection \<open>The nearest double\<close>

text \<open>
  The double nearest to \<open>a / b\<close>, for positive \<open>a\<close> and \<open>b\<close>: the exponent of its leading bit, or that of
  the subnormal numbers; the quotient in units of the last place, rounded; and the two put
  together, where a significand that was rounded up to the next power of two carries into the exponent.
\<close>

fun log2 :: "int \<Rightarrow> nat" where
  "log2 m = (if m < 2 then 0 else Suc (log2 (m div 2)))"

declare log2.simps [simp del]

definition half_even :: "int \<Rightarrow> int \<Rightarrow> int" where
  "half_even p q = (let d = p div q; r = p mod q in
     if q < 2 * r \<or> (2 * r = q \<and> odd d) then d + 1 else d)"

definition exponent_of :: "int \<Rightarrow> int \<Rightarrow> int" where
  "exponent_of a b = (let e = int (log2 a) - int (log2 b) in
     if a * 2 ^ nat (- e) < b * 2 ^ nat e then e - 1 else e)"

definition round_ratio :: "int \<Rightarrow> int \<Rightarrow> int" where
  "round_ratio a b =
     (let e = max (exponent_of a b) (-1022);
          n = half_even (a * 2 ^ nat (52 - e)) (b * 2 ^ nat (e - 52))
      in min ((e + 1022) * 2 ^ 52 + n) (2047 * 2 ^ 52))"

definition signed_double :: "bool \<Rightarrow> int \<Rightarrow> 64 word" where
  "signed_double negative bits = word_of_int ((if negative then 2 ^ 63 else 0) + bits)"

definition int_to_double :: "int \<Rightarrow> 64 word" where
  "int_to_double i = signed_double (i < 0) (if i = 0 then 0 else round_ratio \<bar>i\<bar> 1)"

subsection \<open>\<open>atof\<close>\<close>

text \<open>
  White space, a sign, then \<open>inf\<close> or \<open>nan\<close> in any case, a hexadecimal number, or a decimal one; zero
  where there is no number. \<open>digits_in base\<close> are the digits of a numeral up to the first other character.
\<close>

definition lower :: "char \<Rightarrow> char" where
  "lower c = (if of_char c \<in> {65..90::nat} then char_of (of_char c + 32 :: nat) else c)"

definition digit_in :: "int \<Rightarrow> char \<Rightarrow> int option" where
  "digit_in base c =
     (if isdigit c then Some (of_char c - 48)
      else if base = 16 \<and> lower c \<in> {CHR ''a'', CHR ''b'', CHR ''c'', CHR ''d'', CHR ''e'', CHR ''f''}
      then Some (of_char (lower c) - 87) else None)"

definition digits_in :: "int \<Rightarrow> string \<Rightarrow> string" where
  "digits_in base s = takeWhile (\<lambda>c. digit_in base c \<noteq> None) s"

definition numeral_in :: "int \<Rightarrow> string \<Rightarrow> int" where
  "numeral_in base ds = foldl (\<lambda>a c. base * a + (case digit_in base c of Some d \<Rightarrow> d | None \<Rightarrow> 0)) 0 ds"

definition exponent_part :: "char \<Rightarrow> string \<Rightarrow> int" where
  "exponent_part mark s =
     (case s of
        [] \<Rightarrow> 0
      | c # s \<Rightarrow>
          let negative = (s \<noteq> [] \<and> hd s = CHR ''-'');
              s = (if s \<noteq> [] \<and> hd s \<in> {CHR ''-'', CHR ''+''} then tl s else s);
              k = digits_value (takeWhile isdigit s)
          in if lower c \<noteq> mark then 0 else if negative then - k else k)"

definition number_bits :: "int \<Rightarrow> int \<Rightarrow> char \<Rightarrow> string \<Rightarrow> int option" where
  "number_bits base radix mark s =
     (let ds = digits_in base s;
          s = drop (length ds) s;
          frac = (if s \<noteq> [] \<and> hd s = CHR ''.'' then digits_in base (tl s) else []);
          s = (if s \<noteq> [] \<and> hd s = CHR ''.'' then drop (length frac) (tl s) else s);
          m = numeral_in base (ds @ frac);
          k = exponent_part mark s - int (length frac) * (if base = 16 then 4 else 1)
      in if ds @ frac = [] then None
         else if m = 0 then Some 0
         else Some (round_ratio (m * radix ^ nat k) (radix ^ nat (- k))))"

definition atof :: "string \<Rightarrow> 64 word" where
  "atof s =
     (let s = dropWhile isspace s;
          negative = (s \<noteq> [] \<and> hd s = CHR ''-'');
          s = (if s \<noteq> [] \<and> hd s \<in> {CHR ''-'', CHR ''+''} then tl s else s);
          word = map lower (take 3 s)
      in if word = ''inf'' then signed_double negative (2047 * 2 ^ 52)
         else if word = ''nan'' then signed_double negative (2047 * 2 ^ 52 + 2 ^ 51)
         else case (if map lower (take 2 s) = ''0x'' then number_bits 16 2 (CHR ''p'') (drop 2 s) else None) of
             Some bits \<Rightarrow> signed_double negative bits
           | None \<Rightarrow> (case number_bits 10 10 (CHR ''e'') s of
                 Some bits \<Rightarrow> signed_double negative bits
               | None \<Rightarrow> 0))"

subsection \<open>\<open>operator double\<close>\<close>

fun scalar_to_double :: "scalar \<Rightarrow> (64 word) res" where
  "scalar_to_double (PSFInt8Scalar (Some b)) = Inr (int_to_double (sint b))"
| "scalar_to_double (PSFInt32Scalar (Some w)) = Inr (int_to_double (sint w))"
| "scalar_to_double (PSFDoubleScalar (Some d)) = Inr d"
| "scalar_to_double (PSFComplexDoubleScalar re im) = Inl (Throw NotImplemented)"
| "scalar_to_double (PSFStringScalar s) = Inr (atof s)"
| "scalar_to_double (StructScalar s) = Inr (int_to_double (-1))"
| "scalar_to_double _ = Inl (Undefined Uninitialised)"

subsection \<open>An \<open>int\<close> as a double\<close>

lemma log2_bounds: "1 \<le> m \<Longrightarrow> 2 ^ log2 m \<le> m \<and> m < 2 * 2 ^ log2 m"
proof (induction m rule: log2.induct)
  case (1 m)
  show ?case
  proof (cases "m < 2")
    case True
    with 1 show ?thesis by (subst (1 2) log2.simps) simp
  next
    case False
    then have "2 ^ log2 (m div 2) \<le> m div 2 \<and> m div 2 < 2 * 2 ^ log2 (m div 2)"
      using 1 by simp
    moreover have "m = 2 * (m div 2) + m mod 2" "0 \<le> m mod 2" "m mod 2 < 2"
      by simp_all
    ultimately have "2 * 2 ^ log2 (m div 2) \<le> m \<and> m < 4 * 2 ^ log2 (m div 2)"
      by linarith
    with False show ?thesis by (subst (1 2) log2.simps) simp
  qed
qed

lemma half_even_nearest:
  assumes "0 < q"
  shows "2 * \<bar>p - q * half_even p q\<bar> \<le> q"
proof -
  obtain d r where d: "p div q = d" and r: "p mod q = r" and p: "p = q * d + r"
    by (metis mult_div_mod_eq)
  have bounds: "0 \<le> r" "r < q"
    using pos_mod_bound [OF assms, of p] pos_mod_sign [OF assms, of p] r by simp_all
  have eq: "half_even p q = (if q < 2 * r \<or> (2 * r = q \<and> odd d) then d + 1 else d)"
    by (simp add: half_even_def d r)
  have "p - q * d = r" "p - q * (d + 1) = r - q"
    using p by (simp_all add: distrib_left)
  with eq bounds show ?thesis
    by (cases "q < 2 * r \<or> (2 * r = q \<and> odd d)") auto
qed

lemma half_even_exact: "half_even p 1 = p"
  by (simp add: half_even_def)

lemma round_ratio_int:
  assumes "1 \<le> m" and "m \<le> 2 ^ 31"
  shows "log2 m \<le> 31" "round_ratio m 1 = (int (log2 m) + 1022) * 2 ^ 52 + m * 2 ^ (52 - log2 m)"
    "2 ^ 52 \<le> m * 2 ^ (52 - log2 m)" "m * 2 ^ (52 - log2 m) < 2 ^ 53"
proof -
  note m = log2_bounds [OF assms(1)]
  have "(2 :: int) ^ log2 m \<le> 2 ^ 31"
    using m assms(2) by linarith
  then show e: "log2 m \<le> 31"
    using power_increasing_iff [of "2 :: int" "log2 m" 31] by simp
  have "(2 :: int) ^ 52 = 2 ^ log2 m * 2 ^ (52 - log2 m)" "(2 :: int) ^ 53 = 2 * 2 ^ log2 m * 2 ^ (52 - log2 m)"
    using e by (simp_all add: power_add [symmetric] power_Suc [symmetric] del: power_Suc)
  then show n: "2 ^ 52 \<le> m * 2 ^ (52 - log2 m)" "m * 2 ^ (52 - log2 m) < 2 ^ 53"
    using m by (metis mult_right_mono zero_le_numeral zero_le_power, metis mult_strict_right_mono zero_less_numeral zero_less_power)
  have "log2 1 = 0"
    by (simp add: log2.simps)
  then have "exponent_of m 1 = int (log2 m)"
    using m by (simp add: exponent_of_def Let_def)
  moreover have "(int (log2 m) + 1022) * 2 ^ 52 + m * 2 ^ (52 - log2 m) \<le> 2047 * 2 ^ 52"
    using e n(2) by simp
  moreover have "nat (52 - int (log2 m)) = 52 - log2 m" "nat (int (log2 m) - 52) = 0"
    using e by simp_all
  ultimately show "round_ratio m 1 = (int (log2 m) + 1022) * 2 ^ 52 + m * 2 ^ (52 - log2 m)"
    using e by (simp add: round_ratio_def Let_def half_even_exact)
qed

text \<open>The fields of a double that is put together from sign, exponent and fraction.\<close>

lemma signed_double_fields:
  assumes "0 \<le> e" "e < 2 ^ 11" and "0 \<le> f" "f < 2 ^ 52"
  shows "take_bit 11 (uint (drop_bit 52 (signed_double s (e * 2 ^ 52 + f)))) = e"
    "take_bit 52 (uint (signed_double s (e * 2 ^ 52 + f))) = f"
    "bit (signed_double s (e * 2 ^ 52 + f)) 63 = s"
proof -
  let ?b = "if s then 2 ^ 63 else 0 :: int"
  let ?u = "?b + (e * 2 ^ 52 + f)"
  have u: "0 \<le> ?u" "?u < 2 ^ 64"
    using assms by simp_all
  then have w: "uint (signed_double s (e * 2 ^ 52 + f)) = ?u"
    unfolding signed_double_def uint_word_of_int by (intro mod_pos_pos_trivial) simp_all
  have split: "?u = ((if s then 2 ^ 11 else 0) + e) * 2 ^ 52 + f"
    by (simp add: algebra_simps)
  have low: "(k * 2 ^ 52 + f) mod 2 ^ 52 = f" and high: "(k * 2 ^ 52 + f) div 2 ^ 52 = k" for k :: int
    using assms(3,4) by simp_all
  have "?u mod 2 ^ 52 = f" and d: "?u div 2 ^ 52 = (if s then 2 ^ 11 else 0) + e"
    unfolding split by (rule low, rule high)
  then show "take_bit 52 (uint (signed_double s (e * 2 ^ 52 + f))) = f"
    by (simp only: w take_bit_eq_mod)
  show "take_bit 11 (uint (drop_bit 52 (signed_double s (e * 2 ^ 52 + f)))) = e"
  proof -
    have drop: "uint (drop_bit 52 v) = uint v div 2 ^ 52" for v :: "64 word"
      using unsigned_less [of v, where ?'a = int] by (simp add: unsigned_drop_bit_eq drop_bit_eq_div [of 52 "uint v"] take_bit_int_eq_self del: power_numeral)
    have "take_bit 11 (uint (drop_bit 52 (signed_double s (e * 2 ^ 52 + f)))) = ((if s then 2 ^ 11 else 0) + e) mod 2 ^ 11"
      unfolding drop w d by (rule take_bit_eq_mod)
    with assms(1,2) show ?thesis by simp
  qed
  have "?u div 2 ^ 63 = (?u div 2 ^ 52) div 2 ^ 11"
    by (simp add: zdiv_zmult2_eq [symmetric])
  also have "\<dots> = (if s then 1 else 0)"
    unfolding d using assms(1,2) div_add_self1 [of "2 ^ 11" e] by simp
  finally have high: "?u div 2 ^ 63 = (if s then 1 else 0)" .
  have odd: "bit v 63 = odd (uint v div 2 ^ 63)" for v :: "64 word"
    using bit_iff_odd [of "uint v" 63] by (simp add: bit_unsigned_iff)
  show "bit (signed_double s (e * 2 ^ 52 + f)) 63 = s"
    unfolding odd w high by simp
qed

lemma double_to_int_of_int:
  assumes "int_range i"
  shows "double_to_int (int_to_double i) = Inr i"
proof (cases "i = 0")
  case True
  then show ?thesis
    by (simp add: int_to_double_def signed_double_def double_to_int_def double_magnitude_def double_finite_def
        double_mantissa_def double_exponent_def)
next
  case False
  let ?m = "\<bar>i\<bar>" and ?e = "log2 \<bar>i\<bar>"
  have m: "1 \<le> ?m" "?m \<le> 2 ^ 31"
    using False assms by (auto simp: int_range_def)
  note r = round_ratio_int [OF m]
  let ?n = "?m * 2 ^ (52 - ?e)"
  let ?w = "int_to_double i"
  have w: "?w = signed_double (i < 0) ((int ?e + 1023) * 2 ^ 52 + (?n - 2 ^ 52))"
    using False r(2) by (simp add: int_to_double_def algebra_simps)
  have fields: "take_bit 11 (uint (drop_bit 52 ?w)) = int ?e + 1023" "take_bit 52 (uint ?w) = ?n - 2 ^ 52"
    "bit ?w 63 \<longleftrightarrow> i < 0"
    unfolding w using r(1,3,4) by (intro signed_double_fields; simp)+
  have "double_mantissa ?w = ?n" "double_exponent ?w = int ?e - 52" "double_finite ?w"
    using fields r(1) by (simp_all add: double_mantissa_def double_exponent_def double_finite_def)
  then have "double_magnitude ?w = ?n div 2 ^ (52 - ?e)"
    using r(1) by (simp add: double_magnitude_def nat_diff_distrib)
  then have "double_magnitude ?w = ?m"
    by simp
  then show ?thesis
    using fields(3) assms \<open>double_finite ?w\<close> by (auto simp: double_to_int_def Let_def)
qed

text \<open>\<open>atof\<close> reads a printed number as the double nearest to it.\<close>

lemma numeral_in_decimal: "list_all isdigit ds \<Longrightarrow> numeral_in 10 ds = digits_value ds"
proof -
  have "list_all isdigit ds \<Longrightarrow> foldl (\<lambda>a c. 10 * a + (case digit_in 10 c of Some d \<Rightarrow> d | None \<Rightarrow> 0)) x ds
      = foldl (\<lambda>a c. 10 * a + (of_char c - 48)) x ds" for x
    by (induction ds arbitrary: x) (simp_all add: digit_in_def)
  then show "list_all isdigit ds \<Longrightarrow> numeral_in 10 ds = digits_value ds"
    by (simp add: numeral_in_def digits_value_def)
qed

lemma digits_in_decimal: "list_all isdigit ds \<Longrightarrow> digits_in 10 ds = ds"
  by (induction ds) (simp_all add: digits_in_def digit_in_def)

lemma number_bits_decimal:
  "number_bits 10 10 (CHR ''e'') (decimal_nat n) = Some (if n = 0 then 0 else round_ratio (int n) 1)"
  using decimal_nat_digits [of n]
  by (simp add: number_bits_def Let_def digits_in_decimal numeral_in_decimal decimal_nat_value exponent_part_def)

lemma lower_digit: "isdigit c \<Longrightarrow> lower c = c"
  by (auto simp: isdigit_def lower_def)

lemma lower_digits: "list_all isdigit s \<Longrightarrow> map lower s = s"
  by (induction s) (simp_all add: lower_digit)

lemma atof_digits:
  assumes "list_all isdigit s"
  shows "map lower (take 3 s) \<noteq> ''inf''" "map lower (take 3 s) \<noteq> ''nan''" "map lower (take 2 s) \<noteq> ''0x''"
proof -
  have take: "map lower (take k s) = take k s" "list_all isdigit (take k s)" for k
    using assms lower_digits [of "take k s"] by (auto simp: list_all_iff dest: in_set_takeD)
  have "\<not> list_all isdigit ''inf''" "\<not> list_all isdigit ''nan''" "\<not> list_all isdigit ''0x''"
    by (simp_all add: isdigit_def)
  then show "map lower (take 3 s) \<noteq> ''inf''" "map lower (take 3 s) \<noteq> ''nan''" "map lower (take 2 s) \<noteq> ''0x''"
    using take by metis+
qed

lemma atof_decimal: "atof (decimal i) = int_to_double i"
proof -
  note digits = atoi_digits [OF decimal_nat_digits decimal_nat_nonempty] atof_digits [OF decimal_nat_digits]
  have "\<not> isspace CHR ''-''"
    by (simp add: isspace_def)
  then show ?thesis
    by (auto simp: atof_def decimal_def Let_def digits number_bits_decimal int_to_double_def signed_double_def
        simp del: dropWhile_eq_Nil_conv)
qed

end
