(* ===== verification/Printing.thy ===== *)
theory Printing
  imports SweepValues Conversions
begin

section \<open>Printing (include/psfdata.h, src/psfdata.cc, psfchunk.cc, psfcontainer.cc, psfindexedcontainer.cc)\<close>

text \<open>
  What \<open>tostring\<close>, \<open>print\<close> and \<open>operator<<\<close> write, as text. Numbers are printed the way a stream
  does by default: an \<open>int\<close> in decimal, a double with six significant digits, without trailing
  zeros, in the shorter of the two notations. The operator for a \<open>Struct\<close> does not return its
  stream, which is undefined behaviour after the text was written.
\<close>

subsection \<open>Doubles\<close>

text \<open>\<open>decimal_exponent a b\<close> is the exponent of the leading decimal digit of \<open>a / b\<close>.\<close>

definition decimal_exponent :: "int \<Rightarrow> int \<Rightarrow> int" where
  "decimal_exponent a b =
     (if b \<le> a then int (length (decimal_nat (nat (a div b)))) - 1
      else let k = int (length (decimal_nat (nat (b div a)))) in
        if b = 10 ^ nat (k - 1) * a then 1 - k else - k)"

definition strip_zeros :: "string \<Rightarrow> string" where
  "strip_zeros s = rev (dropWhile (\<lambda>c. c = CHR ''0'') (rev s))"

definition point :: "string \<Rightarrow> string" where
  "point s = (if s = [] then [] else CHR ''.'' # s)"

text \<open>Six digits \<open>ds\<close>, of which the first stands for a power \<open>x\<close> of ten.\<close>

definition general_notation :: "string \<Rightarrow> int \<Rightarrow> string" where
  "general_notation ds x =
     (if x < -4 \<or> 6 \<le> x
      then take 1 ds @ point (strip_zeros (drop 1 ds)) @ ''e'' @ (if x < 0 then ''-'' else ''+'')
        @ (if \<bar>x\<bar> < 10 then ''0'' else '''') @ decimal_nat (nat \<bar>x\<bar>)
      else if x < 0 then ''0'' @ point (replicate (nat (- x) - 1) (CHR ''0'') @ strip_zeros ds)
      else take (nat x + 1) ds @ point (strip_zeros (drop (nat x + 1) ds)))"

definition print_positive :: "int \<Rightarrow> int \<Rightarrow> string" where
  "print_positive a b =
     (let x = decimal_exponent a b;
          n = half_even (a * 10 ^ nat (5 - x)) (b * 10 ^ nat (x - 5))
      in if n = 10 ^ 6 then general_notation ''100000'' (x + 1)
         else general_notation (decimal_nat (nat n)) x)"

definition print_double :: "64 word \<Rightarrow> string" where
  "print_double w =
     (let m = double_mantissa w; e = double_exponent w in
      (if bit w 63 then ''-'' else '''') @
      (if \<not> double_finite w then (if take_bit 52 (uint w) = 0 then ''inf'' else ''nan'')
       else if m = 0 then ''0''
       else print_positive (m * 2 ^ nat e) (2 ^ nat (- e))))"

subsection \<open>Scalars\<close>

text \<open>
  \<open>stream << value\<close> and \<open>tostring\<close>, for each class. An 8-bit value is printed as the character of
  that code, since \<open>int8_t\<close> is a character type.
\<close>

fun print_scalar :: "scalar \<Rightarrow> string res"
  and print_Struct :: "struct \<Rightarrow> string res"
  and print_members :: "(string \<times> scalar) list \<Rightarrow> string res" where
  "print_scalar (PSFInt8Scalar (Some b)) = Inr [char_of (unat b)]"
| "print_scalar (PSFInt32Scalar (Some w)) = Inr (decimal (sint w))"
| "print_scalar (PSFDoubleScalar (Some d)) = Inr (print_double d)"
| "print_scalar (PSFComplexDoubleScalar re im) =
     Inr (''('' @ print_double re @ '','' @ print_double im @ '')'')"
| "print_scalar (PSFStringScalar s) = Inr s"
| "print_scalar (StructScalar s) = print_Struct s"
| "print_scalar _ = Inl (Undefined Uninitialised)"
| "print_Struct (Struct sd m) =
     rbind (print_members m) (\<lambda>members. let stream = ''Struct('' @ members @ '')'' in
       Inl (Undefined NoReturn))"
| "print_members [] = Inr ''''"
| "print_members ((key, v) # m) =
     rbind (print_scalar v) (\<lambda>s. rbind (print_members m) (\<lambda>members.
       Inr (''('' @ key @ '','' @ s @ '')'' @ members)))"

definition tostring :: "scalar \<Rightarrow> string res" where
  "tostring v = print_scalar v"

subsection \<open>Chunks\<close>

definition print_Property :: "property \<Rightarrow> string res" where
  "print_Property p =
     (case prop_value p of
        None \<Rightarrow> Inl (Undefined NullPointer)
      | Some v \<Rightarrow> rbind (print_scalar v) (\<lambda>s. Inr (''Property('' @ prop_name p @ '','' @ s @ '')'')))"

text \<open>The virtual \<open>print\<close>: of the children of a container only a property has its own.\<close>

fun print_chunk :: "chunk \<Rightarrow> string res" where
  "print_chunk (PropertyChunk p) = print_Property p"
| "print_chunk ch = Inr ''Chunk()''"

fun print_children :: "chunk list \<Rightarrow> string res" where
  "print_children [] = Inr ''''"
| "print_children (child # children) =
     rbind (print_chunk child) (\<lambda>s. rbind (print_children children) (\<lambda>rest. Inr (s @ '' '' @ rest)))"

definition print_SimpleContainer :: "chunk list \<Rightarrow> string res" where
  "print_SimpleContainer children =
     rbind (print_children children) (\<lambda>s. Inr (''SimpleContainer('' @ s @ '')''))"

definition print_IndexedContainer :: "indexedcontainer \<Rightarrow> string res" where
  "print_IndexedContainer c =
     rbind (print_children (ic_children c)) (\<lambda>s. Inr (''IndexedContainer('' @ s @ '')''))"

subsection \<open>What is printed\<close>

text \<open>A printed number starts with a digit, a sign, \<open>inf\<close> or \<open>nan\<close>.\<close>

lemma general_notation_first:
  assumes "list_all isdigit ds" and "ds \<noteq> []"
  shows "\<exists>c s. general_notation ds x = c # s \<and> isdigit c"
proof -
  obtain d ds' where "ds = d # ds'" "isdigit d"
    using assms by (cases ds) auto
  moreover have "isdigit CHR ''0''"
    by (simp add: isdigit_def)
  ultimately show ?thesis
    by (auto simp: general_notation_def)
qed

lemma print_double_first: "\<exists>c s. print_double w = c # s \<and> c \<noteq> CHR ''s''"
proof -
  have first: "\<exists>c s. print_positive a b = c # s \<and> isdigit c" for a b
  proof -
    have "list_all isdigit ''100000''"
      by (simp add: isdigit_def)
    then show ?thesis
      using general_notation_first [of "''100000''"] general_notation_first [OF decimal_nat_digits decimal_nat_nonempty]
      unfolding print_positive_def Let_def by simp
  qed
  have "\<exists>c s. print_positive a b = c # s \<and> c \<noteq> CHR ''s''" for a b
    using first [of a b] by (auto simp: isdigit_def)
  then show ?thesis
    by (auto simp: print_double_def Let_def)
qed

lemma decimal_first: "\<exists>c s. decimal i = c # s \<and> c \<noteq> CHR ''s''"
proof -
  have "\<exists>c s. decimal_nat n = c # s \<and> c \<noteq> CHR ''s''" for n
    using decimal_nat_digits [of n] decimal_nat_nonempty [of n] by (cases "decimal_nat n") (auto simp: isdigit_def)
  then show ?thesis by (auto simp: decimal_def)
qed

text \<open>The comparison with \<open>sweep\<close> in the layout of the values is what the text says.\<close>

lemma print_Struct_error: "print_Struct st \<noteq> Inr s"
  by (cases st) (simp add: res_simps)

lemma tostring_sweep: "tostring v = Inr s \<Longrightarrow> tostring_is_sweep v \<longleftrightarrow> s = ''sweep''"
proof (cases v)
  case (PSFInt8Scalar x)
  then show "tostring v = Inr s \<Longrightarrow> tostring_is_sweep v \<longleftrightarrow> s = ''sweep''"
    by (cases x) (auto simp: tostring_def tostring_is_sweep_def)
next
  case (PSFInt32Scalar x)
  then show "tostring v = Inr s \<Longrightarrow> tostring_is_sweep v \<longleftrightarrow> s = ''sweep''"
    using decimal_first [of "sint (the x)"] by (cases x) (auto simp: tostring_def tostring_is_sweep_def)
next
  case (PSFDoubleScalar x)
  then show "tostring v = Inr s \<Longrightarrow> tostring_is_sweep v \<longleftrightarrow> s = ''sweep''"
    using print_double_first [of "the x"] by (cases x) (auto simp: tostring_def tostring_is_sweep_def)
qed (auto simp: tostring_def tostring_is_sweep_def print_Struct_error)

text \<open>A printed \<open>int\<close> reads back as a string scalar, to \<open>int\<close> and to \<open>double\<close>.\<close>

lemma tostring_int:
  "tostring (PSFInt32Scalar (Some w)) = Inr s \<Longrightarrow>
     scalar_to_int (PSFStringScalar s) = Inr (sint w) \<and> scalar_to_double (PSFStringScalar s) = Inr (int_to_double (sint w))"
  by (auto simp: tostring_def atoi_decimal atof_decimal)

text \<open>A struct cannot be printed, nor what contains one.\<close>

lemma print_scalar_total: "(\<exists>s. print_scalar v = Inr s) \<longleftrightarrow> determinate v \<and> scalar_typeid v \<noteq> TYPEID_STRUCT"
proof (cases v)
  case (PSFInt8Scalar x)
  then show ?thesis by (cases x) (simp_all add: determinate_def typeid_defs)
next
  case (PSFInt32Scalar x)
  then show ?thesis by (cases x) (simp_all add: determinate_def typeid_defs)
next
  case (PSFDoubleScalar x)
  then show ?thesis by (cases x) (simp_all add: determinate_def typeid_defs)
qed (simp_all add: determinate_def typeid_defs print_Struct_error)

lemma print_Property_read:
  "Property_deserialize img buf = Inr (p, n) \<Longrightarrow> \<exists>s. print_Property p = Inr s"
  by (auto simp: Property_deserialize_def Property_value_deserialize_def Let_def res_simps property_ischunk_def
      StringScalar_deserialize_def Int32Scalar_deserialize_def DoubleScalar_deserialize_def print_Property_def
      split: if_splits)

lemma print_children_total:
  "(\<forall>ch \<in> set children. \<exists>s. print_chunk ch = Inr s) \<Longrightarrow> \<exists>s. print_SimpleContainer children = Inr s"
proof -
  assume "\<forall>ch \<in> set children. \<exists>s. print_chunk ch = Inr s"
  then have "\<exists>s. print_children children = Inr s"
    by (induction children) (auto simp: res_simps)
  then show ?thesis by (auto simp: print_SimpleContainer_def)
qed

end
