(* ===== verification/PythonBinding.thy ===== *)
theory PythonBinding
  imports DataSet Conversions
begin

section \<open>The Python binding (bindings/python/psfpython.cc)\<close>

text \<open>
  What \<open>PSFDataSet\<close> returns, as objects of Python and numpy. The functions of their libraries that the
  binding calls are the record \<open>python_api\<close>, a parameter of the converters; a dictionary that is filled
  is the dictionary after. \<open>PyErr\<close> messages are those of the exception translators. An object that a
  converter returns is \<open>None\<close> where the code returns \<open>NULL\<close>.
\<close>

subsection \<open>The libraries\<close>

record 'o python_api =
  PyFloat_FromDouble :: "64 word \<Rightarrow> 'o"
  PyInt_FromLong :: "int \<Rightarrow> 'o"
  PyString_FromString :: "string \<Rightarrow> 'o"
  PyDict_New :: 'o
  PyDict_SetItem :: "'o \<Rightarrow> 'o \<Rightarrow> 'o \<Rightarrow> 'o"
  PyArray_DOUBLE :: "64 word list \<Rightarrow> 'o"
  PyArray_CDOUBLE :: "(64 word \<times> 64 word) list \<Rightarrow> 'o"
  PyArray_OBJECT :: "'o list \<Rightarrow> 'o"
  Py_None :: 'o
  py_list :: 'o
  py_append :: "'o \<Rightarrow> string \<Rightarrow> 'o"

text \<open>\<open>item\<close> looks a string up in a dictionary. Strings of C have no zero byte.\<close>

definition dict_laws :: "'o python_api \<Rightarrow> ('o \<Rightarrow> string \<Rightarrow> 'o option) \<Rightarrow> bool" where
  "dict_laws py item \<longleftrightarrow> (\<forall>k. item (PyDict_New py) k = None) \<and>
     (\<forall>dict key v k. CHR 0x00 \<notin> set key \<longrightarrow>
        item (PyDict_SetItem py dict (PyString_FromString py key) v) k = (if k = key then Some v else item dict k))"

lemma item_set:
  "dict_laws py item \<Longrightarrow> CHR 0x00 \<notin> set key \<Longrightarrow>
     item (PyDict_SetItem py dict (PyString_FromString py key) v) k = (if k = key then Some v else item dict k)"
  by (simp add: dict_laws_def)

lemma item_new: "dict_laws py item \<Longrightarrow> item (PyDict_New py) k = None"
  by (simp add: dict_laws_def)

text \<open>What a function that takes \<open>s.c_str()\<close> sees of a string.\<close>

definition c_str :: "string \<Rightarrow> string" where
  "c_str s = takeWhile (\<lambda>c. c \<noteq> CHR 0x00) s"

lemma c_str_id [simp]: "CHR 0x00 \<notin> set s \<Longrightarrow> c_str s = s"
  by (simp add: c_str_def) (metis takeWhile_eq_all_conv)

lemma c_str_no_zero [simp]: "CHR 0x00 \<notin> set (c_str s)"
  by (auto simp: c_str_def dest: set_takeWhileD)

subsection \<open>Scalars, structs and property maps\<close>

text \<open>
  The loop \<open>PyDict_SetItem(dict, PyString_FromString(i->first.c_str()), ...)\<close> over a map. The argument
  of \<open>PyDict_SetItem\<close> must not be \<open>NULL\<close>.
\<close>

fun dict_loop :: "'o python_api \<Rightarrow> ('v \<Rightarrow> 'o res) \<Rightarrow> (string \<times> 'v) list \<Rightarrow> 'o \<Rightarrow> 'o res" where
  "dict_loop py to_python [] dict = Inr dict"
| "dict_loop py to_python ((key, v) # i) dict =
     rbind (to_python v) (\<lambda>value.
     dict_loop py to_python i (PyDict_SetItem py dict (PyString_FromString py (c_str key)) value))"

lemma dict_loop_cong [fundef_cong]:
  assumes "m = m'" and "dict = dict'" and "\<And>k v. (k, v) \<in> set m' \<Longrightarrow> f v = g v"
  shows "dict_loop py f m dict = dict_loop py g m' dict'"
proof -
  have "dict_loop py f m' dict = dict_loop py g m' dict" if "\<And>k v. (k, v) \<in> set m' \<Longrightarrow> f v = g v" for m' dict
    using that
  proof (induction py g m' dict rule: dict_loop.induct)
    case (2 py g key v i dict)
    have "f v = g v"
      using "2.prems" [of key v] by simp
    with 2 show ?case
      by (cases "g v") (auto simp: rbind_def)
  qed simp
  with assms show ?thesis by blast
qed

lemma size_member: "(k, v) \<in> set m \<Longrightarrow> size v < size (Struct sd m)"
  by (induction m) auto

function psfscalar_to_python :: "'o python_api \<Rightarrow> scalar \<Rightarrow> 'o res"
  and Struct_to_python :: "'o python_api \<Rightarrow> struct \<Rightarrow> 'o res"
where
  "psfscalar_to_python py (PSFDoubleScalar value) =
     (case value of None \<Rightarrow> Inl (Undefined Uninitialised) | Some x \<Rightarrow> Inr (PyFloat_FromDouble py x))"
| "psfscalar_to_python py (PSFInt32Scalar value) =
     rbind (scalar_to_int (PSFInt32Scalar value)) (\<lambda>n. Inr (PyInt_FromLong py n))"
| "psfscalar_to_python py (PSFStringScalar value) = Inr (PyString_FromString py (c_str value))"
| "psfscalar_to_python py (StructScalar value) = Struct_to_python py value"
| "psfscalar_to_python py (PSFInt8Scalar value) = Inl (Throw NotImplemented)"
| "psfscalar_to_python py (PSFComplexDoubleScalar re im) = Inl (Throw NotImplemented)"
| "Struct_to_python py (Struct sd m) = dict_loop py (psfscalar_to_python py) m (PyDict_New py)"
  by pat_completeness auto

termination
proof (relation "measure (\<lambda>x. case x of Inl (py, v) \<Rightarrow> size v | Inr (py, s) \<Rightarrow> size s)")
qed (auto dest: size_member)

definition PropertyMap_to_python :: "'o python_api \<Rightarrow> (string, scalar) stdmap \<Rightarrow> 'o res" where
  "PropertyMap_to_python py propmap = dict_loop py (psfscalar_to_python py) propmap (PyDict_New py)"

definition VecToList :: "'o python_api \<Rightarrow> string list \<Rightarrow> 'o" where
  "VecToList py vec = foldl (py_append py) (py_list py) vec"

subsection \<open>Vectors\<close>

text \<open>
  The data of a vector from its first element on. \<open>&at(0)\<close> throws where there is none. The number of
  elements is an \<open>int\<close>; numpy refuses a negative one and returns \<open>NULL\<close>, which is written to where
  the data are copied. An array that shares the data of the vector has the same elements, since the
  vector lives on.
\<close>

fun double_data :: "scalar list \<Rightarrow> 64 word list res" where
  "double_data [] = Inr []"
| "double_data (v # vs) =
     (case v of
        PSFDoubleScalar (Some x) \<Rightarrow> rbind (double_data vs) (\<lambda>xs. Inr (x # xs))
      | PSFDoubleScalar None \<Rightarrow> Inl (Undefined Uninitialised)
      | _ \<Rightarrow> Inl (Undefined WrongType))"

fun complex_data :: "scalar list \<Rightarrow> (64 word \<times> 64 word) list res" where
  "complex_data [] = Inr []"
| "complex_data (v # vs) =
     (case v of
        PSFComplexDoubleScalar re im \<Rightarrow> rbind (complex_data vs) (\<lambda>xs. Inr ((re, im) # xs))
      | _ \<Rightarrow> Inl (Undefined WrongType))"

fun struct_objects :: "'o python_api \<Rightarrow> scalar list \<Rightarrow> 'o list res" where
  "struct_objects py [] = Inr []"
| "struct_objects py (v # vs) =
     (case v of
        StructScalar s \<Rightarrow> rbind (Struct_to_python py s) (\<lambda>x. rbind (struct_objects py vs) (\<lambda>xs. Inr (x # xs)))
      | _ \<Rightarrow> Inl (Undefined WrongType))"

definition create_numpy_vector :: "('a list \<Rightarrow> 'o) \<Rightarrow> int \<Rightarrow> 'a list \<Rightarrow> bool \<Rightarrow> 'o option res" where
  "create_numpy_vector array n data copy =
     (if n < 0 then (if copy then Inl (Undefined NullPointer) else Inr None)
      else Inr (Some (array (take (nat n) data))))"

definition psfvector_to_numpyarray :: "'o python_api \<Rightarrow> psfvector option \<Rightarrow> bool \<Rightarrow> 'o option res" where
  "psfvector_to_numpyarray py vec copy =
     (case vec of
        None \<Rightarrow> Inr (Some (Py_None py))
      | Some v \<Rightarrow> (let t = scalar_typeid (pv_init v); n = sint (word_of_int (pv_size v) :: 32 word) in
          if t = TYPEID_DOUBLE then
            rbind (pv_ptr_at v 0) (\<lambda>p. rbind (double_data (pv_elems v)) (\<lambda>data.
            create_numpy_vector (PyArray_DOUBLE py) n data copy))
          else if t = TYPEID_COMPLEXDOUBLE then
            rbind (pv_ptr_at v 0) (\<lambda>p. rbind (complex_data (pv_elems v)) (\<lambda>data.
            create_numpy_vector (PyArray_CDOUBLE py) n data copy))
          else if t = TYPEID_STRUCT then
            rbind (struct_objects py (pv_elems v)) (\<lambda>objects. Inr (Some (PyArray_OBJECT py objects)))
          else Inr None))"

text \<open>
  The members of a \<open>VectorStruct\<close>. Where they share what \<open>get_signal\<close> has deleted (\<open>freed\<close>), a struct
  with members is read after it was freed. A \<open>NULL\<close> is stored in the dictionary.
\<close>

definition member_to_numpyarray :: "'o python_api \<Rightarrow> bool \<Rightarrow> psfvector \<Rightarrow> 'o res" where
  "member_to_numpyarray py freed vec =
     (if freed \<and> has_members vec then Inl (Undefined UseAfterFree)
      else rbind (psfvector_to_numpyarray py (Some vec) True) (\<lambda>value.
        case value of None \<Rightarrow> Inl (Undefined NullPointer) | Some x \<Rightarrow> Inr x))"

definition vectorstruct_to_python :: "'o python_api \<Rightarrow> bool \<Rightarrow> vectorstruct \<Rightarrow> 'o res" where
  "vectorstruct_to_python py freed vs =
     dict_loop py (member_to_numpyarray py freed) (vs_map vs) (PyDict_New py)"

definition PSFVector_to_numpyarray :: "'o python_api \<Rightarrow> psfvector option \<Rightarrow> 'o option res" where
  "PSFVector_to_numpyarray py vec = psfvector_to_numpyarray py vec False"

definition PSFBase_to_numpyarray :: "'o python_api \<Rightarrow> signal \<Rightarrow> 'o option res" where
  "PSFBase_to_numpyarray py d =
     (case d of
        ScalarSignal scalar \<Rightarrow> rbind (psfscalar_to_python py scalar) (\<lambda>x. Inr (Some x))
      | VectorSignal vector \<Rightarrow> psfvector_to_numpyarray py vector True
      | VectorStructSignal freed vs \<Rightarrow> rbind (vectorstruct_to_python py freed vs) (\<lambda>x. Inr (Some x)))"

subsection \<open>The methods\<close>

definition py_get_signal :: "'o python_api \<Rightarrow> dataset \<Rightarrow> string \<Rightarrow> 'o option res option" where
  "py_get_signal py ds name = map_option (\<lambda>r. rbind r (PSFBase_to_numpyarray py)) (get_signal ds name)"

definition py_get_sweep_values :: "'o python_api \<Rightarrow> dataset \<Rightarrow> 'o option res option" where
  "py_get_sweep_values py ds =
     map_option (\<lambda>r. rbind r (PSFVector_to_numpyarray py)) (get_sweep_values ds)"

definition py_get_header_properties :: "'o python_api \<Rightarrow> dataset \<Rightarrow> 'o res" where
  "py_get_header_properties py ds = rbind (PSFDataSet_get_header_properties ds) (PropertyMap_to_python py)"

definition py_get_signal_properties :: "'o python_api \<Rightarrow> dataset \<Rightarrow> string \<Rightarrow> 'o res" where
  "py_get_signal_properties py ds name = rbind (get_signal_properties ds name) (PropertyMap_to_python py)"

definition py_get_signal_names :: "'o python_api \<Rightarrow> dataset \<Rightarrow> 'o res" where
  "py_get_signal_names py ds = rbind (get_signal_names ds) (\<lambda>names. Inr (VecToList py names))"

definition py_get_sweep_param_names :: "'o python_api \<Rightarrow> dataset \<Rightarrow> 'o res" where
  "py_get_sweep_param_names py ds = rbind (get_sweep_param_names ds) (\<lambda>names. Inr (VecToList py names))"

subsection \<open>Exceptions\<close>

text \<open>
  The translators of exceptions: the class of the Python exception and its message. The exceptions
  without a translator are left to the library. The number in a message is that of the exception, since
  \<open>atoi\<close> reads it back (\<open>atoi_decimal\<close>).
\<close>

datatype pyexc = PyExc_RuntimeError | PyExc_IOError

definition translate_exception :: "exn \<Rightarrow> (pyexc \<times> string) option" where
  "translate_exception e =
     (case e of
        IncorrectChunk chunktype \<Rightarrow> Some (PyExc_RuntimeError, ''Incorrect chunk '' @ decimal chunktype)
      | UnknownType type_id \<Rightarrow> Some (PyExc_RuntimeError, ''Unknown type '' @ decimal type_id)
      | NotFound \<Rightarrow> Some (PyExc_RuntimeError, ''Signal not found'')
      | FileOpenError \<Rightarrow> Some (PyExc_IOError, ''File open error'')
      | _ \<Rightarrow> None)"

subsection \<open>What the converters return\<close>

lemma dict_loop_total:
  "\<forall>(k, v) \<in> set m. \<exists>x. f v = Inr x \<Longrightarrow> \<exists>d. dict_loop py f m dict = Inr d"
  by (induction py f m dict rule: dict_loop.induct) fastforce+

lemma dict_loop_error:
  assumes "\<forall>(k, v) \<in> set m. (\<exists>x. f v = Inr x) \<or> f v = Inl e" and "\<exists>(k, v) \<in> set m. f v = Inl e"
  shows "dict_loop py f m dict = Inl e"
  using assms by (induction py f m dict rule: dict_loop.induct) fastforce+

text \<open>The items of the dictionary are the entries of the map, converted.\<close>

lemma dict_loop_items:
  assumes "dict_laws py item" and "dict_loop py f m dict = Inr d" and "distinct (map fst m)"
    and "\<forall>key \<in> fst ` set m. CHR 0x00 \<notin> set key"
  shows "item d k = (case map_find m k of None \<Rightarrow> item dict k
    | Some v \<Rightarrow> (case f v of Inr x \<Rightarrow> Some x | Inl e \<Rightarrow> None))"
  using assms
proof (induction py f m dict rule: dict_loop.induct)
  case (2 py f key v i dict)
  then obtain x where x: "f v = Inr x" and key: "CHR 0x00 \<notin> set key"
    and rest: "dict_loop py f i (PyDict_SetItem py dict (PyString_FromString py key) x) = Inr d"
    by (auto simp: res_simps)
  have none: "map_find i key = None"
    using "2.prems"(3) by (simp add: map_find_def map_of_eq_None_iff)
  have "item d k = (case map_find i k of None \<Rightarrow> item (PyDict_SetItem py dict (PyString_FromString py key) x) k
    | Some v \<Rightarrow> (case f v of Inr x \<Rightarrow> Some x | Inl e \<Rightarrow> None))"
    using "2.IH" [of x, unfolded c_str_id [OF key]] "2.prems" x rest by simp
  then show ?case
    unfolding item_set [OF "2.prems"(1) key] by (cases "k = key") (simp_all add: x none cong: option.case_cong)
qed simp

text \<open>A type whose values become objects of Python: it has no complex numbers and no bytes.\<close>

fun python_type :: "datatypedef \<Rightarrow> bool" where
  "python_type (DataTypeDef tid name typeid pb None sz) \<longleftrightarrow> typeid \<in> {TYPEID_INT32, TYPEID_DOUBLE}"
| "python_type (DataTypeDef tid name typeid pb (Some (StructDef children sdsize)) sz) \<longleftrightarrow>
     list_all python_type children"

lemma scalar_full_struct:
  assumes "scalar_full td v" and "td_structdef td = Some sd"
  obtains m where "v = StructScalar (Struct (Some sd) m)" "map_ok m"
    "fst ` set m = td_name ` set (sd_children sd)" "members_full (sd_children sd) m"
proof -
  obtain tid name typeid pb children sdsize sz
    where td: "td = DataTypeDef tid name typeid pb (Some (StructDef children sdsize)) sz" "sd = StructDef children sdsize"
    using assms(2) by (cases td; cases sd) auto
  then obtain s where "v = StructScalar s" "struct_def s = Some sd" "map_ok (struct_map s)"
    "fst ` set (struct_map s) = td_name ` set children" "members_full children (struct_map s)"
    using assms(1) by (cases v) auto
  with td that [of "struct_map s"] show thesis
    by (cases s) simp
qed

definition to_python_by :: "bool \<Rightarrow> 'o res \<Rightarrow> bool" where
  "to_python_by ok r \<longleftrightarrow> (if ok then \<exists>x. r = Inr x else r = Inl (Throw NotImplemented))"

lemma scalar_to_python_type:
  "typedef_wf td \<Longrightarrow> scalar_full td v \<Longrightarrow> distinct_members td \<Longrightarrow>
     to_python_by (python_type td) (psfscalar_to_python py v)"
  and members_to_python_type:
  "\<forall>td \<in> set tds. typedef_wf td \<and> distinct_members td \<Longrightarrow> members_full tds m \<Longrightarrow> distinct (map td_name tds) \<Longrightarrow>
     \<forall>td \<in> set tds. \<exists>x. map_find m (td_name td) = Some x
       \<and> to_python_by (python_type td) (psfscalar_to_python py x)"
proof (induct td and tds arbitrary: v and m rule: typedef_induct)
  case (1 tid name typeid pb sz)
  then have *: "determinate v" "scalar_typeid v = typeid" "psfdata_size typeid = Inr sz" by simp_all
  then show ?case
    by (cases rule: determinateE) (simp_all add: typeid_defs to_python_by_def)
next
  case (2 tid name typeid pb children sdsize sz)
  obtain m where v: "v = StructScalar (Struct (Some (StructDef children sdsize)) m)"
    and m: "map_ok m" "fst ` set m = td_name ` set children" "members_full children m"
    by (rule scalar_full_struct [OF "2.prems"(2)]) auto
  have IH: "\<forall>td \<in> set children. \<exists>x. map_find m (td_name td) = Some x
      \<and> to_python_by (python_type td) (psfscalar_to_python py x)"
    using 2 m(3) by auto
  have entry: "\<exists>td \<in> set children. td_name td = k \<and> to_python_by (python_type td) (psfscalar_to_python py x)"
    if "(k, x) \<in> set m" for k x
  proof -
    have "map_find m k = Some x"
      using that map_ok_distinct [OF m(1)] by (simp add: map_find_def)
    moreover have "k \<in> td_name ` set children"
      using that m(2) by force
    ultimately show ?thesis
      using IH by force
  qed
  show ?case
  proof (cases "list_all python_type children")
    case True
    then have "\<forall>(k, x) \<in> set m. \<exists>y. psfscalar_to_python py x = Inr y"
      using entry by (fastforce simp: to_python_by_def list_all_iff)
    from dict_loop_total [OF this, of py "PyDict_New py"] True show ?thesis
      by (simp add: v to_python_by_def)
  next
    case False
    then obtain td x where "td \<in> set children" "map_find m (td_name td) = Some x"
      "psfscalar_to_python py x = Inl (Throw NotImplemented)"
      using IH by (auto simp: list_all_iff to_python_by_def)
    then have "\<exists>(k, x) \<in> set m. psfscalar_to_python py x = Inl (Throw NotImplemented)"
      by (auto simp: map_find_def dest!: map_of_SomeD)
    moreover have "\<forall>(k, x) \<in> set m. (\<exists>y. psfscalar_to_python py x = Inr y)
        \<or> psfscalar_to_python py x = Inl (Throw NotImplemented)"
      using entry by (fastforce simp: to_python_by_def split: if_splits)
    ultimately show ?thesis
      using False dict_loop_error [of m "psfscalar_to_python py" "Throw NotImplemented" py "PyDict_New py"]
      by (simp add: v to_python_by_def)
  qed
next
  case 3
  then show ?case by simp
next
  case (4 td1 tds)
  then show ?case
    by (auto split: option.splits)
qed

text \<open>A struct becomes a dictionary with an item for each member.\<close>

lemma struct_to_dict:
  assumes "dict_laws py item" and "typedef_wf td" and "td_structdef td = Some sd" and "scalar_full td v"
    and "distinct_members td" and "python_type td" and "\<forall>c \<in> set (sd_children sd). CHR 0x00 \<notin> set (td_name c)"
  shows "\<exists>d. psfscalar_to_python py v = Inr d \<and>
    (\<forall>k. item d k = (if k \<in> td_name ` set (sd_children sd)
       then (case rbind (struct_member k v) (psfscalar_to_python py) of Inr x \<Rightarrow> Some x | Inl e \<Rightarrow> None)
       else None))"
proof -
  obtain m where v: "v = StructScalar (Struct (Some sd) m)" and m: "map_ok m"
    "fst ` set m = td_name ` set (sd_children sd)"
    by (rule scalar_full_struct [OF assms(4,3)])
  have "to_python_by (python_type td) (psfscalar_to_python py v)"
    by (rule scalar_to_python_type [OF assms(2,4,5)])
  then obtain d where d: "psfscalar_to_python py v = Inr d"
    using assms(6) unfolding to_python_by_def by metis
  then have loop: "dict_loop py (psfscalar_to_python py) m (PyDict_New py) = Inr d"
    by (simp add: v)
  have names: "\<forall>key \<in> fst ` set m. CHR 0x00 \<notin> set key"
    using assms(7) m(2) by auto
  note items = dict_loop_items [OF assms(1) loop map_ok_distinct [OF m(1)] names]
  have keys: "k \<in> td_name ` set (sd_children sd) \<longleftrightarrow> map_find m k \<noteq> None" for k
    using m(2) by (metis map_find_def map_of_eq_None_iff)
  have "item d k = (if k \<in> td_name ` set (sd_children sd)
       then (case rbind (struct_member k v) (psfscalar_to_python py) of Inr x \<Rightarrow> Some x | Inl e \<Rightarrow> None)
       else None)" for k
    using items [of k] item_new [OF assms(1), of k]
    unfolding keys by (cases "map_find m k") (simp_all add: v struct_member_def)
  with d show ?thesis by blast
qed

subsection \<open>Signals\<close>

text \<open>The scalars of a type are the data that its arrays hold.\<close>

lemma double_scalars:
  assumes "\<forall>v \<in> set vs. scalar_full td v" and "typedef_wf td" and "td_datatypeid td = TYPEID_DOUBLE"
  shows "\<exists>ws. vs = map (\<lambda>w. PSFDoubleScalar (Some w)) ws \<and> double_data vs = Inr ws"
  using assms(1)
proof (induction vs)
  case (Cons v vs)
  obtain ws where ws: "vs = map (\<lambda>w. PSFDoubleScalar (Some w)) ws" "double_data vs = Inr ws"
    using Cons by auto
  have "td_structdef td = None" "scalar_full td v"
    using Cons.prems assms(2,3) by (auto simp: typedef_wf_iff typeid_defs split: option.splits)
  then obtain w where "v = PSFDoubleScalar (Some w)"
    using assms(3) by (cases "(td, v)" rule: scalar_full.cases; cases v) (auto simp: typeid_defs determinate_def)
  with ws show ?case
    by (intro exI [of _ "w # ws"]) simp
qed simp

lemma complex_scalars:
  assumes "\<forall>v \<in> set vs. scalar_full td v" and "typedef_wf td" and "td_datatypeid td = TYPEID_COMPLEXDOUBLE"
  shows "\<exists>zs. vs = map (\<lambda>(re, im). PSFComplexDoubleScalar re im) zs \<and> complex_data vs = Inr zs"
  using assms(1)
proof (induction vs)
  case (Cons v vs)
  obtain zs where zs: "vs = map (\<lambda>(re, im). PSFComplexDoubleScalar re im) zs" "complex_data vs = Inr zs"
    using Cons by auto
  have "td_structdef td = None" "scalar_full td v"
    using Cons.prems assms(2,3) by (auto simp: typedef_wf_iff typeid_defs split: option.splits)
  then obtain re im where "v = PSFComplexDoubleScalar re im"
    using assms(3) by (cases v; cases td) (auto simp: typeid_defs)
  with zs show ?case
    by (intro exI [of _ "(re, im) # zs"]) simp
qed simp

lemma struct_scalars:
  assumes "\<forall>v \<in> set vs. scalar_full td v" and "typedef_wf td" and "distinct_members td"
    and "td_structdef td = Some sd"
  shows "if python_type td \<or> vs = []
    then \<exists>xs. struct_objects py vs = Inr xs \<and> list_all2 (\<lambda>v x. psfscalar_to_python py v = Inr x) vs xs
    else struct_objects py vs = Inl (Throw NotImplemented)"
  using assms(1)
proof (induction vs)
  case (Cons v vs)
  obtain m where v: "v = StructScalar (Struct (Some sd) m)"
    using scalar_full_struct [of td v sd] Cons.prems assms(4) by auto
  have conv: "to_python_by (python_type td) (psfscalar_to_python py v)"
    using Cons.prems by (intro scalar_to_python_type assms(2,3)) simp
  show ?case
  proof (cases "python_type td")
    case True
    with conv obtain x where "psfscalar_to_python py v = Inr x"
      unfolding to_python_by_def by metis
    moreover obtain xs where "struct_objects py vs = Inr xs" "list_all2 (\<lambda>v x. psfscalar_to_python py v = Inr x) vs xs"
      using Cons True by auto
    ultimately show ?thesis
      using True v by simp
  next
    case False
    with conv have "psfscalar_to_python py v = Inl (Throw NotImplemented)"
      unfolding to_python_by_def by metis
    with False v show ?thesis by simp
  qed
qed simp

text \<open>
  What a vector of \<open>n\<close> values of a type becomes: an array of numbers, unless it is empty; an array of
  dictionaries; nothing, for the classes that the converter does not know.
\<close>

definition numpy_of :: "'o python_api \<Rightarrow> datatypedef \<Rightarrow> scalar list \<Rightarrow> 'o option res \<Rightarrow> bool" where
  "numpy_of py td vs r \<longleftrightarrow> (let t = td_datatypeid td in
     if t = TYPEID_DOUBLE then
       if vs = [] then r = Inl (Throw OutOfRange)
       else (\<exists>ws. vs = map (\<lambda>w. PSFDoubleScalar (Some w)) ws \<and> r = Inr (Some (PyArray_DOUBLE py ws)))
     else if t = TYPEID_COMPLEXDOUBLE then
       if vs = [] then r = Inl (Throw OutOfRange)
       else (\<exists>zs. vs = map (\<lambda>(re, im). PSFComplexDoubleScalar re im) zs \<and> r = Inr (Some (PyArray_CDOUBLE py zs)))
     else if t = TYPEID_STRUCT then
       if python_type td \<or> vs = []
       then (\<exists>xs. list_all2 (\<lambda>v x. psfscalar_to_python py v = Inr x) vs xs \<and> r = Inr (Some (PyArray_OBJECT py xs)))
       else r = Inl (Throw NotImplemented)
     else r = Inr None)"

lemma psfvector_to_numpyarray_of:
  assumes "scalar_typeid (pv_init v) = td_datatypeid td" and "\<forall>x \<in> set (pv_elems v). scalar_full td x"
    and "typedef_wf td" and "pv_elems v = [] \<or> distinct_members td" and "int_range (pv_size v)"
  shows "numpy_of py td (pv_elems v) (psfvector_to_numpyarray py (Some v) copy)"
proof -
  have first: "pv_ptr_at v 0 = (if pv_elems v = [] then Inl (Throw OutOfRange) else Inr (hd (pv_elems v)))"
    by (simp add: pv_ptr_at_def pv_size_def hd_conv_nth)
  have n: "sint (word_of_int (pv_size v) :: 32 word) = int (length (pv_elems v))"
    using sint_of_int_range [OF assms(5)] by (simp add: pv_size_def)
  consider "td_datatypeid td = TYPEID_DOUBLE" | "td_datatypeid td = TYPEID_COMPLEXDOUBLE"
    | "td_datatypeid td = TYPEID_STRUCT"
    | "td_datatypeid td \<notin> {TYPEID_DOUBLE, TYPEID_COMPLEXDOUBLE, TYPEID_STRUCT}" by blast
  then show ?thesis
  proof cases
    case 1
    with double_scalars [OF assms(2,3)] first n assms(1) show ?thesis
      by (auto simp: numpy_of_def psfvector_to_numpyarray_def create_numpy_vector_def Let_def)
  next
    case 2
    with complex_scalars [OF assms(2,3)] first n assms(1) show ?thesis
      by (auto simp: numpy_of_def psfvector_to_numpyarray_def create_numpy_vector_def Let_def typeid_defs)
  next
    case 3
    then obtain sd where "td_structdef td = Some sd"
      using assms(3) by (cases td rule: python_type.cases) (auto simp: psfdata_size_def typeid_defs split: if_splits)
    from struct_scalars [OF assms(2,3) _ this, of py] 3 assms(1,4) show ?thesis
      by (cases "pv_elems v = []") (auto simp: numpy_of_def psfvector_to_numpyarray_def Let_def typeid_defs split: if_splits)
  next
    case 4
    with assms(1) show ?thesis
      by (simp add: numpy_of_def psfvector_to_numpyarray_def Let_def)
  qed
qed

lemma column_to_numpy:
  assumes "column_ok types vss N (ref, td, offset, vs)" and "int_range (int N)"
  shows "numpy_of py td vs (psfvector_to_numpyarray py (Some (col_vector (ref, td, offset, vs))) copy)"
proof -
  have col: "typedef_wf td" "length vs = N" "\<forall>v \<in> set vs. value_ok td v"
    using assms(1) by (auto simp: column_ok_def)
  have full: "\<forall>v \<in> set vs. scalar_full td v" "vs = [] \<or> distinct_members td"
    using col(3) by (auto simp: value_ok_def neq_Nil_conv)
  have "scalar_typeid (col_init (ref, td, offset, vs)) = td_datatypeid td"
    using col_init_fresh [OF col(1)] by (simp add: fresh_for_def)
  with psfvector_to_numpyarray_of [of "col_vector (ref, td, offset, vs)" td py copy] col full assms(2) show ?thesis
    by (simp add: col_vector_def pv_size_def)
qed

lemma stored_signal_to_numpy:
  assumes "simple_stored ds N vss paramtype ptd ps [(ref, td, offset, vs)] \<or>
      windowed_stored ds N vss paramtype ptd ps [(ref, td, offset, vs)] windowsize ntraces ns"
    and "rbind (get_trace_section (ds_psf ds)) (\<lambda>traces. get_trace_by_name traces name) = Inr ref"
    and "\<not> ds_invertstruct ds" and "int_range (int N)"
  shows "\<exists>r. py_get_signal py ds name = Some r \<and> numpy_of py td vs r"
proof -
  have "column_ok (m_types (ds_psf ds)) vss N (ref, td, offset, vs)"
    using assms(1) by (auto simp: simple_stored_def windowed_stored_def)
  from column_to_numpy [OF this assms(4)] stored_signal [OF assms(1) _ assms(3)] assms(2) show ?thesis
    by (simp add: py_get_signal_def PSFBase_to_numpyarray_def col_ref_def)
qed

subsection \<open>Inverted structs\<close>

lemma no_members:
  assumes "typedef_wf c" and "\<forall>x \<in> set (pv_elems vec). scalar_full c x" and "td_datatypeid c \<noteq> TYPEID_STRUCT"
  shows "\<not> has_members vec"
proof -
  have "(case x of StructScalar s \<Rightarrow> struct_map s \<noteq> [] | _ \<Rightarrow> False) = False" if "x \<in> set (pv_elems vec)" for x
  proof -
    have "scalar_typeid x \<noteq> TYPEID_STRUCT"
      using scalar_full_typeid [OF assms(1), of x] assms(2,3) that by auto
    then show ?thesis by (cases x) auto
  qed
  then show ?thesis
    unfolding has_members_def list_ex_iff by blast
qed

text \<open>Arrays of numbers for the members that are numbers with an array of their own.\<close>

lemma member_array:
  assumes "scalar_typeid (pv_init vec) = td_datatypeid c" and "\<forall>x \<in> set (pv_elems vec). scalar_full c x"
    and "typedef_wf c" and "td_datatypeid c \<in> {TYPEID_DOUBLE, TYPEID_COMPLEXDOUBLE}"
    and "pv_elems vec \<noteq> []" and "int_range (pv_size vec)" and "distinct_members c"
  shows "\<exists>x. member_to_numpyarray py freed vec = Inr x \<and> numpy_of py c (pv_elems vec) (Inr (Some x))"
proof -
  have "\<not> has_members vec"
    using no_members [OF assms(3,2)] assms(4) by (auto simp: typeid_defs)
  moreover have array: "numpy_of py c (pv_elems vec) (psfvector_to_numpyarray py (Some vec) True)"
    using psfvector_to_numpyarray_of [OF assms(1-3)] assms(6,7) by blast
  moreover obtain x where "psfvector_to_numpyarray py (Some vec) True = Inr (Some x)"
    using array assms(4,5) by (auto simp: numpy_of_def Let_def typeid_defs)
  ultimately show ?thesis
    by (simp add: member_to_numpyarray_def)
qed

lemma member_null:
  assumes "scalar_typeid (pv_init vec) = td_datatypeid c" and "\<forall>x \<in> set (pv_elems vec). scalar_full c x"
    and "typedef_wf c" and "td_datatypeid c \<in> {TYPEID_INT8, TYPEID_INT32}"
  shows "member_to_numpyarray py freed vec = Inl (Undefined NullPointer)"
  using no_members [OF assms(3,2)] assms(1,4)
  by (auto simp: member_to_numpyarray_def psfvector_to_numpyarray_def Let_def typeid_defs)

lemma inverted_to_dict:
  assumes "dict_laws py item" and "transposed vec sd m" and "pv_elems vec \<noteq> []" and "int_range (pv_size vec)"
    and "\<forall>c \<in> set (sd_children sd). typedef_wf c \<and> distinct_members c \<and> CHR 0x00 \<notin> set (td_name c)
       \<and> td_datatypeid c \<in> {TYPEID_DOUBLE, TYPEID_COMPLEXDOUBLE}"
    and "distinct (map td_name (sd_children sd))"
  shows "\<exists>d. vectorstruct_to_python py freed (VectorStruct n m) = Inr d \<and>
    (\<forall>c \<in> set (sd_children sd). \<exists>x vs. item d (td_name c) = Some x \<and> numpy_of py c vs (Inr (Some x))
       \<and> list_all2 (\<lambda>s v. struct_member (td_name c) s = Inr v) (pv_elems vec) vs)"
proof -
  have m: "map_ok m" "fst ` set m = td_name ` set (sd_children sd)"
    using assms(2) by (simp_all add: transposed_def)
  have arrays: "\<exists>x. member_to_numpyarray py freed mvec = Inr x \<and> numpy_of py c (pv_elems mvec) (Inr (Some x))
      \<and> list_all2 (\<lambda>s v. struct_member (td_name c) s = Inr v) (pv_elems vec) (pv_elems mvec)"
    if kv: "(td_name c, mvec) \<in> set m" and c: "c \<in> set (sd_children sd)" for c mvec
  proof -
    obtain c' where c': "c' \<in> set (sd_children sd)" "td_name c' = td_name c"
      "scalar_typeid (pv_init mvec) = td_datatypeid c'" "pv_size mvec = pv_size vec"
      "list_all2 (\<lambda>s v. struct_member (td_name c) s = Inr v) (pv_elems vec) (pv_elems mvec)"
      "\<forall>x \<in> set (pv_elems mvec). scalar_full c' x"
      using transposed_column [OF assms(2) kv] by blast
    then have "c' = c"
      using assms(6) c by (auto simp: distinct_map dest: inj_onD)
    moreover have "pv_elems mvec \<noteq> []"
      using c'(4) assms(3) by (auto simp: pv_size_def)
    ultimately show ?thesis
      using c' member_array [of mvec c py freed] assms(4,5) c by auto
  qed
  have "\<forall>(k, mvec) \<in> set m. \<exists>x. member_to_numpyarray py freed mvec = Inr x"
  proof clarify
    fix k mvec assume kv: "(k, mvec) \<in> set m"
    then have "k \<in> td_name ` set (sd_children sd)"
      using m(2) by force
    with arrays kv show "\<exists>x. member_to_numpyarray py freed mvec = Inr x" by blast
  qed
  from dict_loop_total [OF this] obtain d where
    d: "dict_loop py (member_to_numpyarray py freed) m (PyDict_New py) = Inr d"
    by blast
  have "\<forall>key \<in> fst ` set m. CHR 0x00 \<notin> set key"
    using assms(5) m(2) by auto
  note items = dict_loop_items [OF assms(1) d map_ok_distinct [OF m(1)] this]
  have "\<exists>x vs. item d (td_name c) = Some x \<and> numpy_of py c vs (Inr (Some x))
       \<and> list_all2 (\<lambda>s v. struct_member (td_name c) s = Inr v) (pv_elems vec) vs"
    if c: "c \<in> set (sd_children sd)" for c
  proof -
    have "td_name c \<in> fst ` set m"
      using c m(2) by simp
    then obtain mvec where mvec: "(td_name c, mvec) \<in> set m"
      by force
    then have "map_find m (td_name c) = Some mvec"
      using map_ok_distinct [OF m(1)] by (simp add: map_find_def)
    with arrays [OF mvec c] items [of "td_name c"] show ?thesis
      by auto
  qed
  with d show ?thesis
    by (auto simp: vectorstruct_to_python_def)
qed

lemma inverted_to_null:
  assumes "transposed vec sd m" and "pv_elems vec \<noteq> []" and "int_range (pv_size vec)"
    and "\<forall>c \<in> set (sd_children sd). typedef_wf c \<and> distinct_members c
       \<and> td_datatypeid c \<in> {TYPEID_INT8, TYPEID_INT32, TYPEID_DOUBLE, TYPEID_COMPLEXDOUBLE}"
    and "distinct (map td_name (sd_children sd))"
    and "c \<in> set (sd_children sd)" and "td_datatypeid c \<in> {TYPEID_INT8, TYPEID_INT32}"
  shows "vectorstruct_to_python py freed (VectorStruct n m) = Inl (Undefined NullPointer)"
proof -
  have entry: "\<exists>c \<in> set (sd_children sd). td_name c = k \<and>
      (if td_datatypeid c \<in> {TYPEID_INT8, TYPEID_INT32} then member_to_numpyarray py freed mvec = Inl (Undefined NullPointer)
       else \<exists>x. member_to_numpyarray py freed mvec = Inr x)" if kv: "(k, mvec) \<in> set m" for k mvec
  proof -
    obtain c where c: "c \<in> set (sd_children sd)" "td_name c = k"
      "scalar_typeid (pv_init mvec) = td_datatypeid c" "pv_size mvec = pv_size vec"
      "\<forall>x \<in> set (pv_elems mvec). scalar_full c x"
      using transposed_column [OF assms(1) kv] by blast
    have ok: "typedef_wf c" "distinct_members c" "pv_elems mvec \<noteq> []" "int_range (pv_size mvec)"
      using assms(2-4) c(1,4) by (auto simp: pv_size_def)
    have t: "td_datatypeid c \<in> {TYPEID_INT8, TYPEID_INT32, TYPEID_DOUBLE, TYPEID_COMPLEXDOUBLE}"
      using assms(4) c(1) by blast
    show ?thesis
    proof (cases "td_datatypeid c \<in> {TYPEID_INT8, TYPEID_INT32}")
      case True
      with member_null [OF c(3,5) ok(1)] c(1,2) show ?thesis by auto
    next
      case False
      with t have "td_datatypeid c \<in> {TYPEID_DOUBLE, TYPEID_COMPLEXDOUBLE}" by blast
      from member_array [OF c(3,5) ok(1) this ok(3,4,2), of py freed] have "\<exists>x. member_to_numpyarray py freed mvec = Inr x"
        by blast
      with False c(1,2) show ?thesis
        by (intro bexI [of _ c]) simp_all
    qed
  qed
  have "td_name c \<in> fst ` set m"
    using assms(1,6) by (simp add: transposed_def)
  then obtain mvec where mvec: "(td_name c, mvec) \<in> set m" by force
  with entry obtain c' where c': "c' \<in> set (sd_children sd)" "td_name c' = td_name c"
    "td_datatypeid c' \<in> {TYPEID_INT8, TYPEID_INT32} \<longrightarrow> member_to_numpyarray py freed mvec = Inl (Undefined NullPointer)"
    by metis
  have "c' = c"
    using assms(5,6) c'(1,2) by (auto simp: distinct_map dest: inj_onD)
  with c'(3) assms(7) mvec have "\<exists>(k, mvec) \<in> set m. member_to_numpyarray py freed mvec = Inl (Undefined NullPointer)"
    by blast
  moreover have "\<forall>(k, mvec) \<in> set m. (\<exists>x. member_to_numpyarray py freed mvec = Inr x)
      \<or> member_to_numpyarray py freed mvec = Inl (Undefined NullPointer)"
    using entry by (force split: if_splits)
  ultimately show ?thesis
    unfolding vectorstruct_to_python_def vectorstruct.sel by (intro dict_loop_error)
qed

end
