(* ===== verification/PythonCalls.thy ===== *)
theory PythonCalls
  imports PythonBinding
begin

section \<open>Calls from Python (bindings/python/psfpython.cc)\<close>

text \<open>
  The class \<open>PSFDataSet\<close> of the Python module: its constructor, its methods and its property
  \<open>invertstruct\<close>, each with what the interpreter sees of it. An exception of the library becomes a
  Python exception through its translator, if it has one; what the binding library makes of the
  others is its own. A converter that returns \<open>NULL\<close> has set no exception.
\<close>

subsection \<open>Outcomes\<close>

datatype 'o outcome =
    Returns 'o
  | Raises pyexc string
  | RaisesOther exn \<comment> \<open>an exception without a translator\<close>
  | NullResult \<comment> \<open>\<open>NULL\<close>, and no exception is set\<close>
  | Crash error

definition outcome :: "'o option res \<Rightarrow> 'o outcome" where
  "outcome r = (case r of
     Inr (Some x) \<Rightarrow> Returns x
   | Inr None \<Rightarrow> NullResult
   | Inl (Throw e) \<Rightarrow> (case translate_exception e of Some (c, msg) \<Rightarrow> Raises c msg | None \<Rightarrow> RaisesOther e)
   | Inl e \<Rightarrow> Crash e)"

definition returned :: "'o res \<Rightarrow> 'o outcome" where
  "returned r = outcome (rbind r (\<lambda>x. Inr (Some x)))"

text \<open>
  The converter of a scalar that the binding owns. It deletes the scalar once it is converted; the
  result does not refer to it.
\<close>

definition PSFScalar_to_python :: "'o python_api \<Rightarrow> scalar \<Rightarrow> 'o res" where
  "PSFScalar_to_python py scalar = rbind (psfscalar_to_python py scalar) (\<lambda>result. Inr result)"

subsection \<open>The class\<close>

datatype py_method =
    get_nsweeps_method | get_sweep_npoints_method | get_signal_names_method
  | get_sweep_param_names_method | get_sweep_values_method | get_signal_method string
  | get_header_properties_method | get_signal_properties_method string
  | is_swept_method | close_method
  | invertstruct_get | invertstruct_set bool

definition py_new :: "image option \<Rightarrow> dataset option \<times> unit outcome" where
  "py_new disk = (case PSFDataSet_new disk of
     Inl e \<Rightarrow> (None, outcome (Inl e)) | Inr ds \<Rightarrow> (Some ds, Returns ()))"

text \<open>\<open>py_bool\<close> is the library's conversion of a \<open>bool\<close>; a call that does not end is \<open>None\<close>.\<close>

fun py_call :: "'o python_api \<Rightarrow> (bool \<Rightarrow> 'o) \<Rightarrow> bool \<Rightarrow> dataset \<Rightarrow> py_method \<Rightarrow> (dataset \<times> 'o outcome) option" where
  "py_call py py_bool close_ok ds get_nsweeps_method =
     Some (ds, returned (rbind (get_nsweeps ds) (\<lambda>i. Inr (PyInt_FromLong py i))))"
| "py_call py py_bool close_ok ds get_sweep_npoints_method =
     Some (ds, returned (rbind (get_sweep_npoints ds) (\<lambda>i. Inr (PyInt_FromLong py i))))"
| "py_call py py_bool close_ok ds get_signal_names_method = Some (ds, returned (py_get_signal_names py ds))"
| "py_call py py_bool close_ok ds get_sweep_param_names_method = Some (ds, returned (py_get_sweep_param_names py ds))"
| "py_call py py_bool close_ok ds get_sweep_values_method =
     map_option (\<lambda>r. (ds, outcome r)) (py_get_sweep_values py ds)"
| "py_call py py_bool close_ok ds (get_signal_method name) =
     map_option (\<lambda>r. (ds, outcome r)) (py_get_signal py ds name)"
| "py_call py py_bool close_ok ds get_header_properties_method = Some (ds, returned (py_get_header_properties py ds))"
| "py_call py py_bool close_ok ds (get_signal_properties_method name) =
     Some (ds, returned (py_get_signal_properties py ds name))"
| "py_call py py_bool close_ok ds is_swept_method =
     Some (ds, returned (rbind (is_swept ds) (\<lambda>b. Inr (py_bool b))))"
| "py_call py py_bool close_ok ds close_method =
     (let (ds, r) = PSFDataSet_close close_ok ds in Some (ds, returned (rbind r (\<lambda>u. Inr (Py_None py)))))"
| "py_call py py_bool close_ok ds invertstruct_get =
     Some (ds, returned (rbind (get_invertstruct ds) (\<lambda>b. Inr (py_bool b))))"
| "py_call py py_bool close_ok ds (invertstruct_set b) =
     (case set_invertstruct b ds of
        Inl e \<Rightarrow> Some (ds, returned (Inl e))
      | Inr ds \<Rightarrow> Some (ds, Returns (Py_None py)))"

subsection \<open>What a caller can rely on\<close>

text \<open>A call is a step of the data set or leaves it as it is.\<close>

lemma py_call_step: "py_call py py_bool close_ok ds m = Some (ds', r) \<Longrightarrow> ds' = ds \<or> step ds ds'"
  by (cases m) (auto intro: step_close step_invert split: prod.splits sum.splits)

lemma py_new_reachable: "py_new disk = (Some ds, r) \<Longrightarrow> reachable ds"
  by (auto simp: py_new_def intro: reachable_new split: sum.splits)

text \<open>The sequences of calls on one object.\<close>

inductive calls :: "'o python_api \<Rightarrow> (bool \<Rightarrow> 'o) \<Rightarrow> dataset \<Rightarrow> py_method list \<Rightarrow> dataset \<Rightarrow> bool" for py py_bool where
  calls_none: "calls py py_bool ds [] ds"
| calls_one: "py_call py py_bool close_ok ds m = Some (ds', r) \<Longrightarrow> calls py py_bool ds' ms ds'' \<Longrightarrow>
    calls py py_bool ds (m # ms) ds''"

inductive_cases calls_ConsE: "calls py py_bool ds (m # ms) ds'"

lemma calls_reachable: "calls py py_bool ds ms ds' \<Longrightarrow> reachable ds \<Longrightarrow> reachable ds'"
  by (induction rule: calls.induct) (auto dest!: py_call_step intro: reachable_step)

lemma outcome_not_open: "outcome (Inl (Throw DataSetNotOpen)) = RaisesOther DataSetNotOpen"
  by (simp add: outcome_def translate_exception_def)

text \<open>On a closed data set every method but \<open>close\<close> raises, and it stays as it is.\<close>

lemma closed_call:
  assumes "\<not> ds_is_open ds"
  shows "py_call py py_bool close_ok ds m =
    Some (ds, if m = close_method then Returns (Py_None py) else RaisesOther DataSetNotOpen)"
proof -
  have "verify_open ds = Inl (Throw DataSetNotOpen)"
    using assms by (simp add: verify_open_def)
  then show ?thesis
    using assms
    by (cases m) (simp_all add: access_defs returned_def outcome_not_open PSFDataSet_close_def
        py_get_signal_names_def py_get_sweep_param_names_def py_get_sweep_values_def py_get_signal_def
        py_get_header_properties_def py_get_signal_properties_def guarded_def outcome_def translate_exception_def)
qed

end
