(* ===== verification/BlockObjects.thy ===== *)
theory BlockObjects
  imports Objects
begin

section \<open>Properties and blocks as objects (src/psfproperty.cc, psfpropertyblock.cc)\<close>

text \<open>
  What a reader makes on the heap: trees of objects that are owned, and objects that nobody owns.
  \<open>makes\<close> relates a run to the reader of the model, errors included. The first readers are those
  of a property, whose value is a scalar of its own, and of a block of properties, which leaves the
  scalars of its map to nobody.
\<close>

subsection \<open>What was made\<close>

text \<open>
  \<open>made h h' as k\<close>: since the heap \<open>h\<close> the trees of the objects \<open>as\<close> were made, and \<open>k\<close> other objects
  that are live.
\<close>

definition made :: "object heap \<Rightarrow> object heap \<Rightarrow> nat list \<Rightarrow> nat \<Rightarrow> bool" where
  "made h h' as k \<longleftrightarrow> (\<exists>g A. h' = h @ g \<and> owned destructor h' as A \<and> set A \<subseteq> {length h ..< length h'}
     \<and> live_count g = length A + k)"

lemma made_none: "made h h [] 0"
  unfolding made_def by (intro exI [of _ "[]"]) (simp add: owned_none)

lemma owned_extended: "owned d h as A \<Longrightarrow> owned d (h @ g) as A"
  by (rule owned_frame) (auto dest!: owned_live simp: live_extend)

lemma made_append: "made h h1 as k \<Longrightarrow> made h1 h2 bs l \<Longrightarrow> made h h2 (as @ bs) (k + l)"
proof -
  assume "made h h1 as k" and "made h1 h2 bs l"
  then obtain g A g' B where h1: "h1 = h @ g" "owned destructor h1 as A" "set A \<subseteq> {length h ..< length h1}"
      "live_count g = length A + k"
    and h2: "h2 = h1 @ g'" "owned destructor h2 bs B" "set B \<subseteq> {length h1 ..< length h2}"
      "live_count g' = length B + l"
    by (auto simp: made_def)
  have "owned destructor h2 (as @ bs) (A @ B)"
    using h1(3) h2 by (intro owned_append owned_extended [OF h1(2), of g', folded h2(1)]) fastforce+
  moreover have "set (A @ B) \<subseteq> {length h ..< length h2}"
    using h1(1,3) h2(1,3) by auto
  ultimately show ?thesis
    unfolding made_def using h1 h2
    by (intro exI [of _ "g @ g'"] exI [of _ "A @ B"]) simp
qed

lemma made_object: "made h h1 (destructor x) k \<Longrightarrow> made h (h1 @ [Some x]) [length h1] k"
proof -
  assume "made h h1 (destructor x) k"
  then obtain g A where h1: "h1 = h @ g" "owned destructor h1 (destructor x) A" "set A \<subseteq> {length h ..< length h1}"
      "live_count g = length A + k"
    by (auto simp: made_def)
  have A: "owned destructor (h1 @ [Some x]) (destructor x) A"
    using h1(2) by (rule owned_extended)
  have "distinct (length h1 # A @ [])"
    using h1(3) owned_distinct [OF h1(2)] by auto
  from owned_one [OF _ A owned_none this] have "owned destructor (h1 @ [Some x]) [length h1] (length h1 # A)"
    by (simp add: lookup_append lookup_def)
  then show ?thesis
    unfolding made_def using h1
    by (intro exI [of _ "g @ [Some x]"] exI [of _ "length h1 # A"]) auto
qed

text \<open>The end of the trees: the rest stays, and so does all that was there before.\<close>

lemma made_deleted:
  assumes "made h h' as k"
  shows "\<exists>h2. delete_all destructor h' as = Inr h2 \<and> (\<forall>x < length h. lookup h2 x = lookup h x)
    \<and> live_count h2 = live_count h + k"
proof -
  obtain g A where h': "h' = h @ g" "owned destructor h' as A" "set A \<subseteq> {length h ..< length h'}"
      "live_count g = length A + k"
    using assms by (auto simp: made_def)
  have "delete_all destructor h' as = Inr (release_all h' A)"
    using owned_delete [OF h'(2), of h' "[]"] by simp
  moreover have "\<forall>x < length h. lookup (release_all h' A) x = lookup h x"
    using h'(1,3) by (auto simp: lookup_release_all lookup_append)
  moreover have "live_count h' = length A + live_count (release_all h' A)"
    using live_count_release_all owned_distinct owned_live h'(2) by metis
  ultimately show ?thesis
    using h'(1,4) by auto
qed

inductive_cases owned_ConsE: "owned d h (a # as) C"

lemma owned_split: "owned d h (as @ bs) C \<Longrightarrow> \<exists>A B. C = A @ B \<and> owned d h as A \<and> owned d h bs B"
proof (induction as arbitrary: C)
  case Nil
  then show ?case using owned_none by fastforce
next
  case (Cons a as)
  from Cons.prems obtain x A C' where x: "lookup h a = Some x" "owned d h (d x) A" "owned d h (as @ bs) C'"
    "distinct (a # A @ C')" "C = a # A @ C'"
    by (auto elim: owned_ConsE)
  then obtain A' B where "C' = A' @ B" "owned d h as A'" "owned d h bs B"
    using Cons.IH by blast
  with x owned_one [OF x(1,2), of as A'] show ?case
    by (intro exI [of _ "a # A @ A'"] exI [of _ B]) auto
qed

lemma made_swap: "made h h' (as @ bs) k \<Longrightarrow> made h h' (bs @ as) k"
proof -
  assume "made h h' (as @ bs) k"
  then obtain g C where h': "h' = h @ g" "owned destructor h' (as @ bs) C" "set C \<subseteq> {length h ..< length h'}"
    "live_count g = length C + k"
    by (auto simp: made_def)
  then obtain A B where C: "C = A @ B" "owned destructor h' as A" "owned destructor h' bs B"
    using owned_split by blast
  moreover have "set A \<inter> set B = {}"
    using owned_distinct [OF h'(2)] C(1) by auto
  ultimately have "owned destructor h' (bs @ as) (B @ A)"
    by (intro owned_append) auto
  with h' C(1) show ?thesis
    unfolding made_def by (intro exI [of _ g] exI [of _ "B @ A"]) auto
qed


text \<open>The object that is made first, and whose pointers are set when all else is there.\<close>

lemma made_root_set:
  assumes "made (h @ [Some x]) h' as k"
  shows "made (h @ [Some x']) (store h' (length h) x') as k"
proof -
  from assms obtain g A where h': "h' = (h @ [Some x]) @ g" "owned destructor h' as A"
      "set A \<subseteq> {length (h @ [Some x]) ..< length h'}" "live_count g = length A + k"
    by (auto simp: made_def)
  have s: "store h' (length h) x' = (h @ [Some x']) @ g"
    by (simp add: h'(1) store_def list_update_append)
  have "owned destructor (store h' (length h) x') as A"
    using h'(3) by (intro owned_frame [OF h'(2)]) (auto simp: lookup_def store_def)
  then show ?thesis
    unfolding made_def using h' s by (intro exI [of _ g] exI [of _ A]) simp
qed

lemma made_root:
  assumes "made (h @ [Some x]) h' as k" and "destructor x = as"
  shows "made h h' [length h] k"
proof -
  from assms(1) obtain g A where h': "h' = (h @ [Some x]) @ g" "owned destructor h' as A"
      "set A \<subseteq> {length (h @ [Some x]) ..< length h'}" "live_count g = length A + k"
    by (auto simp: made_def)
  have "lookup h' (length h) = Some x"
    by (simp add: h'(1) lookup_def nth_append)
  moreover have "distinct (length h # A @ [])"
    using h'(3) owned_distinct [OF h'(2)] by auto
  ultimately have "owned destructor h' [length h] (length h # A)"
    using owned_one [OF _ _ owned_none, of h' "length h" x destructor A] h'(2) assms(2) by simp
  then show ?thesis
    unfolding made_def using h' by (intro exI [of _ "Some x # g"] exI [of _ "length h # A"]) auto
qed

lemma made_unowned: "made b h as k \<Longrightarrow> made b (h @ g) as (k + live_count g)"
proof -
  have "made h (h @ g) [] (live_count g)"
    unfolding made_def by (intro exI [of _ g] exI [of _ "[]"]) (simp add: owned_none)
  then show "made b h as k \<Longrightarrow> made b (h @ g) as (k + live_count g)"
    using made_append by fastforce
qed

lemma made_new: "destructor x = [] \<Longrightarrow> made b h as k \<Longrightarrow> made b (h @ [Some x]) (as @ [length h]) k"
  using made_append [OF _ made_object [of h h x 0]] by (simp add: made_none)

lemma made_prefix: "made b h as k \<Longrightarrow> prefix b h"
  by (auto simp: made_def)

subsection \<open>Readers that make trees\<close>

text \<open>
  \<open>makes m r R F K\<close>: the run \<open>m\<close> ends as the result \<open>r\<close> of the model says. It leaves all objects that
  were there as they were. On success its value is related to that of \<open>r\<close> by \<open>R\<close>, it has made the trees
  of the objects \<open>F\<close>, and as many objects that nobody owns as \<open>K\<close> tells.
\<close>

definition makes :: "('a, object) run \<Rightarrow> 'b res \<Rightarrow> ('b \<Rightarrow> 'a \<Rightarrow> object heap \<Rightarrow> bool) \<Rightarrow> ('a \<Rightarrow> nat list)
    \<Rightarrow> ('b \<Rightarrow> nat) \<Rightarrow> bool" where
  "makes m r R F K \<longleftrightarrow> (\<forall>h. does h (\<lambda>h'. h' = h) m r (\<lambda>x y h'. R x y h' \<and> made h h' (F y) (K x)))"

lemma makesI:
  "(\<And>h. does h (\<lambda>h'. h' = h) m r (\<lambda>x y h'. R x y h' \<and> made h h' (F y) (K x))) \<Longrightarrow> makes m r R F K"
  by (simp add: makes_def)

lemma makesD: "makes m r R F K \<Longrightarrow> does h (\<lambda>h'. h' = h) m r (\<lambda>x y h'. R x y h' \<and> made h h' (F y) (K x))"
  by (simp add: makes_def)

text \<open>A reader as a step of another, which has made some trees before.\<close>

lemma does_makes_keeping:
  assumes m: "makes m r R F K" and I: "\<And>h g. I h \<Longrightarrow> I (h @ g)"
    and f: "\<And>x y. r = Inr x \<Longrightarrow> does h0 (\<lambda>h. I h \<and> R x y h \<and> made b h (as @ F y) (k + K x)) (f y) (s x) Q"
  shows "does h0 (\<lambda>h. I h \<and> made b h as k) (run_bind m f) (rbind r s) Q"
proof (rule does_bind [where Q = "\<lambda>x y h. I h \<and> R x y h \<and> made b h (as @ F y) (k + K x)"])
  show "does h0 (\<lambda>h. I h \<and> made b h as k) m r (\<lambda>x y h. I h \<and> R x y h \<and> made b h (as @ F y) (k + K x))"
  proof (rule does_fix, elim conjE, rule does_from, assumption)
    fix h
    assume "I h" and "made b h as k"
    show "does h (\<lambda>h'. h' = h) m r (\<lambda>x y h'. I h' \<and> R x y h' \<and> made b h' (as @ F y) (k + K x))"
      by (rule does_post [OF makesD [OF m]])
        (auto simp: prefix_def intro: I [OF \<open>I h\<close>] made_append [OF \<open>made b h as k\<close>])
  qed
qed (rule f)

lemma does_makes:
  assumes "makes m r R F K"
    and "\<And>x y. r = Inr x \<Longrightarrow> does h0 (\<lambda>h. R x y h \<and> made b h (as @ F y) (k + K x)) (f y) (s x) Q"
  shows "does h0 (\<lambda>h. made b h as k) (run_bind m f) (rbind r s) Q"
  using does_makes_keeping [of m r R F K "\<lambda>h. True" h0 b as k f s Q] assms by simp

subsection \<open>Properties\<close>

text \<open>
  An exception leaves the local objects of a function destroyed: \<open>run_failing u m\<close> is \<open>m\<close>, and on an
  error the clean-up \<open>u\<close> with the error after it.
\<close>

definition run_failing :: "(unit, 'o) run \<Rightarrow> ('a, 'o) run \<Rightarrow> ('a, 'o) run" where
  "run_failing u m h = (case m h of
     Some (Inl e, h) \<Rightarrow> (case u h of None \<Rightarrow> None | Some (r, h) \<Rightarrow> Some (Inl e, h))
   | r \<Rightarrow> r)"

definition run_clone :: "nat \<Rightarrow> (nat, object) run" where
  "run_clone a h = (case clone h a of
     None \<Rightarrow> None | Some (Inl e) \<Rightarrow> Some (Inl e, h) | Some (Inr (b, h)) \<Rightarrow> Some (Inr b, h))"

text \<open>
  The scalar is made before it is read. Where reading it fails, the caller decides what becomes of
  it: the property is an object of the heap, which stays, or a local variable, whose destructor
  deletes the scalar.
\<close>

definition heap_read_value :: "(nat \<Rightarrow> (unit, object) run) \<Rightarrow> scalar \<Rightarrow> (scalar \<times> int) res
    \<Rightarrow> (scalar option \<times> nat option \<times> int, object) run" where
  "heap_read_value unwind v r =
     run_bind (run_new (ScalarObject (Plain v))) (\<lambda>m_value.
     run_bind (run_failing (unwind m_value) (run_lift r)) (\<lambda>(v, n).
     run_bind (run_set m_value (ScalarObject (Plain v))) (\<lambda>u.
     run_lift (Inr (Some v, Some m_value, n)))))"

definition heap_Property_value :: "(nat \<Rightarrow> (unit, object) run) \<Rightarrow> int \<Rightarrow> image \<Rightarrow> int
    \<Rightarrow> (scalar option \<times> nat option \<times> int, object) run" where
  "heap_Property_value unwind chunktype img buf =
     (if chunktype = 33 then heap_read_value unwind (PSFStringScalar '''') (StringScalar_deserialize img buf)
      else if chunktype = 34 then heap_read_value unwind (PSFInt32Scalar None) (Int32Scalar_deserialize img buf)
      else if chunktype = 35 then heap_read_value unwind (PSFDoubleScalar None) (DoubleScalar_deserialize img buf)
      else run_lift (Inr (None, None, 0)))"

definition heap_Property_deserialize :: "(nat \<Rightarrow> (unit, object) run) \<Rightarrow> image \<Rightarrow> int
    \<Rightarrow> (property_object \<times> int, object) run" where
  "heap_Property_deserialize unwind img startbuf =
     run_bind (run_lift (GET_INT32 img startbuf)) (\<lambda>w. let m_chunktype = sint w; buf = startbuf + 4 in
     if \<not> property_ischunk m_chunktype then run_lift (Inl (Throw (IncorrectChunk m_chunktype)))
     else run_bind (run_lift (String_deserialize img buf)) (\<lambda>(m_name, n). let buf = buf + n in
     run_bind (heap_Property_value unwind m_chunktype img buf) (\<lambda>(m_value, a, n). let buf = buf + n in
     run_lift (Inr (\<lparr>po_property = Property m_chunktype m_name m_value, po_value = a\<rparr>, buf - startbuf)))))"

definition heap_Property_copy :: "property_object \<Rightarrow> (property_object, object) run" where
  "heap_Property_copy x = (case po_value x of
     Some v \<Rightarrow> run_bind (run_clone v) (\<lambda>q.
       run_lift (Inr \<lparr>po_property = Property_copy (po_property x), po_value = Some q\<rparr>))
   | None \<Rightarrow> run_lift (Inr \<lparr>po_property = Property_copy (po_property x), po_value = None\<rparr>))"

text \<open>A property that was read has a scalar, and that is its value.\<close>

definition holds_plain :: "object heap \<Rightarrow> property_object \<Rightarrow> bool" where
  "holds_plain h prop \<longleftrightarrow> (\<exists>a v. po_value prop = Some a \<and> prop_value (po_property prop) = Some v
     \<and> lookup h a = Some (ScalarObject (Plain v)))"

lemma lookup_extended: "lookup h a = Some x \<Longrightarrow> lookup (h @ g) a = Some x"
  by (simp add: lookup_append lookup_bound)

lemma holds_plain_extended: "holds_plain h prop \<Longrightarrow> holds_plain (h @ g) prop"
  unfolding holds_plain_def using lookup_extended by metis

lemma run_failing_lift:
  "run_failing u (run_lift (Inr x)) h = Some (Inr x, h)"
  "run_failing u (run_lift (Inl e)) h = (case u h of None \<Rightarrow> None | Some (r, h) \<Rightarrow> Some (Inl e, h))"
  by (simp_all add: run_failing_def run_lift)

lemma run_clone_plain:
  "lookup h a = Some (ScalarObject (Plain v)) \<Longrightarrow> run_clone a h = Some (Inr (length h), h @ [Some (ScalarObject (Plain v))])"
  by (simp add: run_clone_def clone_def object_at_Some alloc_def)

text \<open>What an error does with the scalar.\<close>

definition unwinds :: "(nat \<Rightarrow> (unit, object) run) \<Rightarrow> bool" where
  "unwinds unwind \<longleftrightarrow> (\<forall>h v. \<exists>r h'. unwind (length h) (h @ [Some (ScalarObject (Plain v))]) = Some (r, h') \<and> prefix h h')"

lemma unwinds_leaving: "unwinds (\<lambda>a. run_lift (Inr ()))"
  by (auto simp: unwinds_def run_lift)

lemma unwinds_deleting: "unwinds (run_delete destructor)"
proof -
  have "lookup (h @ [Some x]) (length h) = Some x" for h and x :: object
    by (simp add: lookup_def)
  then show ?thesis
    by (simp add: unwinds_def run_delete_def object_at_Some destructor_def Struct_destructor_def release_def)
qed

lemma heap_read_value_does:
  assumes "unwinds unwind" and "\<And>v n. r = Inr (v, n) \<Longrightarrow> P v"
  shows "does h (\<lambda>h'. h' = h) (heap_read_value unwind v0 r) (rbind r (\<lambda>(v, n). Inr (Some v, n)))
    (\<lambda>(v, n) (v', a, n') h'. v' = v \<and> n' = n \<and> a = Some (length h)
       \<and> (\<exists>w. v = Some w \<and> P w \<and> h' = h @ [Some (ScalarObject (Plain w))]))"
proof (rule doesI)
  fix h'
  assume h': "h' = h"
  obtain u h1 where u: "unwind (length h) (h @ [Some (ScalarObject (Plain v0))]) = Some (u, h1)" "prefix h h1"
    using assms(1) unfolding unwinds_def by blast
  show "\<exists>y h''. heap_read_value unwind v0 r h' = Some (y, h'') \<and> prefix h h''
    \<and> ends (rbind r (\<lambda>(v, n). Inr (Some v, n))) (\<lambda>(v, n) (v', a, n') h'. v' = v \<and> n' = n \<and> a = Some (length h)
       \<and> (\<exists>w. v = Some w \<and> P w \<and> h' = h @ [Some (ScalarObject (Plain w))])) y h''"
  proof (cases r)
    case (Inl e)
    with u show ?thesis
      by (simp add: heap_read_value_def h' run_simps run_bind_def [of "run_failing _ _"] run_failing_lift)
  next
    case (Inr x)
    then obtain w n where x: "x = (w, n)" "P w"
      using assms(2) by (cases x) auto
    with Inr show ?thesis
      by (simp add: heap_read_value_def h' run_simps run_bind_def [of "run_failing _ _"] run_failing_lift store_def)
  qed
qed

lemma heap_Property_value_does:
  assumes "unwinds unwind" and "property_ischunk t"
  shows "does h (\<lambda>h'. h' = h) (heap_Property_value unwind t img buf) (Property_value_deserialize t img buf)
    (\<lambda>(v, n) (v', a, n') h'. v' = v \<and> n' = n \<and> a = Some (length h)
       \<and> (\<exists>w. v = Some w \<and> scalar_typeid w \<noteq> TYPEID_STRUCT \<and> h' = h @ [Some (ScalarObject (Plain w))]))"
proof -
  note scalar = heap_read_value_does [OF assms(1), where P = "\<lambda>w. scalar_typeid w \<noteq> TYPEID_STRUCT"]
  have "StringScalar_deserialize img buf = Inr (v, n) \<Longrightarrow> scalar_typeid v \<noteq> TYPEID_STRUCT"
    "Int32Scalar_deserialize img buf = Inr (v, n) \<Longrightarrow> scalar_typeid v \<noteq> TYPEID_STRUCT"
    "DoubleScalar_deserialize img buf = Inr (v, n) \<Longrightarrow> scalar_typeid v \<noteq> TYPEID_STRUCT" for v n
    by (auto simp: StringScalar_deserialize_def Int32Scalar_deserialize_def DoubleScalar_deserialize_def
        res_simps typeid_defs)
  then show ?thesis
    unfolding heap_Property_value_def Property_value_deserialize_def
    using assms(2) by (intro does_if scalar) (auto simp: property_ischunk_def)
qed

definition property_read :: "object heap \<Rightarrow> property \<times> int \<Rightarrow> property_object \<times> int \<Rightarrow> object heap \<Rightarrow> bool" where
  "property_read h x y h' \<longleftrightarrow> (case (x, y) of ((p, n), (prop, n')) \<Rightarrow>
     n' = n \<and> prop = \<lparr>po_property = p, po_value = Some (length h)\<rparr>
       \<and> (\<exists>v. prop_value p = Some v \<and> scalar_typeid v \<noteq> TYPEID_STRUCT \<and> h' = h @ [Some (ScalarObject (Plain v))]))"

lemma heap_Property_deserialize_does:
  assumes "unwinds unwind"
  shows "does h (\<lambda>h'. h' = h) (heap_Property_deserialize unwind img startbuf) (Property_deserialize img startbuf)
    (property_read h)"
  unfolding heap_Property_deserialize_def Property_deserialize_def Let_def
  by (intro does_lift_bind does_if does_prod does_error does_bind [OF heap_Property_value_does [OF assms]])
    (auto simp: property_read_def intro!: does_return)

subsection \<open>Blocks of properties\<close>

definition empty_block_object :: block_object where
  "empty_block_object = \<lparr>bo_block = empty_block, bo_proplist = [], bo_propmap = []\<rparr>"

definition heap_append_prop :: "block_object \<Rightarrow> property_object \<Rightarrow> (block_object, object) run" where
  "heap_append_prop block prop =
     run_bind (heap_Property_copy prop) (\<lambda>copy.
     let block = block\<lparr>bo_proplist := bo_proplist block @ [copy]\<rparr> in
     case po_value prop of
       None \<Rightarrow> run_lift (Inl (Undefined NullPointer))
     | Some v \<Rightarrow> run_bind (run_clone v) (\<lambda>q.
         run_bind (run_lift (append_prop (bo_block block) (po_property prop))) (\<lambda>pb.
         run_lift (Inr (block\<lparr>bo_block := pb,
           bo_propmap := map_put (prop_name (po_property prop)) q (bo_propmap block)\<rparr>)))))"

text \<open>
  Where \<open>push_back\<close> moves the list to a larger place, the library copies the properties there and
  destroys the old ones; the list has the same values afterwards and as many objects, so that they are
  left where they are. The property is a local variable: its destructor runs at the end of each turn,
  and also when an error ends the turn.
\<close>

definition destroy_property :: "property_object \<Rightarrow> (unit, object) run" where
  "destroy_property prop = run_delete_all destructor (Property_destructor prop)"

abbreviation read_local_property :: "image \<Rightarrow> int \<Rightarrow> (property_object \<times> int, object) run" where
  "read_local_property \<equiv> heap_Property_deserialize (run_delete destructor)"

lemma read_local_property_pos:
  "read_local_property img buf h = Some (Inr (prop, n), h') \<Longrightarrow> \<exists>p. Property_deserialize img buf = Inr (p, n)"
  by (erule does_Inr [OF heap_Property_deserialize_does [OF unwinds_deleting]]) (auto simp: property_read_def)

declare run_bind_cong [fundef_cong]

function heap_PropertyBlock_loop :: "image \<Rightarrow> block_object \<Rightarrow> int \<Rightarrow> (block_object \<times> int, object) run" where
  "heap_PropertyBlock_loop img block buf =
     run_bind (run_lift (GET_INT32 img buf)) (\<lambda>w.
     if property_ischunk (sint w)
     then run_bind (read_local_property img buf) (\<lambda>(prop, n).
          run_bind (run_failing (destroy_property prop) (heap_append_prop block prop)) (\<lambda>block.
          run_bind (destroy_property prop) (\<lambda>u.
          heap_PropertyBlock_loop img block (buf + n))))
     else run_lift (Inr (block, buf)))"
  by pat_completeness auto
termination
  by (relation "measure (\<lambda>(img, block, buf). nat (int (length img) - buf))")
    (auto dest!: read_local_property_pos dest: property_reader.dec_start property_reader.dec_positive)

declare run_bind_cong [fundef_cong del] heap_PropertyBlock_loop.simps [simp del]

definition heap_PropertyBlock_deserialize :: "block_object \<Rightarrow> image \<Rightarrow> int \<Rightarrow> (block_object \<times> int, object) run" where
  "heap_PropertyBlock_deserialize block img startbuf =
     run_bind (heap_PropertyBlock_loop img block startbuf) (\<lambda>(block, buf). run_lift (Inr (block, buf - startbuf)))"

text \<open>The properties of a block have scalars, in the list and, again, in the map.\<close>

definition block_holds :: "object heap \<Rightarrow> block_object \<Rightarrow> bool" where
  "block_holds h block \<longleftrightarrow> (\<forall>prop \<in> set (bo_proplist block). holds_plain h prop)
     \<and> map po_property (bo_proplist block) = m_proplist (bo_block block)
     \<and> same_keys (\<lambda>a v. lookup h a = Some (ScalarObject (Plain v))) (bo_propmap block) (m_propmap (bo_block block))"

text \<open>Appending makes two copies of the value, one after the other.\<close>

definition appended :: "block_object \<Rightarrow> property \<Rightarrow> scalar \<Rightarrow> nat \<Rightarrow> block_object" where
  "appended block p v a = \<lparr>bo_block = PropertyBlock (m_proplist (bo_block block) @ [Property_copy p])
       (map_put (prop_name p) v (m_propmap (bo_block block))),
     bo_proplist = bo_proplist block @ [\<lparr>po_property = Property_copy p, po_value = Some a\<rparr>],
     bo_propmap = map_put (prop_name p) (a + 1) (bo_propmap block)\<rparr>"

abbreviation two_copies :: "scalar \<Rightarrow> object heap" where
  "two_copies v \<equiv> [Some (ScalarObject (Plain v)), Some (ScalarObject (Plain v))]"

lemma heap_append_prop_run:
  assumes "po_value prop = Some a" and "prop_value (po_property prop) = Some v"
    and "lookup h a = Some (ScalarObject (Plain v))"
  shows "heap_append_prop block prop h = Some (Inr (appended block (po_property prop) v (length h)), h @ two_copies v)"
  using assms(1,2) lookup_extended [OF assms(3)]
  by (simp add: heap_append_prop_def heap_Property_copy_def run_bind_assoc run_bind_Some(1) [OF run_clone_plain]
      assms(3) run_simps append_prop_def appended_def)

lemma block_holds_extended: "block_holds h block \<Longrightarrow> block_holds (h @ g) block"
  by (auto simp: block_holds_def intro: holds_plain_extended same_keys_mono lookup_extended)

lemma block_holds_appended:
  assumes "block_holds h block" and "prop_value p = Some v"
  shows "block_holds (h @ two_copies v) (appended block p v (length h))"
proof -
  let ?h = "h @ two_copies v"
  have new: "lookup ?h (length h) = Some (ScalarObject (Plain v))" "lookup ?h (length h + 1) = Some (ScalarObject (Plain v))"
    by (simp_all add: lookup_def nth_append)
  have "prop_value (Property_copy p) = Some v"
    using assms(2) by (cases p) auto
  with new(1) have "holds_plain ?h \<lparr>po_property = Property_copy p, po_value = Some (length h)\<rparr>"
    by (simp add: holds_plain_def)
  moreover note block_holds_extended [OF assms(1), of "two_copies v"]
  ultimately show ?thesis
    using same_keys_put [of "\<lambda>a v. lookup ?h a = Some (ScalarObject (Plain v))", OF _ new(2)]
    by (auto simp: block_holds_def appended_def)
qed

lemma made_appended:
  assumes "made b h (as @ PropertyBlock_destructor block) k"
  shows "made b (h @ two_copies v) (as @ PropertyBlock_destructor (appended block p v (length h))) (Suc k)"
proof -
  have "destructor (ScalarObject (Plain v)) = []"
    by (simp add: destructor_def Struct_destructor_def)
  from made_unowned [OF made_new [OF this assms], of "[Some (ScalarObject (Plain v))]"] show ?thesis
    by (simp add: PropertyBlock_destructor_def Property_destructor_def opt_def appended_def)
qed

text \<open>A turn of the loop: the property comes and goes, its copies stay.\<close>

lemma run_failing_Inr: "m h = Some (Inr x, h') \<Longrightarrow> run_failing u m h = Some (Inr x, h')"
  by (simp add: run_failing_def)

lemma block_turn:
  assumes "prop = \<lparr>po_property = p, po_value = Some (length h)\<rparr>" and "prop_value p = Some v"
  shows "run_bind (run_failing (destroy_property prop) (heap_append_prop block prop)) (\<lambda>block.
      run_bind (destroy_property prop) (\<lambda>u. f block)) (h @ [Some (ScalarObject (Plain v))])
    = f (appended block p v (length (h @ [None]))) ((h @ [None]) @ two_copies v)"
proof -
  let ?x = "Some (ScalarObject (Plain v))"
  have head: "lookup (h @ ?x # g) (length h) = ?x" for g
    by (simp add: lookup_def nth_append)
  have "delete_all destructor (h @ [?x, ?x, ?x]) [length h] = Inr (h @ [None, ?x, ?x])"
    by (simp add: object_at_Some [OF head] destructor_def Struct_destructor_def release_def list_update_append)
  moreover have "heap_append_prop block prop (h @ [?x])
      = Some (Inr (appended block p v (length (h @ [?x]))), (h @ [?x]) @ two_copies v)"
    using heap_append_prop_run [of _ "length h" v "h @ [?x]" block] head [of "[]"] assms by simp
  ultimately show ?thesis
    by (simp add: run_bind_Some(1) [OF run_failing_Inr] destroy_property_def Property_destructor_def opt_def assms(1)
        run_delete_all_def run_bind_def [of "run_delete_all _ _"])
qed

definition block_read :: "propertyblock \<Rightarrow> object heap \<Rightarrow> block_object \<Rightarrow> propertyblock \<times> int \<Rightarrow> block_object \<times> int
    \<Rightarrow> object heap \<Rightarrow> bool" where
  "block_read pb h block x y h' \<longleftrightarrow> (case (x, y) of ((pb', n), (block', n')) \<Rightarrow>
     n' = n \<and> bo_block block' = pb' \<and> block_holds h' block'
     \<and> (\<forall>b as k. made b h (as @ PropertyBlock_destructor block) (k + length (m_proplist pb))
          \<longrightarrow> made b h' (as @ PropertyBlock_destructor block') (k + length (m_proplist pb'))))"

lemma heap_PropertyBlock_loop_does:
  "block_holds h block \<Longrightarrow> bo_block block = pb \<Longrightarrow>
     does h (\<lambda>h'. h' = h) (heap_PropertyBlock_loop img block buf) (PropertyBlock_loop img pb buf) (block_read pb h block)"
proof (induction img pb buf arbitrary: h block rule: PropertyBlock_loop.induct)
  case (1 img pb buf)
  show ?case
    unfolding heap_PropertyBlock_loop.simps [of img block] PropertyBlock_loop.simps [of img pb]
  proof (intro does_lift_bind does_if does_bind [OF heap_Property_deserialize_does [OF unwinds_deleting]]
      does_prods)
    fix w x and y :: "property_object \<times> int" and p n and pr :: property_object and n'
    assume w: "GET_INT32 img buf = Inr w" "property_ischunk (sint w)" "Property_deserialize img buf = Inr x"
      and xy: "y = (pr, n')" "x = (p, n)"
    show "does h (property_read h x y)
        (run_bind (run_failing (destroy_property pr) (heap_append_prop block pr)) (\<lambda>block.
          run_bind (destroy_property pr) (\<lambda>u. heap_PropertyBlock_loop img block (buf + n'))))
        (rbind (append_prop pb p) (\<lambda>pb. PropertyBlock_loop img pb (buf + n)))
        (block_read pb h block)"
    proof (rule does_fix)
      fix h1
      assume "property_read h x y h1"
      then obtain v where v: "n' = n" "pr = \<lparr>po_property = p, po_value = Some (length h)\<rparr>" "prop_value p = Some v"
        "scalar_typeid v \<noteq> TYPEID_STRUCT" "h1 = h @ [Some (ScalarObject (Plain v))]"
        by (auto simp: property_read_def xy)
      let ?h = "h @ [None]" and ?pb = "PropertyBlock (m_proplist pb @ [Property_copy p]) (map_put (prop_name p) v (m_propmap pb))"
      have pb: "append_prop pb p = Inr ?pb"
        using v(3) by (simp add: append_prop_def)
      have holds: "block_holds (?h @ two_copies v) (appended block p v (length ?h))"
        by (rule block_holds_appended [OF block_holds_extended [OF "1.prems"(1)] v(3)])
      have "bo_block (appended block p v (length ?h)) = ?pb"
        using "1.prems"(2) by (simp add: appended_def)
      note IH = "1.IH" [OF w(1,2,3) xy(2) [symmetric] pb holds this]
      have "does h (\<lambda>h'. h' = ?h @ two_copies v)
        (heap_PropertyBlock_loop img (appended block p v (length ?h)) (buf + n)) (PropertyBlock_loop img ?pb (buf + n))
        (block_read pb h block)"
      proof (rule does_from [OF _ does_post [OF IH]])
        show "prefix h (?h @ two_copies v)" by simp
        fix x y h'
        assume *: "block_read ?pb (?h @ two_copies v) (appended block p v (length ?h)) x y h'"
        have "made b (?h @ two_copies v) (as @ PropertyBlock_destructor (appended block p v (length ?h)))
            (k + length (m_proplist ?pb))"
          if "made b h (as @ PropertyBlock_destructor block) (k + length (m_proplist pb))" for b as k
          using made_appended [OF made_unowned [OF that, of "[None]"]] by simp
        with * show "block_read pb h block x y h'"
          by (auto simp: block_read_def)
      qed
      then show "does h (\<lambda>h'. h' = h1)
          (run_bind (run_failing (destroy_property pr) (heap_append_prop block pr)) (\<lambda>block.
            run_bind (destroy_property pr) (\<lambda>u. heap_PropertyBlock_loop img block (buf + n'))))
          (rbind (append_prop pb p) (\<lambda>pb. PropertyBlock_loop img pb (buf + n)))
          (block_read pb h block)"
        unfolding does_def v(5) by (simp add: block_turn [OF v(2,3)] pb v(1))
    qed
  next
    show "does h (\<lambda>h'. h' = h) (run_lift (Inr (block, buf))) (Inr (pb, buf)) (block_read pb h block)"
      using "1.prems" by (auto simp: block_read_def intro!: does_return)
  qed
qed

text \<open>A block that is read into an empty one.\<close>

lemma empty_block_destructor [simp]: "PropertyBlock_destructor empty_block_object = []"
  by (simp add: PropertyBlock_destructor_def empty_block_object_def)

lemma heap_PropertyBlock_deserialize_makes:
  "makes (heap_PropertyBlock_deserialize empty_block_object img buf) (PropertyBlock_deserialize empty_block img buf)
     (\<lambda>(pb, n) (block, n') h. n' = n \<and> bo_block block = pb \<and> block_holds h block)
     (\<lambda>(block, n). PropertyBlock_destructor block) (\<lambda>(pb, n). length (m_proplist pb))"
proof (rule makesI)
  fix h
  have empty: "block_holds h empty_block_object" "bo_block empty_block_object = empty_block"
    by (simp_all add: block_holds_def empty_block_object_def empty_block_def same_keys_def)
  have "does h (\<lambda>h'. h' = h) (heap_PropertyBlock_loop img empty_block_object buf) (PropertyBlock_loop img empty_block buf)
      (\<lambda>(pb, e) (block, e') h'. e' = e \<and> bo_block block = pb \<and> block_holds h' block
        \<and> made h h' (PropertyBlock_destructor block) (length (m_proplist pb)))"
  proof (rule does_post [OF heap_PropertyBlock_loop_does [OF empty]])
    fix x y h'
    assume *: "block_read empty_block h empty_block_object x y h'"
    have "made h h ([] @ PropertyBlock_destructor empty_block_object) (0 + length (m_proplist empty_block))"
      by (simp add: made_none empty_block_def)
    moreover obtain pb e block e' where xy: "x = (pb, e)" "y = (block, e')"
      by (cases x; cases y)
    moreover have "e' = e" "bo_block block = pb" "block_holds h' block"
      "\<forall>b as k. made b h (as @ PropertyBlock_destructor empty_block_object) (k + length (m_proplist empty_block))
        \<longrightarrow> made b h' (as @ PropertyBlock_destructor block) (k + length (m_proplist pb))"
      using * by (simp_all add: block_read_def xy)
    ultimately show "(case x of (pb, e) \<Rightarrow> \<lambda>(block, e') h'. e' = e \<and> bo_block block = pb \<and> block_holds h' block
        \<and> made h h' (PropertyBlock_destructor block) (length (m_proplist pb))) y h'"
      by fastforce
  qed
  then show "does h (\<lambda>h'. h' = h) (heap_PropertyBlock_deserialize empty_block_object img buf)
      (PropertyBlock_deserialize empty_block img buf)
      (\<lambda>x y h'. (case x of (pb, n) \<Rightarrow> \<lambda>(block, n') h. n' = n \<and> bo_block block = pb \<and> block_holds h block) y h'
        \<and> made h h' (case y of (block, n) \<Rightarrow> PropertyBlock_destructor block) (case x of (pb, n) \<Rightarrow> length (m_proplist pb)))"
    unfolding heap_PropertyBlock_deserialize_def PropertyBlock_deserialize_def
    by (rule does_bind) (auto intro!: does_return)
qed

end
