(* ===== verification/ChunkObjects.thy ===== *)
theory ChunkObjects
  imports BlockObjects Containers
begin

section \<open>Chunks as objects (src/psftype.cc, psfstruct.cc, psfgroup.cc, psfnonsweepvalue.cc)\<close>

text \<open>
  The chunks of a file, read on the heap: what \<open>Container::deserialize_child\<close> makes by \<open>new\<close> and fills by
  the virtual \<open>deserialize\<close>. A type has its struct, a struct and a group their children, a value its
  scalar, each in an object of its own. Every reader does as the one on values, errors included; the
  object owns all that was made for it but the scalars in the maps of its blocks, and the members of a
  value that a second member of the same name displaced.
\<close>

subsection \<open>The blocks of a chunk\<close>

fun typedef_blocks :: "datatypedef \<Rightarrow> propertyblock list"
  and typedefs_blocks :: "datatypedef list \<Rightarrow> propertyblock list" where
  "typedef_blocks (DataTypeDef i name typeid pb None sz) = [pb]"
| "typedef_blocks (DataTypeDef i name typeid pb (Some (StructDef children sdsize)) sz) = typedefs_blocks children @ [pb]"
| "typedefs_blocks [] = []"
| "typedefs_blocks (td # tds) = typedef_blocks td @ typedefs_blocks tds"

fun chunk_blocks :: "chunk \<Rightarrow> propertyblock list" where
  "chunk_blocks (PropertyChunk p) = []"
| "chunk_blocks (DataTypeDefChunk td) = typedef_blocks td"
| "chunk_blocks (DataTypeRefChunk ref) = [tr_properties ref]"
| "chunk_blocks (GroupDefChunk g) = map tr_properties (gd_children g)"
| "chunk_blocks (NonSweepValueChunk nv) = [nv_propblock nv]"

definition children_blocks :: "chunk list \<Rightarrow> propertyblock list" where
  "children_blocks children = concat (map chunk_blocks children)"

definition properties_in :: "propertyblock list \<Rightarrow> nat" where
  "properties_in pbs = sum_list (map (\<lambda>pb. length (m_proplist pb)) pbs)"

lemma properties_in_simps [simp]:
  "properties_in [] = 0" "properties_in (pb # pbs) = length (m_proplist pb) + properties_in pbs"
  "properties_in (as @ bs) = properties_in as + properties_in bs"
  by (simp_all add: properties_in_def)

lemma typedefs_blocks_concat: "typedefs_blocks tds = concat (map typedef_blocks tds)"
  by (induction tds) simp_all

lemma typedef_blocks_eq:
  "typedef_blocks td = (case td_structdef td of None \<Rightarrow> [] | Some sd \<Rightarrow> concat (map typedef_blocks (sd_children sd)))
     @ [td_properties td]"
  by (cases td rule: typedef_blocks.cases) (simp_all add: typedefs_blocks_concat)

subsection \<open>Objects that read themselves\<close>

text \<open>
  An object is made without pointers, by \<open>new\<close>, and its \<open>deserialize\<close> fills it. Here its pointers are
  written when \<open>deserialize\<close> has made everything; until then nothing reads them, and an object whose
  \<open>deserialize\<close> failed is never seen again. With the address comes what the model has of the object.
\<close>

definition read_new :: "object \<Rightarrow> (nat \<Rightarrow> ('x \<times> int, object) run) \<Rightarrow> ('x \<times> nat \<times> int, object) run" where
  "read_new x deserialize =
     run_bind (run_new x) (\<lambda>a. run_bind (deserialize a) (\<lambda>(y, n). run_lift (Inr (y, a, n))))"

text \<open>\<open>fills x m r K\<close>: in an object \<open>x\<close> that was just made, \<open>m\<close> does as \<open>r\<close> says, and the object owns all it made but \<open>K\<close> objects.\<close>

definition fills :: "object \<Rightarrow> (nat \<Rightarrow> ('x \<times> int, object) run) \<Rightarrow> ('x \<times> int) res
    \<Rightarrow> ('x \<Rightarrow> nat \<Rightarrow> object heap \<Rightarrow> bool) \<Rightarrow> ('x \<Rightarrow> nat) \<Rightarrow> bool" where
  "fills x m r R K \<longleftrightarrow> (\<forall>h. does h (\<lambda>h'. h' = h @ [Some x]) (m (length h)) r
     (\<lambda>y z h'. z = y \<and> R (fst y) (length h) h' \<and> made h h' [length h] (K (fst y))))"

abbreviation any :: "'x \<Rightarrow> nat \<Rightarrow> object heap \<Rightarrow> bool" where
  "any x a h \<equiv> True"

lemma fillsI:
  assumes "\<And>h. does h (\<lambda>h'. made (h @ [Some x]) h' [] 0) (m (length h)) r
    (\<lambda>y z h'. z = y \<and> R (fst y) (length h) h' \<and> made h h' [length h] (K (fst y)))"
  shows "fills x m r R K"
  unfolding fills_def
proof
  fix h
  show "does h (\<lambda>h'. h' = h @ [Some x]) (m (length h)) r
      (\<lambda>y z h'. z = y \<and> R (fst y) (length h) h' \<and> made h h' [length h] (K (fst y)))"
    by (rule does_pre [OF assms]) (simp add: made_none)
qed

lemma fills_anyI:
  assumes "\<And>h. does h (\<lambda>h'. made (h @ [Some x]) h' [] 0) (m (length h)) r
    (\<lambda>y z h'. z = y \<and> made h h' [length h] (K (fst y)))"
  shows "fills x m r any K"
  by (rule fillsI) (simp add: assms)

lemma does_filled:
  assumes "destructor x' = as" and "k = K (fst y)"
  shows "does h (\<lambda>h'. made (h @ [Some x]) h' as k) (run_bind (run_set (length h) x') (\<lambda>u. run_lift (Inr y))) (Inr y)
    (\<lambda>y z h'. z = y \<and> made h h' [length h] (K (fst y)))"
  by (rule does_set [where P' = "\<lambda>h'. made h h' [length h] k"])
    (auto intro: made_root [OF made_root_set] does_return simp: assms)

lemma makes_read_new:
  assumes "fills x m r R K"
  shows "makes (read_new x m) r (\<lambda>(y, n) (z, a, n') h. n' = n \<and> z = y \<and> R y a h) (\<lambda>(y, a, n). [a]) (\<lambda>(y, n). K y)"
  unfolding read_new_def
proof (rule makesI, rule does_new [where P' = "\<lambda>a h'. h' = h @ [Some x] \<and> a = length h" for h], simp, rule does_fact, clarify)
  fix h
  have "does h (\<lambda>h'. h' = h @ [Some x]) (run_bind (m (length h)) (\<lambda>(y, n). run_lift (Inr (y, length h, n))))
      (rbind r (\<lambda>y. Inr y)) (\<lambda>y z h'. (case y of (y, n) \<Rightarrow> \<lambda>(z, a, n') h. n' = n \<and> z = y \<and> R y a h) z h'
         \<and> made h h' (case z of (y, a, n) \<Rightarrow> [a]) (case y of (y, n) \<Rightarrow> K y))"
    using assms unfolding fills_def
    by (intro does_bind [where m = "m (length h)"], blast) (auto intro!: does_return split: prod.splits)
  then show "does h (\<lambda>h'. h' = h @ [Some x]) (run_bind (m (length h)) (\<lambda>(y, n). run_lift (Inr (y, length h, n))))
      r (\<lambda>y z h'. (case y of (y, n) \<Rightarrow> \<lambda>(z, a, n') h. n' = n \<and> z = y \<and> R y a h) z h'
         \<and> made h h' (case z of (y, a, n) \<Rightarrow> [a]) (case y of (y, n) \<Rightarrow> K y))"
    by (cases r) simp_all
qed

lemma makes_weaken: "makes m r R F K \<Longrightarrow> (\<And>x y h. R x y h \<Longrightarrow> R' x y h) \<Longrightarrow> makes m r R' F K"
  by (rule makesI, rule does_post [OF makesD], assumption) simp

lemma block_makes:
  "makes (heap_PropertyBlock_deserialize empty_block_object img buf) (PropertyBlock_deserialize empty_block img buf)
     (\<lambda>(pb, n) (block, n') h. n' = n \<and> bo_block block = pb)
     (\<lambda>(block, n). PropertyBlock_destructor block) (\<lambda>(pb, n). length (m_proplist pb))"
  by (rule makes_weaken [OF heap_PropertyBlock_deserialize_makes]) auto

lemma does_block:
  assumes "\<And>block n. PropertyBlock_deserialize empty_block img buf = Inr (bo_block block, n) \<Longrightarrow>
    does h0 (\<lambda>h. made b h (as @ PropertyBlock_destructor block) (k + length (m_proplist (bo_block block))))
      (f block n) (s (bo_block block) n) Q"
  shows "does h0 (\<lambda>h. made b h as k)
    (run_bind (heap_PropertyBlock_deserialize empty_block_object img buf) (\<lambda>(block, n). f block n))
    (rbind (PropertyBlock_deserialize empty_block img buf) (\<lambda>(pb, n). s pb n)) Q"
  by (rule does_makes [OF block_makes], intro does_prods, clarsimp, intro does_when, clarify, rule assms)

definition heap_deserialize_child :: "(int \<Rightarrow> ('cls option) res) \<Rightarrow> ('cls \<Rightarrow> object)
    \<Rightarrow> ('cls \<Rightarrow> nat \<Rightarrow> image \<Rightarrow> int \<Rightarrow> ('x \<times> int, object) run) \<Rightarrow> image \<Rightarrow> int
    \<Rightarrow> (('x \<times> nat) option \<times> int, object) run" where
  "heap_deserialize_child child_factory new_object deserialize img buf =
     run_bind (run_lift (GET_INT32 img buf)) (\<lambda>w. let childtype = sint w in
     run_bind (run_lift (child_factory childtype)) (\<lambda>child.
       case child of
         Some c \<Rightarrow> run_bind (read_new (new_object c) (\<lambda>a. deserialize c a img buf)) (\<lambda>(x, a, n).
           run_lift (Inr (Some (x, a), n)))
       | None \<Rightarrow> run_lift (Inr (None, 4))))"

lemma heap_deserialize_child_cong [fundef_cong]:
  assumes "f = f'" and "g = g'" and "img = img'" and "buf = buf'" and "\<And>c a. d c a img' buf' = d' c a img' buf'"
  shows "heap_deserialize_child f g d img buf = heap_deserialize_child f' g' d' img' buf'"
  using assms by (simp add: heap_deserialize_child_def read_new_def cong: option.case_cong)

definition child_read :: "('x \<Rightarrow> nat \<Rightarrow> object heap \<Rightarrow> bool) \<Rightarrow> 'x option \<times> int \<Rightarrow> ('x \<times> nat) option \<times> int \<Rightarrow> object heap \<Rightarrow> bool" where
  "child_read R x y h \<longleftrightarrow> snd y = snd x \<and> map_option fst (fst y) = fst x
     \<and> (case fst y of None \<Rightarrow> True | Some (z, a) \<Rightarrow> R z a h)"

lemma heap_deserialize_child_makes:
  assumes "\<And>w c. GET_INT32 img buf = Inr w \<Longrightarrow> f (sint w) = Inr (Some c) \<Longrightarrow>
    fills (g c) (\<lambda>a. d' c a img buf) (d c img buf) R K"
  shows "makes (heap_deserialize_child f g d' img buf) (deserialize_child f d img buf) (child_read R)
    (\<lambda>(child, n). opt (map_option snd child)) (\<lambda>(child, n). case child of None \<Rightarrow> 0 | Some x \<Rightarrow> K x)"
  unfolding heap_deserialize_child_def deserialize_child_def Let_def
proof (rule makesI, intro does_lift_bind)
  fix h w child
  assume w: "GET_INT32 img buf = Inr w" "f (sint w) = Inr child"
  show "does h (\<lambda>h'. h' = h)
      (case child of None \<Rightarrow> run_lift (Inr (None, 4))
       | Some c \<Rightarrow> run_bind (read_new (g c) (\<lambda>a. d' c a img buf)) (\<lambda>(x, a, n). run_lift (Inr (Some (x, a), n))))
      (case child of None \<Rightarrow> Inr (None, 4) | Some c \<Rightarrow> rbind (d c img buf) (\<lambda>(ch, n). Inr (Some ch, n)))
      (\<lambda>x y h'. child_read R x y h' \<and> made h h' (case y of (child, n) \<Rightarrow> opt (map_option snd child))
         (case x of (child, n) \<Rightarrow> case child of None \<Rightarrow> 0 | Some x \<Rightarrow> K x))"
  proof (cases child)
    case None
    then show ?thesis
      by (auto simp: child_read_def opt_def made_none intro!: does_return)
  next
    case (Some c)
    have "makes (read_new (g c) (\<lambda>a. d' c a img buf)) (d c img buf)
        (\<lambda>(y, n) (z, a, n') h. n' = n \<and> z = y \<and> R y a h) (\<lambda>(y, a, n). [a]) (\<lambda>(y, n). K y)"
      using w Some by (intro makes_read_new assms) auto
    from makesD [OF this, of h] show ?thesis
      unfolding Some option.case
      by (rule does_bind) (auto simp: child_read_def opt_def intro!: does_return)
  qed
qed

lemma does_child_keeping:
  fixes step' :: "'x \<times> nat \<Rightarrow> int \<Rightarrow> ('y, object) run"
  assumes child: "makes (heap_deserialize_child f g d' img buf) (deserialize_child f d img buf) (child_read R)
      (\<lambda>(child, n). opt (map_option snd child)) (\<lambda>(child, n). case child of None \<Rightarrow> 0 | Some x \<Rightarrow> K x)"
    and I: "\<And>h g. I h \<Longrightarrow> I (h @ g)"
    and stop: "\<And>n. does h0 (\<lambda>h. I h \<and> made b h as k) (stop' n) (stop n) Q"
    and step: "\<And>x a n. deserialize_child f d img buf = Inr (Some x, n) \<Longrightarrow>
      does h0 (\<lambda>h. (I h \<and> R x a h) \<and> made b h (as @ [a]) (k + K x)) (step' (x, a) n) (step x n) Q"
  shows "does h0 (\<lambda>h. I h \<and> made b h as k)
    (run_bind (heap_deserialize_child f g d' img buf) (\<lambda>(child, n). case child of Some c \<Rightarrow> step' c n | None \<Rightarrow> stop' n))
    (rbind (deserialize_child f d img buf) (\<lambda>(child, n). case child of Some x \<Rightarrow> step x n | None \<Rightarrow> stop n)) Q"
proof (rule does_makes_keeping [OF child, where I = I])
  show "I (h @ g)" if "I h" for h g
    using that by (rule I)
next
  fix x :: "'x option \<times> int" and y :: "('x \<times> nat) option \<times> int"
  assume x: "deserialize_child f d img buf = Inr x"
  obtain r n c n' where xy: "x = (r, n)" "y = (c, n')"
    by (cases x; cases y)
  show "does h0 (\<lambda>h. I h \<and> child_read R x y h \<and> made b h (as @ (case y of (child, n) \<Rightarrow> opt (map_option snd child)))
        (k + (case x of (child, n) \<Rightarrow> case child of None \<Rightarrow> 0 | Some x \<Rightarrow> K x)))
      (case y of (child, n) \<Rightarrow> case child of Some c \<Rightarrow> step' c n | None \<Rightarrow> stop' n)
      (case x of (child, n) \<Rightarrow> case child of Some x \<Rightarrow> step x n | None \<Rightarrow> stop n) Q"
  proof (cases c)
    case None
    with stop [of n] show ?thesis
      by (auto simp: xy child_read_def opt_def does_def)
  next
    case (Some xa)
    with step [of "fst xa" n "snd xa"] x show ?thesis
      by (auto simp: xy child_read_def opt_def does_def)
  qed
qed

lemma does_child:
  assumes "makes (heap_deserialize_child f g d' img buf) (deserialize_child f d img buf) (child_read any)
      (\<lambda>(child, n). opt (map_option snd child)) (\<lambda>(child, n). case child of None \<Rightarrow> 0 | Some x \<Rightarrow> K x)"
    and "\<And>n. does h0 (\<lambda>h. made b h as k) (stop' n) (stop n) Q"
    and "\<And>x a n. deserialize_child f d img buf = Inr (Some x, n) \<Longrightarrow>
      does h0 (\<lambda>h. made b h (as @ [a]) (k + K x)) (step' (x, a) n) (step x n) Q"
  shows "does h0 (\<lambda>h. made b h as k)
    (run_bind (heap_deserialize_child f g d' img buf) (\<lambda>(child, n). case child of Some c \<Rightarrow> step' c n | None \<Rightarrow> stop' n))
    (rbind (deserialize_child f d img buf) (\<lambda>(child, n). case child of Some x \<Rightarrow> step x n | None \<Rightarrow> stop n)) Q"
  by (rule does_pre [OF does_child_keeping [OF assms(1), where I = "\<lambda>h. True"]]) (auto simp: assms(2,3))

lemma heap_deserialize_child_Inr:
  "heap_deserialize_child f g d img buf h = Some (Inr (child, n), h') \<longleftrightarrow>
     (\<exists>w c. GET_INT32 img buf = Inr w \<and> f (sint w) = Inr c \<and>
       (case c of None \<Rightarrow> child = None \<and> n = 4 \<and> h' = h
        | Some c \<Rightarrow> \<exists>x. child = Some (x, length h)
            \<and> d c (length h) img buf (h @ [Some (g c)]) = Some (Inr (x, n), h')))"
  by (auto simp: heap_deserialize_child_def read_new_def run_bind_eq_Some run_lift run_bind_new split: option.splits)

subsection \<open>Types\<close>

definition heap_DataTypeDef_fields :: "(nat \<Rightarrow> int \<Rightarrow> (structdef \<times> int, object) run) \<Rightarrow> nat \<Rightarrow> image \<Rightarrow> int
    \<Rightarrow> (datatypedef \<times> int, object) run" where
  "heap_DataTypeDef_fields structdef_deserialize a img startbuf =
     run_bind (run_lift (Chunk_deserialize 16 img startbuf)) (\<lambda>n. let buf = startbuf + n in
     run_bind (run_lift (GET_INT32 img buf)) (\<lambda>m_id. let buf = buf + 4 in
     run_bind (run_lift (String_deserialize img buf)) (\<lambda>(m_name, n). let buf = buf + n in
     run_bind (run_lift (GET_INT32 img buf)) (\<lambda>arraytype. let buf = buf + 4 in
     run_bind (run_lift (GET_INT32 img buf)) (\<lambda>w. let m_datatypeid = sint w; buf = buf + 4 in
     run_bind (if m_datatypeid = 16
            then run_bind (read_new (StructDefObject []) (\<lambda>a. structdef_deserialize a buf)) (\<lambda>(sd, a, n).
                 run_lift (Inr (Some (sd, a), sd_datasize sd, buf + n)))
            else run_bind (run_lift (psfdata_size m_datatypeid)) (\<lambda>size. run_lift (Inr (None, size, buf))))
       (\<lambda>(m_structdef, datasize, buf).
     run_bind (heap_PropertyBlock_deserialize empty_block_object img buf) (\<lambda>(m_properties, n). let buf = buf + n in
     run_bind (run_set a (DataTypeDefObject (map_option snd m_structdef) m_properties)) (\<lambda>u.
     run_lift (Inr (DataTypeDef (sint m_id) m_name m_datatypeid (bo_block m_properties) (map_option fst m_structdef)
       datasize, buf - startbuf))))))))))"

lemma heap_PropertyBlock_deserialize_Inr:
  "heap_PropertyBlock_deserialize empty_block_object img buf h = Some (Inr (block, n), h') \<Longrightarrow>
     PropertyBlock_deserialize empty_block img buf = Inr (bo_block block, n)"
  by (erule does_Inr [OF makesD [OF heap_PropertyBlock_deserialize_makes]]) auto

lemma heap_DataTypeDef_fields_Inr:
  assumes "heap_DataTypeDef_fields sr a img buf h = Some (Inr (td, n), h')"
  shows "0 \<le> buf \<and> buf + n + 4 \<le> int (length img) \<and> 4 \<le> n \<or>
    (\<exists>s b h1 sd k h2. 0 \<le> buf \<and> buf + 20 \<le> b \<and> b \<le> int (length img) \<and> sr s b h1 = Some (Inr (sd, k), h2)
       \<and> b + k \<le> buf + n \<and> buf + n + 4 \<le> int (length img))"
  using assms
  apply (auto simp: heap_DataTypeDef_fields_def read_new_def run_bind_eq_Some run_lift run_bind_new Let_def res_simps
      dest!: GET_INT32_bounds String_deserialize_progress heap_PropertyBlock_deserialize_Inr PropertyBlock_deserialize_progress
      split: if_splits)
  subgoal for ident name s w h1 sd block p h2 k
    by (drule spec [of _ "length h"], drule spec [of _ "16 + (buf + s)"], erule impE, simp, erule impE, simp,
      drule spec [of _ "h @ [Some (StructDefObject [])]"], drule spec [of _ sd], drule spec [of _ k]) auto
  done

lemma heap_DataTypeDef_fields_cong [fundef_cong]:
  assumes "a = a'" and "img = img'" and "buf = buf'"
    and "\<And>s b. 0 \<le> buf' \<Longrightarrow> buf' + 20 \<le> b \<Longrightarrow> b \<le> int (length img') \<Longrightarrow> sr s b = sr' s b"
  shows "heap_DataTypeDef_fields sr a img buf = heap_DataTypeDef_fields sr' a' img' buf'"
  unfolding heap_DataTypeDef_fields_def assms(1-3) Let_def read_new_def
  by (intro run_bind_cong if_cong refl prod.case_cong)
    (auto simp: run_lift res_simps dest!: GET_INT32_bounds String_deserialize_progress intro!: assms(4) run_bind_cong)

abbreviation new_DataTypeDef :: object where
  "new_DataTypeDef \<equiv> DataTypeDefObject None empty_block_object"

declare run_bind_cong [fundef_cong]

function heap_DataTypeDef_deserialize :: "nat \<Rightarrow> image \<Rightarrow> int \<Rightarrow> (datatypedef \<times> int, object) run"
  and heap_StructDef_deserialize :: "nat \<Rightarrow> image \<Rightarrow> int \<Rightarrow> (structdef \<times> int, object) run"
  and heap_StructDef_loop :: "image \<Rightarrow> (datatypedef \<times> nat) list \<Rightarrow> int \<Rightarrow> int
     \<Rightarrow> ((datatypedef \<times> nat) list \<times> int \<times> int, object) run"
where
  "heap_DataTypeDef_deserialize a img startbuf =
     heap_DataTypeDef_fields (\<lambda>s buf. heap_StructDef_deserialize s img buf) a img startbuf"
| "heap_StructDef_deserialize a img startbuf =
     run_bind (heap_StructDef_loop img [] 0 startbuf) (\<lambda>(children, datasize, buf).
     run_bind (run_set a (StructDefObject (map snd children))) (\<lambda>u.
     run_lift (Inr (StructDef (map fst children) datasize, buf - startbuf))))"
| "heap_StructDef_loop img children datasize buf =
     run_bind (heap_deserialize_child StructDef_child_factory (\<lambda>_. new_DataTypeDef)
         (\<lambda>_ a img buf. heap_DataTypeDef_deserialize a img buf) img buf) (\<lambda>(child, n).
     case child of
       Some td \<Rightarrow> run_bind (run_lift (c_int (datasize + td_datasize (fst td)))) (\<lambda>datasize.
         heap_StructDef_loop img (children @ [td]) datasize (buf + n))
     | None \<Rightarrow> run_lift (Inr (children, datasize, buf + n)))"
  by pat_completeness auto

declare run_bind_cong [fundef_cong del]

abbreviation heap_typedef_dom where
  "heap_typedef_dom \<equiv> heap_DataTypeDef_deserialize_heap_StructDef_deserialize_heap_StructDef_loop_dom"

lemma heap_DataTypeDef_partial_progress:
  "heap_typedef_dom (Inl (a, img, buf)) \<Longrightarrow> heap_DataTypeDef_deserialize a img buf h = Some (Inr (td, n), h') \<Longrightarrow>
     4 \<le> n \<and> 0 \<le> buf \<and> buf + n + 4 \<le> int (length img)"
  and heap_StructDef_partial_progress:
  "heap_typedef_dom (Inr (Inl (a, img, buf))) \<Longrightarrow> heap_StructDef_deserialize a img buf h = Some (Inr (sd, n), h') \<Longrightarrow>
     4 \<le> n \<and> 0 \<le> buf \<and> buf + n \<le> int (length img)"
  and heap_StructDef_loop_partial_progress:
  "heap_typedef_dom (Inr (Inr (img, children, datasize, buf))) \<Longrightarrow>
     heap_StructDef_loop img children datasize buf h = Some (Inr (children', datasize', endbuf), h') \<Longrightarrow>
       buf + 4 \<le> endbuf \<and> 0 \<le> buf \<and> endbuf \<le> int (length img)"
proof (induct a img buf and a img buf and img children datasize buf
    arbitrary: td n h h' and sd n h h' and children' datasize' endbuf h h'
    rule: heap_DataTypeDef_deserialize_heap_StructDef_deserialize_heap_StructDef_loop.pinduct)
  case (1 a img buf)
  from "1.prems" show ?case
    unfolding heap_DataTypeDef_deserialize.psimps [OF "1.hyps"(1)]
    by (auto dest!: heap_DataTypeDef_fields_Inr "1.hyps"(2) [rotated 3])
next
  case (2 a img buf)
  from "2.prems" show ?case
    unfolding heap_StructDef_deserialize.psimps [OF "2.hyps"(1)]
    by (auto simp: run_bind_eq_Some run_lift dest!: "2.hyps"(2))
next
  case (3 img children datasize buf)
  from "3.prems" obtain child n h1 where turn: "heap_deserialize_child StructDef_child_factory (\<lambda>_. new_DataTypeDef)
      (\<lambda>_ a img buf. heap_DataTypeDef_deserialize a img buf) img buf h = Some (Inr (child, n), h1)"
    and rest: "(case child of
       Some td \<Rightarrow> run_bind (run_lift (c_int (datasize + td_datasize (fst td)))) (\<lambda>datasize.
         heap_StructDef_loop img (children @ [td]) datasize (buf + n))
     | None \<Rightarrow> run_lift (Inr (children, datasize, buf + n))) h1 = Some (Inr (children', datasize', endbuf), h')"
    unfolding heap_StructDef_loop.psimps [OF "3.hyps"(1)] by (auto simp: run_bind_eq_Some)
  show ?case
  proof (cases child)
    case None
    with turn rest show ?thesis
      by (auto simp: heap_deserialize_child_Inr run_lift dest: GET_INT32_bounds split: option.splits)
  next
    case (Some td)
    with turn obtain x where "heap_DataTypeDef_deserialize (length h) img buf (h @ [Some new_DataTypeDef]) = Some (Inr (x, n), h1)"
      by (auto simp: heap_deserialize_child_Inr split: option.splits)
    then have "4 \<le> n \<and> 0 \<le> buf"
      by (auto dest: "3.hyps"(2))
    moreover have "buf + n + 4 \<le> endbuf \<and> endbuf \<le> int (length img)"
      using rest "3.hyps"(3) [OF turn refl Some] Some by (auto simp: run_bind_eq_Some run_lift)
    ultimately show ?thesis by simp
  qed
qed

lemma heap_typedef_dom_all: "All heap_typedef_dom"
proof (relation "measure (\<lambda>x. case x of
    Inl (a, img, buf) \<Rightarrow> 3 * nat (int (length img) - buf)
  | Inr (Inl (a, img, buf)) \<Rightarrow> 3 * nat (int (length img) - buf) + 2
  | Inr (Inr (img, children, datasize, buf)) \<Rightarrow> 3 * nat (int (length img) - buf) + 1)")
qed (auto simp: heap_deserialize_child_Inr dest!: heap_DataTypeDef_partial_progress [rotated] split: option.splits)

termination heap_DataTypeDef_deserialize
  by (rule heap_typedef_dom_all)

declare heap_DataTypeDef_deserialize.simps [simp del] heap_StructDef_deserialize.simps [simp del]
  heap_StructDef_loop.simps [simp del]

text \<open>The types do as the model says, and a type owns all that was made but the scalars of the maps.\<close>

lemma structdef_makes:
  assumes "\<And>b. b = buf \<Longrightarrow> fills (StructDefObject []) (\<lambda>s. sr s b) (sr' b) any K"
  shows "makes (if t = (16 :: int)
      then run_bind (read_new (StructDefObject []) (\<lambda>a. sr a buf)) (\<lambda>(sd, a, n).
           run_lift (Inr (Some (sd, a), sd_datasize sd, buf + n)))
      else run_bind (run_lift (psfdata_size t)) (\<lambda>size. run_lift (Inr (None, size, buf))))
    (if t = 16 then rbind (sr' buf) (\<lambda>(sd, n). Inr (Some sd, sd_datasize sd, buf + n))
     else rbind (psfdata_size t) (\<lambda>size. Inr (None, size, buf)))
    (\<lambda>(sd, s, b) (sd', s', b') h. s' = s \<and> b' = b \<and> map_option fst sd' = sd)
    (\<lambda>(sd, s, b). opt (map_option snd sd)) (\<lambda>(sd, s, b). case sd of None \<Rightarrow> 0 | Some sd \<Rightarrow> K sd)"
proof (rule makesI, rule does_if)
  fix h
  show "does h (\<lambda>h'. h' = h) (run_bind (read_new (StructDefObject []) (\<lambda>a. sr a buf)) (\<lambda>(sd, a, n).
           run_lift (Inr (Some (sd, a), sd_datasize sd, buf + n))))
      (rbind (sr' buf) (\<lambda>(sd, n). Inr (Some sd, sd_datasize sd, buf + n)))
      (\<lambda>x y h'. (case x of (sd, s, b) \<Rightarrow> \<lambda>(sd', s', b') h. s' = s \<and> b' = b \<and> map_option fst sd' = sd) y h'
        \<and> made h h' (case y of (sd, s, b) \<Rightarrow> opt (map_option snd sd))
            (case x of (sd, s, b) \<Rightarrow> case sd of None \<Rightarrow> 0 | Some sd \<Rightarrow> K sd))"
    by (rule does_bind [OF makesD [OF makes_read_new [OF assms [OF refl]]]]) (auto simp: opt_def intro!: does_return)
  show "does h (\<lambda>h'. h' = h) (run_bind (run_lift (psfdata_size t)) (\<lambda>size. run_lift (Inr (None, size, buf))))
      (rbind (psfdata_size t) (\<lambda>size. Inr (None, size, buf)))
      (\<lambda>x y h'. (case x of (sd, s, b) \<Rightarrow> \<lambda>(sd', s', b') h. s' = s \<and> b' = b \<and> map_option fst sd' = sd) y h'
        \<and> made h h' (case y of (sd, s, b) \<Rightarrow> opt (map_option snd sd))
            (case x of (sd, s, b) \<Rightarrow> case sd of None \<Rightarrow> 0 | Some sd \<Rightarrow> K sd))"
    by (rule does_lift_bind) (auto simp: opt_def made_none intro!: does_return)
qed

lemma heap_DataTypeDef_fields_fills:
  assumes "\<And>b. 0 \<le> buf \<Longrightarrow> buf + 20 \<le> b \<Longrightarrow> b \<le> int (length img) \<Longrightarrow>
    fills (StructDefObject []) (\<lambda>s. sr s b) (sr' b) any (\<lambda>sd. properties_in (typedefs_blocks (sd_children sd)))"
  shows "fills new_DataTypeDef (\<lambda>a. heap_DataTypeDef_fields sr a img buf) (DataTypeDef_fields sr' img buf) any
    (\<lambda>td. properties_in (typedef_blocks td))"
  unfolding heap_DataTypeDef_fields_def DataTypeDef_fields_def Let_def
  apply (rule fills_anyI, intro does_lift_bind does_prod, rule does_makes, rule structdef_makes, rule assms)
  subgoal by (auto simp: res_simps dest!: GET_INT32_bounds String_deserialize_progress)
  subgoal by (auto simp: res_simps dest!: GET_INT32_bounds String_deserialize_progress)
  subgoal by (auto simp: res_simps dest!: GET_INT32_bounds String_deserialize_progress)
  apply (intro does_prods, clarsimp, intro does_when, clarify)
  apply (rule does_block, rule does_filled)
  subgoal by (simp add: destructor_def DataTypeDef_destructor_def)
  subgoal by (simp add: typedef_blocks_eq typedefs_blocks_concat split: option.split)
  done

lemma heap_StructDef_child_fills:
  assumes "\<And>w. GET_INT32 img buf = Inr w \<Longrightarrow> StructDef_child_factory (sint w) = Inr (Some ()) \<Longrightarrow>
    fills new_DataTypeDef (\<lambda>a. heap_DataTypeDef_deserialize a img buf) (DataTypeDef_deserialize img buf) any
      (\<lambda>td. properties_in (typedef_blocks td))"
  shows "makes (heap_deserialize_child StructDef_child_factory (\<lambda>_. new_DataTypeDef)
      (\<lambda>_ a img buf. heap_DataTypeDef_deserialize a img buf) img buf)
    (deserialize_child StructDef_child_factory (\<lambda>_ img buf. DataTypeDef_deserialize img buf) img buf) (child_read any)
    (\<lambda>(child, n). opt (map_option snd child)) (\<lambda>(child, n). case child of None \<Rightarrow> 0 | Some td \<Rightarrow> properties_in (typedef_blocks td))"
  by (rule heap_deserialize_child_makes) (use assms in auto)

lemma heap_DataTypeDef_deserialize_fills:
  "fills new_DataTypeDef (\<lambda>a. heap_DataTypeDef_deserialize a img buf) (DataTypeDef_deserialize img buf) any
     (\<lambda>td. properties_in (typedef_blocks td))"
  and heap_StructDef_deserialize_fills:
  "fills (StructDefObject []) (\<lambda>a. heap_StructDef_deserialize a img buf) (StructDef_deserialize img buf) any
     (\<lambda>sd. properties_in (typedefs_blocks (sd_children sd)))"
  and heap_StructDef_loop_does:
  "children = map fst cs \<Longrightarrow>
     does h0 (\<lambda>h. made b h (map snd cs) (properties_in (typedefs_blocks children)))
       (heap_StructDef_loop img cs datasize buf) (StructDef_loop img children datasize buf)
       (\<lambda>(sd, e) (cs, n, e') h. e' = e \<and> sd = StructDef (map fst cs) n
          \<and> made b h (map snd cs) (properties_in (typedefs_blocks (map fst cs))))"
proof (induct img buf and img buf and img children datasize buf
    arbitrary: and and cs h0 b
    rule: DataTypeDef_deserialize_StructDef_deserialize_StructDef_loop.induct)
  case (1 img buf)
  then show ?case
    unfolding heap_DataTypeDef_deserialize.simps DataTypeDef_deserialize.simps by (rule heap_DataTypeDef_fields_fills)
next
  case (2 img buf)
  show ?case
    unfolding heap_StructDef_deserialize.simps StructDef_deserialize.simps
  proof (rule fills_anyI, rule does_bind)
    fix h
    show "does h (\<lambda>h'. made (h @ [Some (StructDefObject [])]) h' [] 0) (heap_StructDef_loop img [] 0 buf)
      (StructDef_loop img [] 0 buf)
      (\<lambda>(sd, e) (cs, n, e') h'. e' = e \<and> sd = StructDef (map fst cs) n
          \<and> made (h @ [Some (StructDefObject [])]) h' (map snd cs) (properties_in (typedefs_blocks (map fst cs))))"
      using "2.hyps" [of "[]"] by simp
    fix x y
    show "does h ((case x of (sd, e) \<Rightarrow> \<lambda>(cs, n, e') h'. e' = e \<and> sd = StructDef (map fst cs) n
          \<and> made (h @ [Some (StructDefObject [])]) h' (map snd cs) (properties_in (typedefs_blocks (map fst cs)))) y)
        (case y of (children, datasize, e) \<Rightarrow> run_bind (run_set (length h) (StructDefObject (map snd children))) (\<lambda>u.
          run_lift (Inr (StructDef (map fst children) datasize, e - buf))))
        (case x of (sd, e) \<Rightarrow> Inr (sd, e - buf))
        (\<lambda>y z h'. z = y \<and> made h h' [length h] (properties_in (typedefs_blocks (sd_children (fst y)))))"
      by (cases x; cases y) (clarsimp, intro does_when, clarify,
        rule does_filled, simp_all add: destructor_def Container_destructor_def)
  qed
next
  case (3 img children datasize buf)
  let ?Q = "\<lambda>(sd, e) (cs, n, e') h. e' = e \<and> sd = StructDef (map fst cs) n
    \<and> made b h (map snd cs) (properties_in (typedefs_blocks (map fst cs)))"
  show ?case
    unfolding heap_StructDef_loop.simps [of img cs] StructDef_loop.simps [of img children]
  proof (rule does_child [OF heap_StructDef_child_fills])
    show "fills new_DataTypeDef (\<lambda>a. heap_DataTypeDef_deserialize a img buf) (DataTypeDef_deserialize img buf) any
      (\<lambda>td. properties_in (typedef_blocks td))"
      by (rule "3.hyps"(1))
  next
    fix td a n
    assume "deserialize_child StructDef_child_factory (\<lambda>_ img buf. DataTypeDef_deserialize img buf) img buf = Inr (Some td, n)"
    note IH = "3.hyps"(2) [OF this refl refl, where cs = "cs @ [(td, a)]"]
    show "does h0 (\<lambda>h. made b h (map snd cs @ [a]) (properties_in (typedefs_blocks children) + properties_in (typedef_blocks td)))
      (run_bind (run_lift (c_int (datasize + td_datasize (fst (td, a))))) (\<lambda>datasize.
         heap_StructDef_loop img (cs @ [(td, a)]) datasize (buf + n)))
      (rbind (c_int (datasize + td_datasize td)) (\<lambda>datasize. StructDef_loop img (children @ [td]) datasize (buf + n))) ?Q"
      using IH "3.prems" by (auto simp: typedefs_blocks_concat intro!: does_lift_bind)
  qed (use "3.prems" in \<open>auto intro!: does_return\<close>)
qed

subsection \<open>References, groups and values\<close>

abbreviation new_DataTypeRef :: object where
  "new_DataTypeRef \<equiv> DataTypeRefObject empty_block_object"

definition heap_DataTypeRef_deserialize :: "nat \<Rightarrow> image \<Rightarrow> int \<Rightarrow> (datatyperef \<times> int, object) run" where
  "heap_DataTypeRef_deserialize a img startbuf =
     run_bind (run_lift (Chunk_deserialize 16 img startbuf)) (\<lambda>n. let buf = startbuf + n in
     run_bind (run_lift (GET_INT32 img buf)) (\<lambda>m_id. let buf = buf + 4 in
     run_bind (run_lift (String_deserialize img buf)) (\<lambda>(m_name, n). let buf = buf + n in
     run_bind (run_lift (GET_INT32 img buf)) (\<lambda>m_datatypeid. let buf = buf + 4 in
     run_bind (heap_PropertyBlock_deserialize empty_block_object img buf) (\<lambda>(m_properties, n). let buf = buf + n in
     run_bind (run_set a (DataTypeRefObject m_properties)) (\<lambda>u.
     run_lift (Inr (\<lparr>tr_id = sint m_id, tr_name = m_name, tr_datatypeid = sint m_datatypeid,
       tr_properties = bo_block m_properties\<rparr>, buf - startbuf))))))))"

lemma heap_DataTypeRef_deserialize_fills:
  "fills new_DataTypeRef (\<lambda>a. heap_DataTypeRef_deserialize a img buf) (DataTypeRef_deserialize img buf) any
     (\<lambda>ref. length (m_proplist (tr_properties ref)))"
  unfolding heap_DataTypeRef_deserialize_def DataTypeRef_deserialize_def Let_def
  apply (rule fills_anyI, intro does_lift_bind does_prod)
  apply (rule does_block, rule does_filled)
  subgoal by (simp add: destructor_def)
  subgoal by simp
  done

text \<open>The loop of a group makes the children that it was told of, and enters their names.\<close>

fun heap_GroupDef_loop :: "image \<Rightarrow> nat \<Rightarrow> int \<Rightarrow> (datatyperef \<times> nat) list \<Rightarrow> (string, int) stdmap \<Rightarrow> int
    \<Rightarrow> ((datatyperef \<times> nat) list \<times> (string, int) stdmap \<times> int, object) run" where
  "heap_GroupDef_loop img 0 i children m_namemap buf = run_lift (Inr (children, m_namemap, buf))"
| "heap_GroupDef_loop img (Suc k) i children m_namemap buf =
     run_bind (heap_deserialize_child GroupDef_child_factory (\<lambda>_. new_DataTypeRef)
         (\<lambda>_ a img buf. heap_DataTypeRef_deserialize a img buf) img buf) (\<lambda>(child, n).
     case child of
       Some ref \<Rightarrow> heap_GroupDef_loop img k (i + 1) (children @ [ref]) (map_put (tr_name (fst ref)) i m_namemap) (buf + n)
     | None \<Rightarrow> run_lift (Inl (Undefined NullPointer)))"

definition heap_GroupDef_deserialize :: "nat \<Rightarrow> image \<Rightarrow> int \<Rightarrow> (groupdef \<times> int, object) run" where
  "heap_GroupDef_deserialize a img startbuf =
     run_bind (run_lift (Chunk_deserialize 17 img startbuf)) (\<lambda>n. let buf = startbuf + n in
     run_bind (run_lift (GET_INT32 img buf)) (\<lambda>m_id. let buf = buf + 4 in
     run_bind (run_lift (String_deserialize img buf)) (\<lambda>(m_name, n). let buf = buf + n in
     run_bind (run_lift (GET_INT32 img buf)) (\<lambda>w. let m_nchildren = sint w; buf = buf + 4 in
     run_bind (heap_GroupDef_loop img (nat m_nchildren) 0 [] [] buf) (\<lambda>(children, m_namemap, buf).
     run_bind (run_set a (GroupDefObject (map snd children))) (\<lambda>u.
     run_lift (Inr (\<lparr>gd_id = sint m_id, gd_name = m_name, gd_nchildren = m_nchildren, gd_children = map fst children,
       gd_indexmap = create_valueindexmap (map fst children), gd_namemap = m_namemap\<rparr>, buf - startbuf))))))))"

lemma heap_GroupDef_loop_does:
  "children = map fst cs \<Longrightarrow>
     does h0 (\<lambda>h. made b h (map snd cs) (properties_in (map tr_properties children)))
       (heap_GroupDef_loop img k i cs m buf) (GroupDef_loop img k i children m buf)
       (\<lambda>(children, m, e) (cs, m', e') h. m' = m \<and> e' = e \<and> children = map fst cs
          \<and> made b h (map snd cs) (properties_in (map tr_properties children)))"
proof (induction k arbitrary: i children cs m buf)
  case 0
  then show ?case by (auto intro!: does_return)
next
  case (Suc k)
  show ?case
    unfolding heap_GroupDef_loop.simps GroupDef_loop.simps
  proof (rule does_child [OF heap_deserialize_child_makes [OF heap_DataTypeRef_deserialize_fills]])
    fix ref a n
    show "does h0 (\<lambda>h. made b h (map snd cs @ [a])
          (properties_in (map tr_properties children) + length (m_proplist (tr_properties ref))))
        (heap_GroupDef_loop img k (i + 1) (cs @ [(ref, a)]) (map_put (tr_name (fst (ref, a))) i m) (buf + n))
        (GroupDef_loop img k (i + 1) (children @ [ref]) (map_put (tr_name ref) i m) (buf + n))
        (\<lambda>(children, m, e) (cs, m', e') h. m' = m \<and> e' = e \<and> children = map fst cs
          \<and> made b h (map snd cs) (properties_in (map tr_properties children)))"
      using Suc.IH [of "children @ [ref]" "cs @ [(ref, a)]"] Suc.prems by simp
  qed (rule does_error)
qed

lemma heap_GroupDef_deserialize_fills:
  "fills (GroupDefObject []) (\<lambda>a. heap_GroupDef_deserialize a img buf) (GroupDef_deserialize img buf) any
     (\<lambda>g. properties_in (map tr_properties (gd_children g)))"
  unfolding heap_GroupDef_deserialize_def GroupDef_deserialize_def Let_def
  apply (rule fills_anyI, intro does_lift_bind does_prod)
  apply (rule does_bind, rule does_pre, rule heap_GroupDef_loop_does [where cs = "[]"])
    apply simp
   apply simp
  apply (intro does_prods, clarsimp, intro does_when, clarify)
  apply (rule does_filled)
  subgoal by (simp add: destructor_def Container_destructor_def)
  subgoal by simp
  done

text \<open>
  A value: the scalar is made by \<open>new_scalar\<close>, and \<open>deserialize_data\<close> reads into it. The value that comes
  with its address is read through its pointers when they are there.
\<close>

definition heap_deserialize_data :: "datatypedef \<Rightarrow> cell \<Rightarrow> image \<Rightarrow> int \<Rightarrow> (cell \<times> int, object) run" where
  "heap_deserialize_data td data img buf = (let t = td_datatypeid td in
     if t \<notin> {TYPEID_INT8, TYPEID_INT32, TYPEID_DOUBLE, TYPEID_COMPLEXDOUBLE, TYPEID_STRUCT}
     then run_lift (Inl (Throw (UnknownType t)))
     else if cell_typeid data \<noteq> t then run_lift (Inl (Undefined WrongType))
     else case data of
       Plain v \<Rightarrow> run_bind (run_lift (DataTypeDef_deserialize_data td v img buf)) (\<lambda>(v, n). run_lift (Inr (Plain v, n)))
     | Pointers sd ps \<Rightarrow> read_cell img buf (Pointers sd ps))"

definition heap_read_scalar :: "datatypedef \<Rightarrow> image \<Rightarrow> int \<Rightarrow> (scalar \<times> nat \<times> int, object) run" where
  "heap_read_scalar def img buf =
     run_bind (run_lift (new_scalar def)) (\<lambda>v.
     run_bind (run_new (ScalarObject (cell_of v))) (\<lambda>m_value.
     run_bind (heap_deserialize_data def (cell_of v) img buf) (\<lambda>(c, n).
     run_bind (run_set m_value (ScalarObject c)) (\<lambda>u.
     run_bind (run_read (\<lambda>h. cell_scalar (length h) h c)) (\<lambda>v.
     run_lift (Inr (v, m_value, n)))))))"

lemma new_scalar_plain:
  assumes "new_scalar td = Inr v" and "scalar_typeid v \<noteq> TYPEID_STRUCT"
  shows "td_datatypeid td \<noteq> TYPEID_STRUCT" and "type_members td = 0" and "cell_of v = Plain v"
    and "td_datatypeid td \<in> {TYPEID_INT8, TYPEID_INT32, TYPEID_DOUBLE, TYPEID_COMPLEXDOUBLE, TYPEID_STRUCT}"
    and "scalar_typeid v = td_datatypeid td"
proof -
  show "td_datatypeid td \<noteq> TYPEID_STRUCT"
    "td_datatypeid td \<in> {TYPEID_INT8, TYPEID_INT32, TYPEID_DOUBLE, TYPEID_COMPLEXDOUBLE, TYPEID_STRUCT}"
    "scalar_typeid v = td_datatypeid td"
    using assms by (auto simp: new_scalar_def Let_def typeid_defs split: if_splits)
  then show "type_members td = 0"
    using assms(2) by (cases td rule: type_members.cases) auto
  show "cell_of v = Plain v"
    by (rule cell_of_plain [OF assms(2)])
qed

lemma heap_deserialize_data_does:
  assumes v: "new_scalar td = Inr v"
  shows "does h (\<lambda>h'. h' = h) (heap_deserialize_data td (cell_of v) img buf) (DataTypeDef_deserialize_data td v img buf)
    (\<lambda>(v, n) (c, n') h'. n' = n \<and> (\<exists>g B. h' = h @ g \<and> owns_cell h' c v B \<and> set B \<subseteq> fresh h h'
       \<and> live_count g = type_members td))"
proof (cases "scalar_typeid v = TYPEID_STRUCT")
  case False
  note plain = new_scalar_plain [OF v False]
  have data: "heap_deserialize_data td (cell_of v) img buf
      = run_bind (run_lift (DataTypeDef_deserialize_data td v img buf)) (\<lambda>(v, n). run_lift (Inr (Plain v, n)))"
    using plain(4,5) by (auto simp: heap_deserialize_data_def plain(3) cell_typeid_def Let_def)
  have typed: "scalar_typeid w \<noteq> TYPEID_STRUCT" if "DataTypeDef_deserialize_data td v img buf = Inr (w, n)" for w n
    using that plain(1,5) False
    by (auto simp: DataTypeDef_deserialize_data_def Let_def res_simps typeid_defs split: if_splits scalar.splits)
  have "does h (\<lambda>h'. h' = h)
      (run_bind (run_lift (DataTypeDef_deserialize_data td v img buf)) (\<lambda>(v, n). run_lift (Inr (Plain v, n))))
      (rbind (DataTypeDef_deserialize_data td v img buf) Inr)
      (\<lambda>(v, n) (c, n') h'. n' = n \<and> (\<exists>g B. h' = h @ g \<and> owns_cell h' c v B \<and> set B \<subseteq> fresh h h'
         \<and> live_count g = type_members td))"
    by (rule does_lift_bind) (auto simp: plain(2) intro!: does_return exI [of _ "[]"] owns_plain typed)
  moreover have "rbind (DataTypeDef_deserialize_data td v img buf) Inr = DataTypeDef_deserialize_data td v img buf"
    by (cases "DataTypeDef_deserialize_data td v img buf") simp_all
  ultimately show ?thesis
    by (simp add: data)
next
  case True
  then obtain s where s: "v = StructScalar s" "td_datatypeid td = TYPEID_STRUCT"
    using v by (auto simp: new_scalar_def Let_def typeid_defs split: if_splits)
  from read_cell_does(1) [OF v, of h img buf] show ?thesis
    using s by (simp add: heap_deserialize_data_def cell_typeid_def cell_of_def DataTypeDef_deserialize_data_struct)
qed

text \<open>At least the objects that are owned are live.\<close>

lemma live_count_least:
  assumes "distinct A" and "set A \<subseteq> heap.live (h @ g)" and "set A \<subseteq> {length h ..< length (h @ g)}"
  shows "length A \<le> live_count g"
proof -
  let ?h = "replicate (length h) None @ g"
  have "lookup ?h a = lookup (h @ g) a" if "length h \<le> a" for a
    using that by (simp add: lookup_append)
  then have "set A \<subseteq> heap.live ?h"
    using assms(2,3) by (force simp: heap.live_def)
  from live_count_release_all [OF assms(1) this] show ?thesis
    by (simp add: live_count_def)
qed

lemma scalar_stored:
  assumes "owns_cell ((h @ [Some x]) @ g) c v B" and "set B \<subseteq> fresh (h @ [Some x]) ((h @ [Some x]) @ g)"
  defines "h' \<equiv> h @ Some (ScalarObject c) # g"
  shows "cell_scalar (length h') h' c = Some (Inr v)" and "made h h' [length h] (live_count g - value_members v)"
proof -
  have "lookup h' a = lookup ((h @ [Some x]) @ g) a" if "a \<noteq> length h" for a
    using that by (auto simp: h'_def lookup_def nth_append nth_Cons split: nat.split)
  moreover have new: "length h \<notin> set B"
    using assms(2) by (auto simp: fresh_def)
  ultimately have c: "owns_cell h' c v B"
    by (intro owns_frame(1) [OF assms(1)]) metis
  have "length B \<le> live_count g"
    using owns_distinct(1) [OF assms(1)] owns_live(1) [OF assms(1)] assms(2)
    by (intro live_count_least [of B "h @ [Some x]"]) (auto simp: fresh_def)
  moreover have "length B = value_members v"
    by (rule owns_cell_length(1) [OF c])
  moreover have "length B \<le> length g"
    using calculation(1) unfolding live_count_def by (rule le_trans) (rule length_filter_le)
  ultimately show "cell_scalar (length h') h' c = Some (Inr v)"
    by (intro cell_scalar_owned(1) [OF c]) (simp add: h'_def)
  have "lookup h' (length h) = Some (ScalarObject c)"
    by (simp add: h'_def lookup_def nth_append)
  moreover have "owned destructor h' (destructor (ScalarObject c)) B"
    using owns_cell_owned(1) [OF c] by (simp add: destructor_def)
  ultimately have "owned destructor h' [length h] (length h # B)"
    using owned_one [OF _ _ owned_none, of h' "length h" "ScalarObject c" destructor B] new owns_distinct(1) [OF c] by simp
  then show "made h h' [length h] (live_count g - value_members v)"
    unfolding made_def using assms(2) \<open>length B \<le> live_count g\<close> \<open>length B = value_members v\<close>
    by (intro exI [of _ "Some (ScalarObject c) # g"] exI [of _ "length h # B"]) (auto simp: h'_def fresh_def)
qed

lemma heap_read_scalar_makes:
  "makes (heap_read_scalar def img buf)
     (rbind (new_scalar def) (\<lambda>v. DataTypeDef_deserialize_data def v img buf))
     (\<lambda>(v, n) (w, a, n') h. n' = n \<and> w = v) (\<lambda>(v, a, n). [a]) (\<lambda>(v, n). type_members def - value_members v)"
  unfolding heap_read_scalar_def
proof (rule makesI, rule does_lift_bind)
  fix h v
  assume v: "new_scalar def = Inr v"
  let ?Q = "\<lambda>x y h'. (case x of (v, n) \<Rightarrow> \<lambda>(w, a, n') h. n' = n \<and> w = v) y h'
    \<and> made h h' (case y of (v, a, n) \<Rightarrow> [a]) (case x of (v, n) \<Rightarrow> type_members def - value_members v)"
  show "does h (\<lambda>h'. h' = h)
      (run_bind (run_new (ScalarObject (cell_of v))) (\<lambda>m_value.
       run_bind (heap_deserialize_data def (cell_of v) img buf) (\<lambda>(c, n).
       run_bind (run_set m_value (ScalarObject c)) (\<lambda>u.
       run_bind (run_read (\<lambda>h. cell_scalar (length h) h c)) (\<lambda>v. run_lift (Inr (v, m_value, n)))))))
      (DataTypeDef_deserialize_data def v img buf) ?Q"
  proof (rule doesI)
    fix h'
    assume h': "h' = h"
    let ?h = "h @ [Some (ScalarObject (cell_of v))]" and ?r = "DataTypeDef_deserialize_data def v img buf"
    obtain y h1 where y: "heap_deserialize_data def (cell_of v) img buf ?h = Some (y, h1)" "prefix ?h h1"
      and r: "ends ?r (\<lambda>(v, n) (c, n') h'. n' = n \<and> (\<exists>g B. h' = ?h @ g \<and> owns_cell h' c v B \<and> set B \<subseteq> fresh ?h h'
         \<and> live_count g = type_members def)) y h1"
      using heap_deserialize_data_does [OF v] refl prefix_order.refl by (rule doesE)
    show "\<exists>y h''. run_bind (run_new (ScalarObject (cell_of v))) (\<lambda>m_value.
       run_bind (heap_deserialize_data def (cell_of v) img buf) (\<lambda>(c, n).
       run_bind (run_set m_value (ScalarObject c)) (\<lambda>u.
       run_bind (run_read (\<lambda>h. cell_scalar (length h) h c)) (\<lambda>v. run_lift (Inr (v, m_value, n)))))) h' = Some (y, h'')
       \<and> prefix h h'' \<and> ends ?r ?Q y h''"
    proof (cases ?r)
      case (Inl e)
      with y r show ?thesis
        by (simp add: run_simps h' append_prefixD)
    next
      case (Inr x)
      with r obtain w n c g B where x: "x = (w, n)" "y = Inr (c, n)" and g: "h1 = ?h @ g" "owns_cell h1 c w B"
          "set B \<subseteq> fresh ?h h1" "live_count g = type_members def"
        by (auto split: prod.splits)
      have "store h1 (length h) (ScalarObject c) = h @ Some (ScalarObject c) # g"
        by (simp add: g(1) store_def list_update_append)
      with y(1) x(2) scalar_stored [OF g(2,3) [unfolded g(1)]] g(4) show ?thesis
        by (simp add: Inr x(1) run_simps h')
    qed
  qed
qed

abbreviation new_NonSweepValue :: object where
  "new_NonSweepValue \<equiv> NonSweepValueObject None empty_block_object"

definition heap_NonSweepValue_deserialize :: "indexedcontainer option \<Rightarrow> nat \<Rightarrow> image \<Rightarrow> int
    \<Rightarrow> (nonsweepvalue \<times> int, object) run" where
  "heap_NonSweepValue_deserialize types a img startbuf =
     run_bind (run_lift (Chunk_deserialize (-1) img startbuf)) (\<lambda>n. let buf = startbuf + n in
     run_bind (run_lift (GET_INT32 img buf)) (\<lambda>m_id. let buf = buf + 4 in
     run_bind (run_lift (String_deserialize img buf)) (\<lambda>(m_name, n). let buf = buf + n in
     run_bind (run_lift (GET_INT32 img buf)) (\<lambda>w. let m_valuetypeid = sint w; buf = buf + 4 in
     run_bind (run_lift (get_typedef types m_valuetypeid)) (\<lambda>def.
     run_bind (heap_read_scalar def img buf) (\<lambda>(v, m_value, n). let buf = buf + n in
     run_bind (heap_PropertyBlock_deserialize empty_block_object img buf) (\<lambda>(m_propblock, n). let buf = buf + n in
     run_bind (run_set a (NonSweepValueObject (Some m_value) m_propblock)) (\<lambda>u.
     run_lift (Inr (\<lparr>nv_id = sint m_id, nv_name = m_name, nv_valuetypeid = m_valuetypeid, nv_value = v,
       nv_propblock = bo_block m_propblock\<rparr>, buf - startbuf))))))))))"

text \<open>
  Where a struct has two members of one name, the second takes the place of the first in the map, and
  the objects of the first are lost.
\<close>

definition lost_members :: "indexedcontainer option \<Rightarrow> nonsweepvalue \<Rightarrow> nat" where
  "lost_members types nv = (case get_typedef types (nv_valuetypeid nv) of
     Inl e \<Rightarrow> 0 | Inr td \<Rightarrow> type_members td - value_members (nv_value nv))"

lemma heap_NonSweepValue_deserialize_fills:
  "fills new_NonSweepValue (\<lambda>a. heap_NonSweepValue_deserialize types a img buf) (NonSweepValue_deserialize types img buf) any
     (\<lambda>nv. length (m_proplist (nv_propblock nv)) + lost_members types nv)"
proof -
  have split: "rbind (new_scalar def) (\<lambda>v. rbind (DataTypeDef_deserialize_data def v img b) f)
      = rbind (rbind (new_scalar def) (\<lambda>v. DataTypeDef_deserialize_data def v img b)) f" for def b and f :: "scalar \<times> int \<Rightarrow> 'r res"
    by (cases "new_scalar def") simp_all
  show ?thesis
    unfolding heap_NonSweepValue_deserialize_def NonSweepValue_deserialize_def Let_def split
    apply (rule fills_anyI, intro does_lift_bind does_prod)
    apply (rule does_makes [OF heap_read_scalar_makes], intro does_prods, clarsimp, intro does_when, clarify)
    apply (rule does_block, rule does_filled)
    subgoal by (simp add: destructor_def NonSweepValue_destructor_def opt_def)
    subgoal by (simp add: lost_members_def)
    done
qed

subsection \<open>Chunks\<close>

abbreviation new_Property :: object where
  "new_Property \<equiv> PropertyObject \<lparr>po_property = Property (-1) '''' None, po_value = None\<rparr>"

definition new_chunk :: "chunkclass \<Rightarrow> object" where
  "new_chunk cls = (case cls of
     PropertyClass \<Rightarrow> new_Property
   | DataTypeDefClass \<Rightarrow> new_DataTypeDef
   | DataTypeRefClass \<Rightarrow> new_DataTypeRef
   | GroupDefClass \<Rightarrow> GroupDefObject []
   | NonSweepValueClass \<Rightarrow> new_NonSweepValue)"

text \<open>A property that is a chunk: what was made for it stays where reading it fails.\<close>

definition heap_PropertyChunk_deserialize :: "nat \<Rightarrow> image \<Rightarrow> int \<Rightarrow> (property \<times> int, object) run" where
  "heap_PropertyChunk_deserialize a img buf =
     run_bind (heap_Property_deserialize (\<lambda>m_value. run_lift (Inr ())) img buf) (\<lambda>(prop, n).
     run_bind (run_set a (PropertyObject prop)) (\<lambda>u. run_lift (Inr (po_property prop, n))))"

definition heap_as :: "('x \<Rightarrow> 'y) \<Rightarrow> ('x \<times> int, object) run \<Rightarrow> ('y \<times> int, object) run" where
  "heap_as f m = run_bind m (\<lambda>(x, n). run_lift (Inr (f x, n)))"

fun heap_chunk_deserialize :: "indexedcontainer option \<Rightarrow> chunkclass \<Rightarrow> nat \<Rightarrow> image \<Rightarrow> int \<Rightarrow> (chunk \<times> int, object) run" where
  "heap_chunk_deserialize types PropertyClass a img buf = heap_as PropertyChunk (heap_PropertyChunk_deserialize a img buf)"
| "heap_chunk_deserialize types DataTypeDefClass a img buf = heap_as DataTypeDefChunk (heap_DataTypeDef_deserialize a img buf)"
| "heap_chunk_deserialize types DataTypeRefClass a img buf = heap_as DataTypeRefChunk (heap_DataTypeRef_deserialize a img buf)"
| "heap_chunk_deserialize types GroupDefClass a img buf = heap_as GroupDefChunk (heap_GroupDef_deserialize a img buf)"
| "heap_chunk_deserialize types NonSweepValueClass a img buf =
     heap_as NonSweepValueChunk (heap_NonSweepValue_deserialize types a img buf)"

definition property_at :: "object heap \<Rightarrow> nat \<Rightarrow> property \<Rightarrow> bool" where
  "property_at h a p \<longleftrightarrow> (\<exists>prop. lookup h a = Some (PropertyObject prop) \<and> po_property prop = p \<and> holds_plain h prop)"

definition chunk_at :: "chunk \<Rightarrow> nat \<Rightarrow> object heap \<Rightarrow> bool" where
  "chunk_at ch a h \<longleftrightarrow> (case ch of PropertyChunk p \<Rightarrow> property_at h a p | _ \<Rightarrow> True)"

text \<open>What reading a chunk leaves to nobody.\<close>

definition chunk_lost :: "indexedcontainer option \<Rightarrow> chunk \<Rightarrow> nat" where
  "chunk_lost types ch = properties_in (chunk_blocks ch)
     + (case ch of NonSweepValueChunk nv \<Rightarrow> lost_members types nv | _ \<Rightarrow> 0)"

definition children_lost :: "indexedcontainer option \<Rightarrow> chunk list \<Rightarrow> nat" where
  "children_lost types children = sum_list (map (chunk_lost types) children)"

lemma property_at_extended: "property_at h a p \<Longrightarrow> property_at (h @ g) a p"
  by (auto simp: property_at_def intro: lookup_extended holds_plain_extended)

lemma property_at_store:
  assumes "property_at h a p" and "lookup h b = Some x" and "\<forall>c. x \<noteq> ScalarObject c" and "\<forall>q. x \<noteq> PropertyObject q"
  shows "property_at (store h b y) a p"
proof -
  have "lookup (store h b y) a = Some z" if "lookup h a = Some z" "x \<noteq> z" for a z
    using that assms(2) by (cases "a = b") (auto simp: lookup_def store_def split: if_splits)
  with assms(1,3,4) show ?thesis
    unfolding property_at_def holds_plain_def by metis
qed

lemma chunk_at_extended: "chunk_at ch a h \<Longrightarrow> chunk_at ch a (h @ g)"
  by (cases ch) (simp_all add: chunk_at_def property_at_extended)

lemma chunk_at_store:
  "chunk_at ch a h \<Longrightarrow> lookup h b = Some x \<Longrightarrow> \<forall>c. x \<noteq> ScalarObject c \<Longrightarrow> \<forall>q. x \<noteq> PropertyObject q \<Longrightarrow>
     chunk_at ch a (store h b y)"
  by (cases ch) (simp_all add: chunk_at_def property_at_store)

lemma heap_PropertyChunk_deserialize_fills:
  "fills new_Property (\<lambda>a. heap_PropertyChunk_deserialize a img buf) (Property_deserialize img buf)
     (\<lambda>p a h. property_at h a p) (\<lambda>p. 0)"
  unfolding fills_def
proof
  fix h
  let ?h = "h @ [Some new_Property]"
  have "does h (\<lambda>h'. h' = ?h)
      (heap_PropertyChunk_deserialize (length h) img buf) (rbind (Property_deserialize img buf) Inr)
      (\<lambda>y z h'. z = y \<and> property_at h' (length h) (fst y) \<and> made h h' [length h] 0)"
    unfolding heap_PropertyChunk_deserialize_def
  proof (rule does_bind, rule does_from [OF _ heap_Property_deserialize_does [OF unwinds_leaving, of ?h]])
    fix x y
    show "does h (property_read ?h x y)
        (case y of (prop, n) \<Rightarrow> run_bind (run_set (length h) (PropertyObject prop)) (\<lambda>u. run_lift (Inr (po_property prop, n))))
        (Inr x) (\<lambda>y z h'. z = y \<and> property_at h' (length h) (fst y) \<and> made h h' [length h] 0)"
    proof (rule doesI)
      fix h'
      assume "property_read ?h x y h'"
      then obtain p n v where x: "x = (p, n)" "y = (\<lparr>po_property = p, po_value = Some (length ?h)\<rparr>, n)" "prop_value p = Some v"
          and h': "h' = ?h @ [Some (ScalarObject (Plain v))]"
        by (auto simp: property_read_def split: prod.splits)
      let ?p = "\<lparr>po_property = p, po_value = Some (length ?h)\<rparr>"
      let ?g = "h @ [Some (PropertyObject ?p), Some (ScalarObject (Plain v))]"
      have s: "store h' (length h) (PropertyObject ?p) = ?g"
        by (simp add: h' store_def list_update_append)
      have "made ?h h' [length ?h] 0"
        using made_object [of ?h ?h "ScalarObject (Plain v)" 0] made_none
        by (simp add: h' destructor_def Struct_destructor_def)
      moreover have "destructor (PropertyObject ?p) = [length ?h]"
        by (simp add: destructor_def Property_destructor_def opt_def)
      ultimately have "made h ?g [length h] 0"
        using made_root [OF made_root_set] s by metis
      moreover have "property_at ?g (length h) p"
        by (simp add: property_at_def holds_plain_def x(3) lookup_def nth_append)
      ultimately show "\<exists>z h''. (case y of (prop, n) \<Rightarrow>
            run_bind (run_set (length h) (PropertyObject prop)) (\<lambda>u. run_lift (Inr (po_property prop, n)))) h' = Some (z, h'')
          \<and> prefix h h'' \<and> ends (Inr x) (\<lambda>y z h'. z = y \<and> property_at h' (length h) (fst y) \<and> made h h' [length h] 0) z h''"
        using s by (simp add: x run_simps)
    qed
  qed auto
  moreover have "rbind (Property_deserialize img buf) Inr = Property_deserialize img buf"
    by (cases "Property_deserialize img buf") simp_all
  ultimately show "does h (\<lambda>h'. h' = ?h) (heap_PropertyChunk_deserialize (length h) img buf) (Property_deserialize img buf)
      (\<lambda>y z h'. z = y \<and> property_at h' (length h) (fst y) \<and> made h h' [length h] 0)"
    by simp
qed

lemma fills_as:
  assumes "fills x m r R K" and "\<And>y a h. R y a h \<Longrightarrow> R' (f y) a h" and "\<And>y. K' (f y) = K y"
  shows "fills x (\<lambda>a. heap_as f (m a)) (rbind r (\<lambda>(y, n). Inr (f y, n))) R' K'"
  unfolding fills_def heap_as_def
proof
  fix h
  show "does h (\<lambda>h'. h' = h @ [Some x]) (run_bind (m (length h)) (\<lambda>(y, n). run_lift (Inr (f y, n))))
      (rbind r (\<lambda>(y, n). Inr (f y, n))) (\<lambda>y z h'. z = y \<and> R' (fst y) (length h) h' \<and> made h h' [length h] (K' (fst y)))"
    by (rule does_bind [OF assms(1) [unfolded fills_def, rule_format]]) (auto simp: assms(2,3) intro!: does_return)
qed

lemma heap_chunk_deserialize_fills:
  "fills (new_chunk cls) (\<lambda>a. heap_chunk_deserialize types cls a img buf) (chunk_deserialize types cls img buf)
     chunk_at (chunk_lost types)"
proof (cases cls)
  case PropertyClass
  show ?thesis
    unfolding PropertyClass heap_chunk_deserialize.simps chunk_deserialize.simps new_chunk_def chunkclass.case
    by (rule fills_as [OF heap_PropertyChunk_deserialize_fills]) (simp_all add: chunk_at_def chunk_lost_def)
next
  case DataTypeDefClass
  show ?thesis
    unfolding DataTypeDefClass heap_chunk_deserialize.simps chunk_deserialize.simps new_chunk_def chunkclass.case
    by (rule fills_as [OF heap_DataTypeDef_deserialize_fills]) (simp_all add: chunk_at_def chunk_lost_def)
next
  case DataTypeRefClass
  show ?thesis
    unfolding DataTypeRefClass heap_chunk_deserialize.simps chunk_deserialize.simps new_chunk_def chunkclass.case
    by (rule fills_as [OF heap_DataTypeRef_deserialize_fills]) (simp_all add: chunk_at_def chunk_lost_def)
next
  case GroupDefClass
  show ?thesis
    unfolding GroupDefClass heap_chunk_deserialize.simps chunk_deserialize.simps new_chunk_def chunkclass.case
    by (rule fills_as [OF heap_GroupDef_deserialize_fills]) (simp_all add: chunk_at_def chunk_lost_def)
next
  case NonSweepValueClass
  show ?thesis
    unfolding NonSweepValueClass heap_chunk_deserialize.simps chunk_deserialize.simps new_chunk_def chunkclass.case
    by (rule fills_as [OF heap_NonSweepValue_deserialize_fills]) (simp_all add: chunk_at_def chunk_lost_def)
qed

lemma heap_child_makes:
  "makes (heap_deserialize_child child_factory new_chunk (heap_chunk_deserialize types) img buf)
     (deserialize_child child_factory (chunk_deserialize types) img buf) (child_read chunk_at)
     (\<lambda>(child, n). opt (map_option snd child)) (\<lambda>(child, n). case child of None \<Rightarrow> 0 | Some ch \<Rightarrow> chunk_lost types ch)"
  by (rule heap_deserialize_child_makes [OF heap_chunk_deserialize_fills])

end
