(* ===== verification/FileObjects.thy ===== *)
theory FileObjects
  imports ChunkObjects PsfFile
begin

section \<open>The objects of a file and their end (src/psffile.cc, psfcontainer.cc, psfindexedcontainer.cc, psfsections.cc)\<close>

text \<open>
  The sections that \<open>PSFFile::deserialize\<close> makes are trees of objects: a container owns its children,
  and the file the containers. Opening a file on the heap does as the model's \<open>PSFFile_open\<close> says, and
  \<open>~PSFFile\<close> deletes the sections, with them the trees, and nothing else.
\<close>

subsection \<open>Containers\<close>

lemma heap_child_Inr:
  "heap_deserialize_child child_factory new_chunk (heap_chunk_deserialize types) img buf h = Some (Inr (child, n), h') \<Longrightarrow>
     deserialize_child child_factory (chunk_deserialize types) img buf = Inr (map_option fst child, n)"
  by (erule does_Inr [OF makesD [OF heap_child_makes]]) (auto simp: child_read_def)

declare run_bind_cong [fundef_cong]

function heap_children_loop :: "(int \<Rightarrow> (chunkclass option) res) \<Rightarrow> indexedcontainer option \<Rightarrow> image
    \<Rightarrow> int \<Rightarrow> int \<Rightarrow> int \<Rightarrow> (chunk \<times> nat) list \<Rightarrow> int \<Rightarrow> ((chunk \<times> nat) list \<times> int, object) run" where
  "heap_children_loop child_factory types img abspos startbuf endpos children buf =
     (if abspos + (buf - startbuf) < endpos
      then run_bind (heap_deserialize_child child_factory new_chunk (heap_chunk_deserialize types) img buf) (\<lambda>(chunk, n).
        case chunk of
          Some ch \<Rightarrow>
            heap_children_loop child_factory types img abspos startbuf endpos (children @ [ch]) (buf + n)
        | None \<Rightarrow> run_lift (Inr (children, buf + n)))
      else run_lift (Inr (children, buf)))"
  by pat_completeness auto
termination
  by (relation "measure (\<lambda>(f, types, img, a, s, e, children, buf). nat (int (length img) - buf))")
    (auto simp: deserialize_child_Some dest!: heap_child_Inr dest: chunk_reader.dec_start chunk_reader.dec_positive)

declare run_bind_cong [fundef_cong del] heap_children_loop.simps [simp del]

abbreviation children_at :: "(chunk \<times> nat) list \<Rightarrow> object heap \<Rightarrow> bool" where
  "children_at cs h \<equiv> \<forall>(ch, a) \<in> set cs. chunk_at ch a h"

lemma heap_children_loop_does:
  "children = map fst cs \<Longrightarrow>
     does h0 (\<lambda>h. children_at cs h \<and> made b h (map snd cs) (children_lost types children))
       (heap_children_loop child_factory types img abspos startbuf endpos cs buf)
       (children_loop child_factory types img abspos startbuf endpos children buf)
       (\<lambda>(children, e) (cs, e') h. e' = e \<and> children = map fst cs \<and> children_at cs h
          \<and> made b h (map snd cs) (children_lost types children))"
proof (induction child_factory types img abspos startbuf endpos children buf arbitrary: cs rule: children_loop.induct)
  case (1 child_factory types img abspos startbuf endpos children buf)
  let ?Q = "\<lambda>(children, e) (cs, e') h. e' = e \<and> children = map fst cs \<and> children_at cs h
          \<and> made b h (map snd cs) (children_lost types children)"
  show ?case
    unfolding heap_children_loop.simps [of child_factory types img abspos startbuf endpos cs]
      children_loop.simps [of child_factory types img abspos startbuf endpos children]
  proof (rule does_if, rule does_child_keeping [OF heap_child_makes])
    fix ch a n
    assume "abspos + (buf - startbuf) < endpos"
      "deserialize_child child_factory (chunk_deserialize types) img buf = Inr (Some ch, n)"
    note IH = "1.IH" [OF this refl refl, of "cs @ [(ch, a)]"]
    show "does h0 (\<lambda>h. (children_at cs h \<and> chunk_at ch a h)
          \<and> made b h (map snd cs @ [a]) (children_lost types children + chunk_lost types ch))
        (heap_children_loop child_factory types img abspos startbuf endpos (cs @ [(ch, a)]) (buf + n))
        (children_loop child_factory types img abspos startbuf endpos (children @ [ch]) (buf + n)) ?Q"
      by (rule does_pre [OF IH]) (use "1.prems" in \<open>auto simp: children_lost_def\<close>)
  qed (use "1.prems" in \<open>auto intro!: does_return intro: chunk_at_extended\<close>)
qed

definition heap_SimpleContainer_deserialize :: "(nat list \<Rightarrow> object) \<Rightarrow> int \<Rightarrow> (int \<Rightarrow> (chunkclass option) res)
    \<Rightarrow> indexedcontainer option \<Rightarrow> nat \<Rightarrow> image \<Rightarrow> int \<Rightarrow> int \<Rightarrow> ((chunk \<times> nat) list \<times> int, object) run" where
  "heap_SimpleContainer_deserialize container chunktype child_factory types a img startbuf abspos =
     run_bind (run_lift (Chunk_deserialize chunktype img startbuf)) (\<lambda>n. let buf = startbuf + n in
     run_bind (run_lift (GET_INT32 img buf)) (\<lambda>w. let endpos = uint w; buf = buf + 4 in
     run_bind (heap_children_loop child_factory types img abspos startbuf endpos [] buf) (\<lambda>(children, buf).
     run_bind (run_set a (container (map snd children))) (\<lambda>u.
     run_lift (Inr (children, buf - startbuf))))))"

definition heap_IndexedContainer_deserialize :: "int \<Rightarrow> bool \<Rightarrow> (int \<Rightarrow> (chunkclass option) res)
    \<Rightarrow> indexedcontainer option \<Rightarrow> nat \<Rightarrow> image \<Rightarrow> int \<Rightarrow> int \<Rightarrow> (indexedcontainer \<times> int, object) run" where
  "heap_IndexedContainer_deserialize chunktype is_trace child_factory types a img startbuf abspos =
     run_bind (run_lift (Chunk_deserialize chunktype img startbuf)) (\<lambda>n. let buf = startbuf + n in
     run_bind (run_lift (GET_INT32 img buf)) (\<lambda>endpos. let buf = buf + 4 in
     run_bind (run_lift (GET_INT32 img buf)) (\<lambda>subcontainer_typeid. let buf = buf + 4 in
     if subcontainer_typeid \<noteq> 22 then run_lift (Inl Abort)
     else run_bind (run_lift (GET_INT32 img buf)) (\<lambda>subendpos. let buf = buf + 4 in
     run_bind (heap_children_loop child_factory types img abspos startbuf (uint subendpos) [] buf)
       (\<lambda>(children, buf).
     run_bind (run_lift (Index_deserialize is_trace img buf)) (\<lambda>n.
     run_bind (run_set a (IndexedContainerObject (map snd children))) (\<lambda>u.
     let children = map fst children in
     run_lift (Inr (\<lparr>ic_children = children, ic_idmap = create_idmap children,
       ic_namemap = create_namemap children\<rparr>, sint (endpos - word_of_int abspos))))))))))"

text \<open>\<open>HeaderSection\<close> copies its children, which are properties, into its block.\<close>

fun heap_append_props :: "block_object \<Rightarrow> nat list \<Rightarrow> (block_object, object) run" where
  "heap_append_props m_properties [] = run_lift (Inr m_properties)"
| "heap_append_props m_properties (ichild # children) =
     run_bind (run_get ichild) (\<lambda>child. case child of
       PropertyObject prop \<Rightarrow> run_bind (heap_append_prop m_properties prop) (\<lambda>m_properties.
         heap_append_props m_properties children)
     | _ \<Rightarrow> run_lift (Inl (Undefined NullPointer)))"

definition heap_HeaderSection_deserialize :: "nat \<Rightarrow> image \<Rightarrow> int \<Rightarrow> int \<Rightarrow> (propertyblock \<times> int, object) run" where
  "heap_HeaderSection_deserialize a img buf abspos =
     run_bind (heap_SimpleContainer_deserialize (\<lambda>as. HeaderSectionObject as empty_block_object)
       21 HeaderSection_child_factory None a img buf abspos) (\<lambda>(children, n).
     run_bind (heap_append_props empty_block_object (map snd children)) (\<lambda>m_properties.
     run_bind (run_set a (HeaderSectionObject (map snd children) m_properties)) (\<lambda>u.
     run_lift (Inr (bo_block m_properties, n)))))"

definition heap_SweepSection_deserialize :: "indexedcontainer option \<Rightarrow> nat \<Rightarrow> image \<Rightarrow> int \<Rightarrow> int \<Rightarrow> (chunk list \<times> int, object) run" where
  "heap_SweepSection_deserialize types a img buf abspos =
     heap_as (map fst) (heap_SimpleContainer_deserialize SweepSectionObject 21 SweepSection_child_factory types a img buf abspos)"

definition heap_TypeSection_deserialize :: "nat \<Rightarrow> image \<Rightarrow> int \<Rightarrow> int \<Rightarrow> (indexedcontainer \<times> int, object) run" where
  "heap_TypeSection_deserialize = heap_IndexedContainer_deserialize 21 False TypeSection_child_factory None"

definition heap_TraceSection_deserialize :: "indexedcontainer option \<Rightarrow> nat \<Rightarrow> image \<Rightarrow> int \<Rightarrow> int
    \<Rightarrow> (indexedcontainer \<times> int, object) run" where
  "heap_TraceSection_deserialize = heap_IndexedContainer_deserialize 21 True TraceSection_child_factory"

definition heap_ValueSectionNonSweep_deserialize :: "indexedcontainer option \<Rightarrow> nat \<Rightarrow> image \<Rightarrow> int \<Rightarrow> int
    \<Rightarrow> (indexedcontainer \<times> int, object) run" where
  "heap_ValueSectionNonSweep_deserialize = heap_IndexedContainer_deserialize (-1) False ValueSectionNonSweep_child_factory"

lemma children_loop_from_empty:
  "does h (\<lambda>h'. made b h' [] 0) (heap_children_loop child_factory types img abspos startbuf endpos [] buf)
     (children_loop child_factory types img abspos startbuf endpos [] buf)
     (\<lambda>(children, e) (cs, e') h'. e' = e \<and> children = map fst cs \<and> children_at cs h'
        \<and> made b h' (map snd cs) (children_lost types children))"
  using heap_children_loop_does [of "[]" "[]" h b types] by (simp add: children_lost_def)

lemma heap_IndexedContainer_deserialize_fills:
  "fills (IndexedContainerObject [])
     (\<lambda>a. heap_IndexedContainer_deserialize chunktype is_trace child_factory types a img startbuf abspos)
     (IndexedContainer_deserialize chunktype is_trace child_factory types img startbuf abspos) any
     (\<lambda>c. children_lost types (ic_children c))"
  unfolding heap_IndexedContainer_deserialize_def IndexedContainer_deserialize_def Let_def
  apply (rule fills_anyI, intro does_lift_bind does_if does_error)
  apply (rule does_bind [OF children_loop_from_empty], intro does_prods, clarsimp, intro does_when, clarify)
  apply (rule does_lift_bind, rule does_pre, rule does_filled)
    prefer 3
    apply (erule conjunct2)
  subgoal by (simp add: destructor_def Container_destructor_def)
  subgoal by simp
  done

lemma root_kind: "made (h @ [Some x]) h' as k \<Longrightarrow> lookup h' (length h) = Some x"
  by (auto simp: made_def lookup_def nth_append)

lemma children_at_store:
  "children_at cs h \<Longrightarrow> lookup h b = Some x \<Longrightarrow> \<forall>c. x \<noteq> ScalarObject c \<Longrightarrow> \<forall>q. x \<noteq> PropertyObject q \<Longrightarrow>
     children_at cs (store h b y)"
  by (auto intro: chunk_at_store)

lemma heap_SimpleContainer_deserialize_does:
  assumes "\<And>as c. container as \<noteq> ScalarObject c" and "\<And>as q. container as \<noteq> PropertyObject q"
  shows "does h (\<lambda>h'. made (h @ [Some (container [])]) h' [] 0)
     (heap_SimpleContainer_deserialize container chunktype child_factory types (length h) img startbuf abspos)
     (SimpleContainer_deserialize chunktype child_factory types img startbuf abspos)
     (\<lambda>(children, n) (cs, n') h'. n' = n \<and> children = map fst cs \<and> children_at cs h'
        \<and> made (h @ [Some (container (map snd cs))]) h' (map snd cs) (children_lost types children))"
  unfolding heap_SimpleContainer_deserialize_def SimpleContainer_deserialize_def Let_def
proof (intro does_lift_bind, rule does_bind [OF children_loop_from_empty], intro does_prods)
  fix x :: "chunk list \<times> int" and y :: "(chunk \<times> nat) list \<times> int" and cs e children e' n
  assume xy: "y = (cs, e)" "x = (children, e')"
  show "does h ((case x of (children, e) \<Rightarrow> \<lambda>(cs, e') h'. e' = e \<and> children = map fst cs \<and> children_at cs h'
        \<and> made (h @ [Some (container [])]) h' (map snd cs) (children_lost types children)) y)
      (run_bind (run_set (length h) (container (map snd cs))) (\<lambda>u. run_lift (Inr (cs, e - startbuf))))
      (Inr (children, e' - startbuf))
      (\<lambda>(children, n) (cs, n') h'. n' = n \<and> children = map fst cs \<and> children_at cs h'
        \<and> made (h @ [Some (container (map snd cs))]) h' (map snd cs) (children_lost types children))"
    unfolding xy
    by (rule does_set [where P' = "\<lambda>h'. e = e' \<and> children = map fst cs \<and> children_at cs h'
        \<and> made (h @ [Some (container (map snd cs))]) h' (map snd cs) (children_lost types children)"])
      (use assms in \<open>auto intro!: does_return made_root_set chunk_at_store dest: root_kind\<close>)
qed

abbreviation append_child :: "chunk \<Rightarrow> propertyblock res \<Rightarrow> propertyblock res" where
  "append_child child r \<equiv> rbind r (\<lambda>pb. case child of PropertyChunk prop \<Rightarrow> append_prop pb prop | _ \<Rightarrow> Inl (Undefined NullPointer))"

lemma heap_append_props_does:
  "\<forall>ch \<in> fst ` set cs. \<exists>p. ch = PropertyChunk p \<Longrightarrow> bo_block block = pb \<Longrightarrow>
     does h0 (\<lambda>h. children_at cs h \<and> made b h (as @ PropertyBlock_destructor block) k)
       (heap_append_props block (map snd cs)) (fold append_child (map fst cs) (Inr pb))
       (\<lambda>pb' block' h. bo_block block' = pb' \<and> length (m_proplist pb') = length (m_proplist pb) + length cs
          \<and> made b h (as @ PropertyBlock_destructor block') (k + length cs))"
proof (induction cs arbitrary: block pb k)
  case Nil
  then show ?case by (auto intro!: does_return)
next
  case (Cons c cs)
  obtain p a where c: "c = (PropertyChunk p, a)"
    using Cons.prems(1) by (cases c) auto
  show ?case
  proof (rule doesI)
    fix h
    assume "children_at (c # cs) h \<and> made b h (as @ PropertyBlock_destructor block) k" and h0: "prefix h0 h"
    then have h: "property_at h a p" "children_at cs h" "made b h (as @ PropertyBlock_destructor block) k"
      by (auto simp: c chunk_at_def)
    then obtain pr v w where w: "lookup h a = Some (PropertyObject pr)" "po_property pr = p"
        "po_value pr = Some v" "prop_value p = Some w" "lookup h v = Some (ScalarObject (Plain w))"
      by (auto simp: property_at_def holds_plain_def)
    let ?h = "h @ two_copies w" and ?block = "appended block p w (length h)"
    let ?pb = "PropertyBlock (m_proplist pb @ [Property_copy p]) (map_put (prop_name p) w (m_propmap pb))"
    have step: "heap_append_props block (map snd (c # cs)) h = heap_append_props ?block (map snd cs) ?h"
      using heap_append_prop_run [OF w(3) _ w(5), of block] w(1,2,4) by (simp add: c run_simps)
    have pb: "append_child (fst c) (Inr pb) = Inr ?pb"
      using w(4) by (simp add: c append_prop_def)
    have "bo_block ?block = ?pb"
      using Cons.prems(2) by (simp add: appended_def)
    with Cons.prems(1) have IH: "does h0 (\<lambda>h. children_at cs h \<and> made b h (as @ PropertyBlock_destructor ?block) (Suc k))
        (heap_append_props ?block (map snd cs)) (fold append_child (map fst cs) (Inr ?pb))
        (\<lambda>pb' block' h. bo_block block' = pb' \<and> length (m_proplist pb') = length (m_proplist ?pb) + length cs
          \<and> made b h (as @ PropertyBlock_destructor block') (Suc k + length cs))"
      by (intro Cons.IH) auto
    have "children_at cs ?h" "made b ?h (as @ PropertyBlock_destructor ?block) (Suc k)" "prefix h0 ?h"
      using h(2) h0 by (auto intro: chunk_at_extended made_appended [OF h(3)] prefix_prefix)
    then obtain y h' where "heap_append_props ?block (map snd cs) ?h = Some (y, h')" "prefix h0 h'"
      "ends (fold append_child (map fst cs) (Inr ?pb)) (\<lambda>pb' block' h. bo_block block' = pb'
          \<and> length (m_proplist pb') = length (m_proplist ?pb) + length cs
          \<and> made b h (as @ PropertyBlock_destructor block') (Suc k + length cs)) y h'"
      using doesE [OF IH, of ?h] by blast
    with step pb show "\<exists>y h'. heap_append_props block (map snd (c # cs)) h = Some (y, h') \<and> prefix h0 h'
        \<and> ends (fold append_child (map fst (c # cs)) (Inr pb)) (\<lambda>pb' block' h. bo_block block' = pb'
          \<and> length (m_proplist pb') = length (m_proplist pb) + length (c # cs)
          \<and> made b h (as @ PropertyBlock_destructor block') (k + length (c # cs))) y h'"
      by (simp add: ends_def split: sum.splits)
  qed
qed

lemma header_child_classes:
  assumes "SimpleContainer_deserialize 21 HeaderSection_child_factory None img buf abspos = Inr (children, n)"
  shows "\<forall>ch \<in> set children. \<exists>p. ch = PropertyChunk p"
proof -
  obtain e where "child_run HeaderSection_child_factory None img (8 + buf) children e"
    using SimpleContainer_deserialize_Inr [OF assms] by blast
  then have "list_all (\<lambda>ch. \<exists>p. ch = PropertyChunk p) children"
    by (elim child_run_all) (auto simp: child_factory_defs res_simps split: if_splits)
  then show ?thesis
    by (simp add: list_all_iff)
qed

lemma properties_lost: "\<forall>ch \<in> set children. \<exists>p. ch = PropertyChunk p \<Longrightarrow> children_lost types children = 0"
  by (induction children) (auto simp: children_lost_def chunk_lost_def)

lemma heap_HeaderSection_deserialize_fills:
  "fills (HeaderSectionObject [] empty_block_object) (\<lambda>a. heap_HeaderSection_deserialize a img buf abspos)
     (HeaderSection_deserialize img buf abspos) any (\<lambda>pb. length (m_proplist pb))"
  unfolding heap_HeaderSection_deserialize_def HeaderSection_deserialize_def
proof (rule fills_anyI, rule does_bind [OF heap_SimpleContainer_deserialize_does], simp, simp, intro does_prods)
  fix h and x :: "chunk list \<times> int" and y :: "(chunk \<times> nat) list \<times> int" and cs n children n'
  assume x: "SimpleContainer_deserialize 21 HeaderSection_child_factory None img buf abspos = Inr x"
    and xy: "y = (cs, n)" "x = (children, n')"
  let ?h = "\<lambda>as. h @ [Some (HeaderSectionObject as empty_block_object)]"
  have children: "\<forall>ch \<in> set children. \<exists>p. ch = PropertyChunk p"
    using header_child_classes x xy by blast
  have "does h (\<lambda>h'. children_at cs h' \<and> made (?h (map snd cs)) h' (map snd cs @ PropertyBlock_destructor empty_block_object) 0)
      (run_bind (heap_append_props empty_block_object (map snd cs)) (\<lambda>m_properties.
       run_bind (run_set (length h) (HeaderSectionObject (map snd cs) m_properties)) (\<lambda>u.
       run_lift (Inr (bo_block m_properties, n)))))
      (rbind (fold append_child (map fst cs) (Inr empty_block)) (\<lambda>m_properties. Inr (m_properties, n)))
      (\<lambda>y z h'. z = y \<and> made h h' [length h] (length (m_proplist (fst y))))"
    if "children = map fst cs"
  proof (rule does_bind [OF heap_append_props_does])
    show "\<forall>ch \<in> fst ` set cs. \<exists>p. ch = PropertyChunk p"
      using children that by auto
    show "bo_block empty_block_object = empty_block"
      by (simp add: empty_block_object_def)
    fix pb block
    show "does h (\<lambda>h'. bo_block block = pb \<and> length (m_proplist pb) = length (m_proplist empty_block) + length cs
          \<and> made (?h (map snd cs)) h' (map snd cs @ PropertyBlock_destructor block) (0 + length cs))
        (run_bind (run_set (length h) (HeaderSectionObject (map snd cs) block)) (\<lambda>u. run_lift (Inr (bo_block block, n))))
        (Inr (pb, n)) (\<lambda>y z h'. z = y \<and> made h h' [length h] (length (m_proplist (fst y))))"
      by (intro does_when, simp, rule does_pre, rule does_filled [OF refl])
        (auto simp: destructor_def Container_destructor_def empty_block_def intro: made_swap)
  qed
  then show "does h ((case x of (children, n) \<Rightarrow> \<lambda>(cs, n') h'. n' = n \<and> children = map fst cs \<and> children_at cs h'
        \<and> made (?h (map snd cs)) h' (map snd cs) (children_lost None children)) y)
      (run_bind (heap_append_props empty_block_object (map snd cs)) (\<lambda>m_properties.
       run_bind (run_set (length h) (HeaderSectionObject (map snd cs) m_properties)) (\<lambda>u.
       run_lift (Inr (bo_block m_properties, n)))))
      (rbind (fold append_child children (Inr empty_block)) (\<lambda>m_properties. Inr (m_properties, n')))
      (\<lambda>y z h'. z = y \<and> made h h' [length h] (length (m_proplist (fst y))))"
    unfolding xy prod.case using properties_lost [OF children] by (intro does_when) simp
qed

text \<open>Only a value outside a sweep has members that can be lost; no other section has one.\<close>

definition lost_in :: "indexedcontainer option \<Rightarrow> chunk \<Rightarrow> nat" where
  "lost_in types ch = (case ch of NonSweepValueChunk nv \<Rightarrow> lost_members types nv | _ \<Rightarrow> 0)"

lemma children_lost_eq:
  "children_lost types children = properties_in (children_blocks children) + sum_list (map (lost_in types) children)"
  by (induction children) (auto simp: children_lost_def chunk_lost_def lost_in_def children_blocks_def split: chunk.split)

lemma no_values_lost:
  assumes "child_run child_factory types img buf children e" and "\<And>t. child_factory t \<noteq> Inr (Some NonSweepValueClass)"
  shows "children_lost types' children = properties_in (children_blocks children)"
proof -
  have "list_all (\<lambda>ch. lost_in types' ch = 0) children"
  proof (rule child_run_all [OF assms(1)])
    fix t cls b ch n
    assume "child_factory t = Inr (Some cls)" "chunk_deserialize types cls img b = Inr (ch, n)"
    with assms(2) show "lost_in types' ch = 0"
      by (cases cls) (auto simp: lost_in_def res_simps)
  qed
  then show ?thesis
    by (induction children) (auto simp: children_lost_def chunk_lost_def lost_in_def children_blocks_def)
qed

subsection \<open>The blocks of a file\<close>

definition option_blocks :: "('a \<Rightarrow> propertyblock list) \<Rightarrow> 'a option \<Rightarrow> propertyblock list" where
  "option_blocks f x = (case x of None \<Rightarrow> [] | Some y \<Rightarrow> f y)"

definition file_blocks :: "psffile \<Rightarrow> propertyblock list" where
  "file_blocks psf = option_blocks (\<lambda>pb. [pb]) (m_header psf)
     @ option_blocks (\<lambda>c. children_blocks (ic_children c)) (m_types psf)
     @ option_blocks children_blocks (m_sweeps psf)
     @ option_blocks (\<lambda>c. children_blocks (ic_children c)) (m_traces psf)
     @ option_blocks (\<lambda>c. children_blocks (ic_children c)) (m_nonsweepvalues psf)"

subsection \<open>The file\<close>

text \<open>A \<open>PSFFile\<close> has pointers to its sections, and with them what the model has of the file.\<close>

record file_object =
  fo_file :: psffile
  fo_header :: "nat option"
  fo_types :: "nat option"
  fo_sweeps :: "nat option"
  fo_traces :: "nat option"
  fo_sweepvalues :: "nat option"
  fo_nonsweepvalues :: "nat option"

definition new_file_object :: file_object where
  "new_file_object = \<lparr>fo_file = new_psffile, fo_header = None, fo_types = None, fo_sweeps = None, fo_traces = None,
     fo_sweepvalues = None, fo_nonsweepvalues = None\<rparr>"

definition PSFFile_destructor :: "file_object \<Rightarrow> nat list" where
  "PSFFile_destructor f = opt (fo_header f) @ opt (fo_types f) @ opt (fo_sweeps f) @ opt (fo_traces f)
     @ opt (fo_sweepvalues f) @ opt (fo_nonsweepvalues f)"

definition destroy_file :: "object heap \<Rightarrow> file_object \<Rightarrow> object heap res" where
  "destroy_file h f = delete_all destructor h (PSFFile_destructor f)"

definition heap_at_section :: "object \<Rightarrow> (nat \<Rightarrow> image \<Rightarrow> int \<Rightarrow> int \<Rightarrow> ('x \<times> int, object) run) \<Rightarrow> image \<Rightarrow> sections \<Rightarrow> int
    \<Rightarrow> ('x \<times> nat, object) run" where
  "heap_at_section x deserialize img sections k =
     (let offset = sec_offset (section_at sections k) in
      run_bind (read_new x (\<lambda>a. deserialize a img (uint offset) (sint offset))) (\<lambda>(y, a, n). run_lift (Inr (y, a))))"

definition heap_read_types :: "image \<Rightarrow> sections \<Rightarrow> file_object \<Rightarrow> (file_object, object) run" where
  "heap_read_types img sections f =
     (if has_section sections SECTION_TYPE
      then run_bind (heap_at_section (IndexedContainerObject []) heap_TypeSection_deserialize img sections SECTION_TYPE) (\<lambda>(x, a).
           run_lift (Inr (f\<lparr>fo_file := (fo_file f)\<lparr>m_types := Some x\<rparr>, fo_types := Some a\<rparr>)))
      else run_lift (Inr f))"

definition heap_read_sweeps :: "image \<Rightarrow> sections \<Rightarrow> file_object \<Rightarrow> (file_object, object) run" where
  "heap_read_sweeps img sections f =
     (if has_section sections SECTION_SWEEP
      then run_bind (heap_at_section (SweepSectionObject []) (heap_SweepSection_deserialize (m_types (fo_file f)))
           img sections SECTION_SWEEP) (\<lambda>(x, a).
           run_lift (Inr (f\<lparr>fo_file := (fo_file f)\<lparr>m_sweeps := Some x\<rparr>, fo_sweeps := Some a\<rparr>)))
      else run_lift (Inr f))"

definition heap_read_traces :: "image \<Rightarrow> sections \<Rightarrow> file_object \<Rightarrow> (file_object, object) run" where
  "heap_read_traces img sections f =
     (if has_section sections SECTION_TRACE
      then run_bind (heap_at_section (IndexedContainerObject []) (heap_TraceSection_deserialize (m_types (fo_file f)))
           img sections SECTION_TRACE) (\<lambda>(x, a).
           run_lift (Inr (f\<lparr>fo_file := (fo_file f)\<lparr>m_traces := Some x\<rparr>, fo_traces := Some a\<rparr>)))
      else run_lift (Inr f))"

text \<open>Reading the section of swept values makes no other object.\<close>

definition heap_ValueSectionSweep_deserialize :: "psffile \<Rightarrow> nat \<Rightarrow> image \<Rightarrow> int \<Rightarrow> int \<Rightarrow> (valuesectionsweep \<times> int, object) run" where
  "heap_ValueSectionSweep_deserialize psf a img buf abspos = run_lift (ValueSectionSweep_deserialize psf img buf abspos)"

definition heap_read_values :: "image \<Rightarrow> sections \<Rightarrow> file_object \<Rightarrow> (file_object, object) run" where
  "heap_read_values img sections f =
     (if has_section sections SECTION_VALUE
      then if m_sweeps (fo_file f) \<noteq> None
        then run_bind (heap_at_section ValueSectionSweepObject (heap_ValueSectionSweep_deserialize (fo_file f))
             img sections SECTION_VALUE) (\<lambda>(x, a).
             run_lift (Inr (f\<lparr>fo_file := (fo_file f)\<lparr>m_sweepvalues := Some x\<rparr>, fo_sweepvalues := Some a\<rparr>)))
        else run_bind (heap_at_section (IndexedContainerObject []) (heap_ValueSectionNonSweep_deserialize (m_types (fo_file f)))
             img sections SECTION_VALUE) (\<lambda>(x, a).
             run_lift (Inr (f\<lparr>fo_file := (fo_file f)\<lparr>m_nonsweepvalues := Some x\<rparr>, fo_nonsweepvalues := Some a\<rparr>)))
      else run_lift (Inr f))"

definition heap_PSFFile_deserialize :: "file_object \<Rightarrow> image \<Rightarrow> int \<Rightarrow> (file_object, object) run" where
  "heap_PSFFile_deserialize f img nbytes =
     run_bind (run_lift (read_toc img nbytes)) (\<lambda>sections.
     run_bind (heap_at_section (HeaderSectionObject [] empty_block_object) heap_HeaderSection_deserialize
       img sections SECTION_HEADER) (\<lambda>(header, a).
     run_bind (heap_read_types img sections (f\<lparr>fo_file := (fo_file f)\<lparr>m_header := Some header\<rparr>, fo_header := Some a\<rparr>)) (\<lambda>f.
     run_bind (heap_read_sweeps img sections f) (\<lambda>f.
     run_bind (heap_read_traces img sections f) (\<lambda>f.
     heap_read_values img sections f)))))"

definition heap_PSFFile_open :: "image option \<Rightarrow> file_object \<Rightarrow> (file_object \<times> image, object) run" where
  "heap_PSFFile_open disk f =
     (case disk of
        None \<Rightarrow> run_lift (Inl (Throw FileOpenError))
      | Some file \<Rightarrow>
          run_bind (run_lift (PSFFile_validate file)) (\<lambda>valid.
          if valid
          then run_bind (heap_PSFFile_deserialize f (mapped file) (mapped_size file)) (\<lambda>f.
               run_lift (Inr (f, mapped file)))
          else run_lift (Inl (Throw InvalidFileError))))"

definition lost_values :: "psffile \<Rightarrow> nat" where
  "lost_values psf = (case m_nonsweepvalues psf of
     None \<Rightarrow> 0 | Some c \<Rightarrow> sum_list (map (lost_in (m_types psf)) (ic_children c)))"

text \<open>Each section does as the model's, and the file owns it.\<close>

lemma heap_at_section_makes:
  assumes "\<And>offset abspos. fills x (\<lambda>a. d' a img offset abspos) (d img offset abspos) any K"
    and "\<And>offset abspos y n. d img offset abspos = Inr (y, n) \<Longrightarrow> K' y = K y"
  shows "makes (heap_at_section x d' img sections k) (at_section d img sections k) (\<lambda>y (z, a) h. z = y) (\<lambda>(z, a). [a]) K'"
proof (rule makesI)
  fix h
  show "does h (\<lambda>h'. h' = h) (heap_at_section x d' img sections k) (at_section d img sections k)
      (\<lambda>y z h'. (case z of (z, a) \<Rightarrow> \<lambda>h. z = y) h' \<and> made h h' (case z of (z, a) \<Rightarrow> [a]) (K' y))"
    unfolding heap_at_section_def at_section_def Let_def
    by (rule does_bind [OF makesD [OF makes_read_new [OF assms(1)]]])
      (auto simp: assms(2) intro!: does_return split: prod.splits)
qed

lemma section_step:
  assumes "makes sec r (\<lambda>y (z, a) h. z = y) (\<lambda>(z, a). [a]) K"
    and "\<And>x a. c \<Longrightarrow> R (p' x) (f' x a) \<and> F (f' x a) = [a] \<and> K' (p' x) = K x"
    and "\<not> c \<Longrightarrow> R p f \<and> F f = [] \<and> K' p = 0"
  shows "makes (if c then run_bind sec (\<lambda>(x, a). run_lift (Inr (f' x a))) else run_lift (Inr f))
    (if c then rbind r (\<lambda>x. Inr (p' x)) else Inr p) (\<lambda>y z h. R y z) F K'"
proof (rule makesI, rule does_if)
  fix h
  assume c
  then show "does h (\<lambda>h'. h' = h) (run_bind sec (\<lambda>(x, a). run_lift (Inr (f' x a)))) (rbind r (\<lambda>x. Inr (p' x)))
      (\<lambda>y z h'. R y z \<and> made h h' (F z) (K' y))"
    by (intro does_bind [OF makesD [OF assms(1)]]) (auto simp: assms(2) intro!: does_return split: prod.splits)
next
  fix h
  assume "\<not> c"
  with assms(3) show "does h (\<lambda>h'. h' = h) (run_lift (Inr f)) (Inr p) (\<lambda>y z h'. R y z \<and> made h h' (F z) (K' y))"
    by (auto simp: made_none intro!: does_return)
qed

lemmas blocks_simps = file_blocks_def option_blocks_def

abbreviation container_blocks :: "indexedcontainer option \<Rightarrow> propertyblock list" where
  "container_blocks \<equiv> option_blocks (\<lambda>c. children_blocks (ic_children c))"

lemma heap_read_types_makes:
  assumes "fo_types f = None" and "m_types (fo_file f) = None" and "psf = fo_file f"
  shows "makes (heap_read_types img sections f) (read_types img sections psf)
    (\<lambda>psf f' h. \<exists>x a. psf = (fo_file f)\<lparr>m_types := x\<rparr> \<and> f' = f\<lparr>fo_file := psf, fo_types := a\<rparr>)
    (\<lambda>f'. opt (fo_types f')) (\<lambda>psf. properties_in (container_blocks (m_types psf)))"
  unfolding heap_read_types_def read_types_def assms(3)
proof (rule section_step, rule heap_at_section_makes)
  show "fills (IndexedContainerObject []) (\<lambda>a. heap_TypeSection_deserialize a img offset abspos)
      (TypeSection_deserialize img offset abspos) any (\<lambda>c. children_lost None (ic_children c))" for offset abspos
    unfolding heap_TypeSection_deserialize_def TypeSection_deserialize_def by (rule heap_IndexedContainer_deserialize_fills)
  show "properties_in (children_blocks (ic_children c)) = children_lost None (ic_children c)"
    if "TypeSection_deserialize img offset abspos = Inr (c, n)" for offset abspos c n
    using IndexedContainer_deserialize_Inr [OF that [unfolded TypeSection_deserialize_def]]
    by (auto simp: no_values_lost TypeSection_child_factory_def)
qed (cases f; cases "fo_file f"; use assms in \<open>auto simp: blocks_simps opt_def\<close>)+

lemma heap_read_sweeps_makes:
  assumes "fo_sweeps f = None" and "m_sweeps (fo_file f) = None" and "psf = fo_file f"
  shows "makes (heap_read_sweeps img sections f) (read_sweeps img sections psf)
    (\<lambda>psf f' h. \<exists>x a. psf = (fo_file f)\<lparr>m_sweeps := x\<rparr> \<and> f' = f\<lparr>fo_file := psf, fo_sweeps := a\<rparr>)
    (\<lambda>f'. opt (fo_sweeps f')) (\<lambda>psf. properties_in (option_blocks children_blocks (m_sweeps psf)))"
  unfolding heap_read_sweeps_def read_sweeps_def assms(3)
proof (rule section_step, rule heap_at_section_makes)
  let ?types = "m_types (fo_file f)"
  show "fills (SweepSectionObject []) (\<lambda>a. heap_SweepSection_deserialize ?types a img offset abspos)
      (SweepSection_deserialize ?types img offset abspos) any (children_lost ?types)" for offset abspos
  proof (rule fills_anyI)
    fix h
    have "does h (\<lambda>h'. made (h @ [Some (SweepSectionObject [])]) h' [] 0)
        (heap_SweepSection_deserialize ?types (length h) img offset abspos)
        (rbind (SweepSection_deserialize ?types img offset abspos) Inr)
        (\<lambda>y z h'. z = y \<and> made h h' [length h] (children_lost ?types (fst y)))"
      unfolding heap_SweepSection_deserialize_def SweepSection_deserialize_def heap_as_def
      by (rule does_bind [OF heap_SimpleContainer_deserialize_does])
        (auto intro!: does_return made_root simp: destructor_def Container_destructor_def)
    then show "does h (\<lambda>h'. made (h @ [Some (SweepSectionObject [])]) h' [] 0)
        (heap_SweepSection_deserialize ?types (length h) img offset abspos)
        (SweepSection_deserialize ?types img offset abspos)
        (\<lambda>y z h'. z = y \<and> made h h' [length h] (children_lost ?types (fst y)))"
      by (cases "SweepSection_deserialize ?types img offset abspos") simp_all
  qed
  show "properties_in (children_blocks cs) = children_lost ?types cs"
    if "SweepSection_deserialize ?types img offset abspos = Inr (cs, n)" for offset abspos cs n
    using SimpleContainer_deserialize_Inr [OF that [unfolded SweepSection_deserialize_def]]
    by (auto simp: no_values_lost SweepSection_child_factory_def)
qed (cases f; cases "fo_file f"; use assms in \<open>auto simp: blocks_simps opt_def\<close>)+

lemma heap_read_traces_makes:
  assumes "fo_traces f = None" and "m_traces (fo_file f) = None" and "psf = fo_file f"
  shows "makes (heap_read_traces img sections f) (read_traces img sections psf)
    (\<lambda>psf f' h. \<exists>x a. psf = (fo_file f)\<lparr>m_traces := x\<rparr> \<and> f' = f\<lparr>fo_file := psf, fo_traces := a\<rparr>)
    (\<lambda>f'. opt (fo_traces f')) (\<lambda>psf. properties_in (container_blocks (m_traces psf)))"
  unfolding heap_read_traces_def read_traces_def assms(3)
proof (rule section_step, rule heap_at_section_makes)
  let ?types = "m_types (fo_file f)"
  show "fills (IndexedContainerObject []) (\<lambda>a. heap_TraceSection_deserialize ?types a img offset abspos)
      (TraceSection_deserialize ?types img offset abspos) any (\<lambda>c. children_lost ?types (ic_children c))" for offset abspos
    unfolding heap_TraceSection_deserialize_def TraceSection_deserialize_def by (rule heap_IndexedContainer_deserialize_fills)
  show "properties_in (children_blocks (ic_children c)) = children_lost ?types (ic_children c)"
    if "TraceSection_deserialize ?types img offset abspos = Inr (c, n)" for offset abspos c n
    using IndexedContainer_deserialize_Inr [OF that [unfolded TraceSection_deserialize_def]]
    by (auto simp: no_values_lost TraceSection_child_factory_def)
qed (cases f; cases "fo_file f"; use assms in \<open>auto simp: blocks_simps opt_def\<close>)+

lemma fills_lift: "destructor x = [] \<Longrightarrow> fills x (\<lambda>a. run_lift r) r any (\<lambda>y. 0)"
  by (rule fills_anyI, rule does_lift) (auto intro: made_root)

lemma heap_read_values_makes:
  assumes "fo_sweepvalues f = None" and "fo_nonsweepvalues f = None" and "m_nonsweepvalues (fo_file f) = None"
    and "psf = fo_file f"
  shows "makes (heap_read_values img sections f) (read_values img sections psf)
    (\<lambda>psf f' h. \<exists>x y a b. psf = (fo_file f)\<lparr>m_sweepvalues := x, m_nonsweepvalues := y\<rparr>
       \<and> f' = f\<lparr>fo_file := psf, fo_sweepvalues := a, fo_nonsweepvalues := b\<rparr>)
    (\<lambda>f'. opt (fo_sweepvalues f') @ opt (fo_nonsweepvalues f'))
    (\<lambda>psf. properties_in (container_blocks (m_nonsweepvalues psf)) + lost_values psf)"
proof (cases "m_sweeps (fo_file f) = None")
  case False
  show ?thesis
    unfolding heap_read_values_def read_values_def assms(4) if_P [OF False]
  proof (rule section_step, rule heap_at_section_makes [OF _ refl])
    show "fills ValueSectionSweepObject (\<lambda>a. heap_ValueSectionSweep_deserialize (fo_file f) a img offset abspos)
        (ValueSectionSweep_deserialize (fo_file f) img offset abspos) any (\<lambda>y. 0)" for offset abspos
      unfolding heap_ValueSectionSweep_deserialize_def by (rule fills_lift) (simp add: destructor_def)
  qed (cases f; cases "fo_file f"; use assms in \<open>auto simp: blocks_simps opt_def lost_values_def\<close>)+
next
  case True
  let ?types = "m_types (fo_file f)"
  show ?thesis
    unfolding heap_read_values_def read_values_def assms(4) True simp_thms if_False
  proof (rule section_step, rule heap_at_section_makes [OF _ refl])
    show "fills (IndexedContainerObject []) (\<lambda>a. heap_ValueSectionNonSweep_deserialize ?types a img offset abspos)
        (ValueSectionNonSweep_deserialize ?types img offset abspos) any (\<lambda>c. children_lost ?types (ic_children c))" for offset abspos
      unfolding heap_ValueSectionNonSweep_deserialize_def ValueSectionNonSweep_deserialize_def
      by (rule heap_IndexedContainer_deserialize_fills)
  qed (cases f; cases "fo_file f"; use assms in \<open>auto simp: blocks_simps opt_def lost_values_def children_lost_eq\<close>)+
qed

definition file_read :: "object heap \<Rightarrow> psffile \<Rightarrow> file_object \<Rightarrow> object heap \<Rightarrow> bool" where
  "file_read h psf f h' \<longleftrightarrow> fo_file f = psf
     \<and> made h h' (PSFFile_destructor f) (properties_in (file_blocks psf) + lost_values psf)"

lemma sections_does:
  "does h (\<lambda>h'. made h h' [a] (length (m_proplist header)))
    (run_bind (heap_read_types img sections (new_file_object\<lparr>fo_file := new_psffile\<lparr>m_header := Some header\<rparr>, fo_header := Some a\<rparr>))
       (\<lambda>f. run_bind (heap_read_sweeps img sections f) (\<lambda>f.
     run_bind (heap_read_traces img sections f) (\<lambda>f. run_bind (heap_read_values img sections f) (\<lambda>f. run_lift (Inr f))))))
    (rbind (read_types img sections (new_psffile\<lparr>m_header := Some header\<rparr>)) (\<lambda>psf. rbind (read_sweeps img sections psf) (\<lambda>psf.
     rbind (read_traces img sections psf) (\<lambda>psf. rbind (read_values img sections psf) Inr)))) (file_read h)"
  apply (rule does_makes, rule heap_read_types_makes, simp add: new_file_object_def, simp add: new_psffile_def, simp)
  apply (clarsimp, intro does_when, clarify)
  apply (rule does_makes, rule heap_read_sweeps_makes, simp add: new_file_object_def, simp add: new_psffile_def, simp)
  apply (clarsimp, intro does_when, clarify)
  apply (rule does_makes, rule heap_read_traces_makes, simp add: new_file_object_def, simp add: new_psffile_def, simp)
  apply (clarsimp, intro does_when, clarify)
  apply (rule does_makes, rule heap_read_values_makes)
      apply (simp_all add: new_file_object_def new_psffile_def)
  apply (intro does_when, clarify)
  apply (rule does_return)
  apply (simp add: file_read_def PSFFile_destructor_def file_blocks_def option_blocks_def opt_def add.assoc)
  done

lemma heap_PSFFile_deserialize_does:
  "does h (\<lambda>h'. h' = h) (heap_PSFFile_deserialize new_file_object img nbytes)
     (PSFFile_deserialize new_psffile img nbytes) (file_read h)"
proof -
  have return: "run_bind m (\<lambda>f. run_lift (Inr f)) = m" for m :: "(file_object, object) run"
    by (auto simp: run_bind_def run_lift_def fun_eq_iff split: option.split sum.split)
  have Inr: "rbind r Inr = r" for r :: "psffile res"
    by (cases r) simp_all
  have new: "fo_file new_file_object = new_psffile"
    by (simp add: new_file_object_def)
  show ?thesis
    unfolding heap_PSFFile_deserialize_def PSFFile_deserialize_def new
  proof (rule does_lift_bind, rule does_pre, rule does_makes [where b = h and as = "[]" and k = 0],
      rule heap_at_section_makes [OF heap_HeaderSection_deserialize_fills refl])
    fix sections header and y :: "propertyblock \<times> nat"
    obtain header' a where y: "y = (header', a)"
      by (cases y)
    show "does h (\<lambda>h'. (case y of (z, a) \<Rightarrow> \<lambda>h. z = header) h'
          \<and> made h h' ([] @ (case y of (z, a) \<Rightarrow> [a])) (0 + length (m_proplist header)))
        (case y of (header, a) \<Rightarrow> run_bind (heap_read_types img sections
            (new_file_object\<lparr>fo_file := new_psffile\<lparr>m_header := Some header\<rparr>, fo_header := Some a\<rparr>))
          (\<lambda>f. run_bind (heap_read_sweeps img sections f) (\<lambda>f. run_bind (heap_read_traces img sections f)
            (\<lambda>f. heap_read_values img sections f))))
        (rbind (read_types img sections (new_psffile\<lparr>m_header := Some header\<rparr>)) (\<lambda>psf.
          rbind (read_sweeps img sections psf) (\<lambda>psf. rbind (read_traces img sections psf) (\<lambda>psf.
          read_values img sections psf)))) (file_read h)"
      using sections_does [of h a header img sections] unfolding return Inr y by (auto intro: does_when)
  qed (auto intro: made_none)
qed

lemma heap_PSFFile_open_does:
  "does h (\<lambda>h'. h' = h) (heap_PSFFile_open disk new_file_object) (PSFFile_open disk new_psffile)
     (\<lambda>(psf, img) (f, img') h'. img' = img \<and> file_read h psf f h')"
proof (cases disk)
  case None
  then show ?thesis by (simp add: heap_PSFFile_open_def PSFFile_open_def does_error)
next
  case (Some content)
  show ?thesis
    unfolding heap_PSFFile_open_def PSFFile_open_def Some option.case
    by (intro does_lift_bind does_if does_error does_bind [OF heap_PSFFile_deserialize_does]) (auto intro!: does_return)
qed

lemma file_destroyed:
  assumes "file_read h psf f h'"
  shows "\<exists>h2. destroy_file h' f = Inr h2 \<and> (\<forall>x < length h. lookup h2 x = lookup h x)
    \<and> live_count h2 = live_count h + properties_in (file_blocks psf) + lost_values psf"
  using made_deleted assms unfolding file_read_def destroy_file_def by (simp add: add.assoc)

end
