(* ===== verification/PythonMemory.thy ===== *)
theory PythonMemory
  imports Runs Inversion PythonBinding
begin

section \<open>Python and the memory of signals (bindings/python/psfpython.cc)\<close>

text \<open>
  The converters once more, now with the objects that they are given: \<open>get_signal\<close> and
  \<open>get_sweep_values\<close> hand out pointers, and a converter is the last that sees them. What is left of
  them afterwards was lost. The functions of Python and numpy are those of \<open>python_api\<close>.
\<close>

subsection \<open>The converters\<close>

text \<open>
  A struct is read through its pointers. \<open>None\<close>, where the depth does not suffice, is a chain of
  structs that closes on itself.
\<close>

fun cell_to_python :: "nat \<Rightarrow> 'o python_api \<Rightarrow> object heap \<Rightarrow> cell \<Rightarrow> 'o res option"
  and members_to_python :: "nat \<Rightarrow> 'o python_api \<Rightarrow> object heap \<Rightarrow> (string \<times> nat) list \<Rightarrow> 'o \<Rightarrow> 'o res option" where
  "cell_to_python depth py h (Plain v) = Some (psfscalar_to_python py v)"
| "cell_to_python 0 py h (Pointers sd ps) = None"
| "cell_to_python (Suc depth) py h (Pointers sd ps) = members_to_python depth py h ps (PyDict_New py)"
| "members_to_python depth py h [] dict = Some (Inr dict)"
| "members_to_python depth py h ((key, p) # i) dict =
     (case object_at h p of
        Inl e \<Rightarrow> Some (Inl e)
      | Inr (ScalarObject c) \<Rightarrow>
          (case cell_to_python depth py h c of
             None \<Rightarrow> None
           | Some (Inl e) \<Rightarrow> Some (Inl e)
           | Some (Inr value) \<Rightarrow>
               members_to_python depth py h i (PyDict_SetItem py dict (PyString_FromString py (c_str key)) value))
      | Inr _ \<Rightarrow> Some (Inl (Undefined WrongType)))"

fun cells_to_python :: "nat \<Rightarrow> 'o python_api \<Rightarrow> object heap \<Rightarrow> cell list \<Rightarrow> 'o list res option" where
  "cells_to_python depth py h [] = Some (Inr [])"
| "cells_to_python depth py h (c # cs) =
     (case c of
        Plain v \<Rightarrow> Some (Inl (Undefined WrongType))
      | Pointers sd ps \<Rightarrow>
          (case cell_to_python depth py h c of
             None \<Rightarrow> None
           | Some (Inl e) \<Rightarrow> Some (Inl e)
           | Some (Inr x) \<Rightarrow> map_option (\<lambda>r. rbind r (\<lambda>xs. Inr (x # xs))) (cells_to_python depth py h cs)))"

definition cell_value :: "cell \<Rightarrow> scalar" where
  "cell_value c = (case c of Plain v \<Rightarrow> v | Pointers sd ps \<Rightarrow> StructScalar (Struct sd []))"

text \<open>
  The array of a vector, and then \<open>if(copy && (vec != NULL)) delete vec\<close>. For structs \<open>copy\<close> is set.
\<close>

definition vector_to_array :: "'o python_api \<Rightarrow> cell \<Rightarrow> cell list \<Rightarrow> bool \<Rightarrow> ('o option, object) run" where
  "vector_to_array py init cs copy =
     (let t = cell_typeid init; n = sint (word_of_int (int (length cs)) :: 32 word); data = map cell_value cs in
      if t = TYPEID_DOUBLE then
        run_lift (if cs = [] then Inl (Throw OutOfRange)
          else rbind (double_data data) (\<lambda>data. create_numpy_vector (PyArray_DOUBLE py) n data copy))
      else if t = TYPEID_COMPLEXDOUBLE then
        run_lift (if cs = [] then Inl (Throw OutOfRange)
          else rbind (complex_data data) (\<lambda>data. create_numpy_vector (PyArray_CDOUBLE py) n data copy))
      else if t = TYPEID_STRUCT then
        run_bind (run_read (\<lambda>h. cells_to_python (length h) py h cs)) (\<lambda>objects.
        run_lift (Inr (Some (PyArray_OBJECT py objects))))
      else run_lift (Inr None))"

definition heap_vector_to_numpyarray :: "'o python_api \<Rightarrow> nat option \<Rightarrow> bool \<Rightarrow> ('o option, object) run" where
  "heap_vector_to_numpyarray py vec copy =
     (case vec of
        None \<Rightarrow> run_lift (Inr (Some (Py_None py)))
      | Some a \<Rightarrow> run_bind (run_get a) (\<lambda>x. case x of
          VectorObject init cs \<Rightarrow>
            run_bind (vector_to_array py init cs copy) (\<lambda>result.
            run_bind (if copy \<or> cell_typeid init = TYPEID_STRUCT then run_delete destructor a else run_lift (Inr ()))
              (\<lambda>u. run_lift (Inr result)))
        | _ \<Rightarrow> run_lift (Inl (Undefined WrongType))))"

fun heap_vectorstruct_loop :: "'o python_api \<Rightarrow> (string \<times> nat) list \<Rightarrow> 'o \<Rightarrow> ('o, object) run" where
  "heap_vectorstruct_loop py [] dict = run_lift (Inr dict)"
| "heap_vectorstruct_loop py ((key, p) # i) dict =
     run_bind (heap_vector_to_numpyarray py (Some p) True) (\<lambda>value. case value of
       None \<Rightarrow> run_lift (Inl (Undefined NullPointer))
     | Some x \<Rightarrow> heap_vectorstruct_loop py i (PyDict_SetItem py dict (PyString_FromString py (c_str key)) x))"

definition heap_PSFVector_to_numpyarray :: "'o python_api \<Rightarrow> nat option \<Rightarrow> ('o option, object) run" where
  "heap_PSFVector_to_numpyarray py vec = heap_vector_to_numpyarray py vec False"

definition heap_PSFBase_to_numpyarray :: "'o python_api \<Rightarrow> nat option \<Rightarrow> ('o option, object) run" where
  "heap_PSFBase_to_numpyarray py d =
     (case d of
        None \<Rightarrow> run_lift (Inr (Some (Py_None py)))
      | Some a \<Rightarrow> run_bind (run_get a) (\<lambda>x. case x of
          ScalarObject c \<Rightarrow>
            run_bind (run_read (\<lambda>h. cell_to_python (length h) py h c)) (\<lambda>x. run_lift (Inr (Some x)))
        | VectorObject init cs \<Rightarrow> heap_vector_to_numpyarray py d True
        | VectorStructObject n ps \<Rightarrow>
            run_bind (heap_vectorstruct_loop py ps (PyDict_New py)) (\<lambda>x. run_lift (Inr (Some x)))
        | _ \<Rightarrow> run_lift (Inl (Undefined WrongType))))"

text \<open>The converter of a \<open>const PSFScalar *\<close> deletes it.\<close>

definition heap_PSFScalar_to_python :: "'o python_api \<Rightarrow> nat \<Rightarrow> ('o, object) run" where
  "heap_PSFScalar_to_python py a = run_bind (run_get a) (\<lambda>x. case x of
     ScalarObject c \<Rightarrow>
       run_bind (run_read (\<lambda>h. cell_to_python (length h) py h c)) (\<lambda>result.
       run_bind (run_delete destructor a) (\<lambda>u. run_lift (Inr result)))
   | _ \<Rightarrow> run_lift (Inl (Undefined WrongType)))"

lemma run_bind_delete [run_simps]:
  "delete_object h a = Inr h' \<Longrightarrow> run_bind (run_delete destructor a) f h = f () h'"
  "delete_object h a = Inl e \<Longrightarrow> run_bind (run_delete destructor a) f h = Some (Inl e, h)"
  by (simp_all add: run_bind_def run_delete_def delete_object_def)

subsection \<open>What is owned converts as its value does\<close>

lemma cell_to_python_owned:
  "owns_cell h c v A \<Longrightarrow> length A < depth \<Longrightarrow> cell_to_python depth py h c = Some (psfscalar_to_python py v)"
  "owns_members h ps m A \<Longrightarrow> length A \<le> depth \<Longrightarrow>
     members_to_python depth py h ps dict = Some (dict_loop py (psfscalar_to_python py) m dict)"
proof (induction arbitrary: depth and depth dict rule: owns_cell_owns_members.inducts)
  case (owns_struct ps m A sd)
  then obtain d where "depth = Suc d" "length A \<le> d"
    by (cases depth) auto
  with owns_struct.IH show ?case by simp
next
  case (owns_member p c v A ps m B key)
  then have "cell_to_python depth py h c = Some (psfscalar_to_python py v)"
    "members_to_python depth py h ps d = Some (dict_loop py (psfscalar_to_python py) m d)" for d
    by auto
  with \<open>lookup h p = Some (ScalarObject c)\<close> show ?case
    by (cases "psfscalar_to_python py v") (simp_all add: object_at_Some rbind_def)
qed simp_all

definition owned_elements :: "object heap \<Rightarrow> cell list \<Rightarrow> scalar list \<Rightarrow> bool" where
  "owned_elements h cs vs \<longleftrightarrow> list_all2 (\<lambda>c v. \<exists>A. owns_cell h c v A \<and> length A < length h) cs vs"

lemma owned_elements_simps [simp]:
  "owned_elements h [] vs \<longleftrightarrow> vs = []" "owned_elements h cs [] \<longleftrightarrow> cs = []"
  "owned_elements h (c # cs) (v # vs) \<longleftrightarrow> (\<exists>A. owns_cell h c v A \<and> length A < length h) \<and> owned_elements h cs vs"
  by (auto simp: owned_elements_def)

lemma owned_elements_length: "owned_elements h cs vs \<Longrightarrow> length cs = length vs"
  by (auto simp: owned_elements_def dest: list_all2_lengthD)

lemma owned_value: "owns_cell h c v A \<Longrightarrow> (cell_typeid c \<noteq> TYPEID_STRUCT \<and> c = Plain v) \<or> (\<exists>s t. v = StructScalar s \<and> cell_value c = StructScalar t)"
  by (erule owns_cell.cases) (auto simp: cell_value_def cell_typeid_def)

lemma elements_data:
  assumes "owned_elements h cs vs"
  shows "double_data (map cell_value cs) = double_data vs \<and> complex_data (map cell_value cs) = complex_data vs"
  using assms
proof (induction cs arbitrary: vs)
  case (Cons c cs)
  then obtain v vs' A where v: "vs = v # vs'" "owns_cell h c v A" "owned_elements h cs vs'"
    by (cases vs) auto
  from owned_value [OF v(2)] show ?case
  proof (elim disjE conjE exE)
    assume "c = Plain v"
    then have "cell_value c = v" by (simp add: cell_value_def)
    with Cons.IH [OF v(3)] v(1) show ?case by (simp split: scalar.split option.split)
  qed (simp add: v(1))
qed simp

lemma elements_to_python:
  "owned_elements h cs vs \<Longrightarrow> cells_to_python (length h) py h cs = Some (struct_objects py vs)"
proof (induction cs arbitrary: vs)
  case (Cons c cs)
  then obtain v vs' A where v: "vs = v # vs'" "owns_cell h c v A" "length A < length h" "owned_elements h cs vs'"
    by (cases vs) auto
  note c = cell_to_python_owned(1) [OF v(2,3), of py]
  from v(2) show ?case
  proof (cases rule: owns_cell.cases)
    case owns_plain
    then show ?thesis using v(1) by (cases v) simp_all
  next
    case (owns_struct ps m sd)
    with c v(1) Cons.IH [OF v(4)] show ?thesis
      by (cases "Struct_to_python py (Struct sd m)") (simp_all add: rbind_def)
  qed
qed simp

lemma vector_to_array_owned:
  assumes "owned_elements h cs (pv_elems w)" and "cell_typeid init = scalar_typeid (pv_init w)"
  shows "vector_to_array py init cs copy h = Some (psfvector_to_numpyarray py (Some w) copy, h)"
proof -
  note [simp] = elements_data [OF assms(1), THEN conjunct1] elements_data [OF assms(1), THEN conjunct2]
  have empty: "pv_ptr_at w 0 = (if cs = [] then Inl (Throw OutOfRange) else Inr (pv_elems w ! 0))"
    using owned_elements_length [OF assms(1)] by (auto simp: pv_ptr_at_def pv_size_def)
  have read: "run_bind (run_read (\<lambda>h. cells_to_python (length h) py h cs)) f h
      = (case struct_objects py (pv_elems w) of Inl e \<Rightarrow> Some (Inl e, h) | Inr xs \<Rightarrow> f xs h)" for f
    by (simp add: run_bind_def run_read_def elements_to_python [OF assms(1)] split: sum.split)
  show ?thesis
    using assms(2) owned_elements_length [OF assms(1)]
    by (simp add: vector_to_array_def psfvector_to_numpyarray_def Let_def empty read run_lift pv_size_def rbind_def
        split: sum.split)
qed

lemma heap_vector_to_numpyarray_run:
  assumes "lookup h a = Some (VectorObject init cs)" and "owned_elements h cs (pv_elems w)"
    and "cell_typeid init = scalar_typeid (pv_init w)" and "delete_object h a = Inr h'"
  shows "heap_vector_to_numpyarray py (Some a) copy h =
    Some (psfvector_to_numpyarray py (Some w) copy,
      case psfvector_to_numpyarray py (Some w) copy of Inl e \<Rightarrow> h
      | Inr r \<Rightarrow> if copy \<or> scalar_typeid (pv_init w) = TYPEID_STRUCT then h' else h)"
  using assms(1,3,4) vector_to_array_owned [OF assms(2,3), of py copy]
  by (cases "psfvector_to_numpyarray py (Some w) copy")
    (simp_all add: heap_vector_to_numpyarray_def run_simps)

text \<open>A scalar stays where it is: the copy that \<open>get_signal\<close> made is lost.\<close>

lemma heap_scalar_to_numpyarray:
  assumes "owns_scalar h a v A"
  shows "heap_PSFBase_to_numpyarray py (Some a) h = Some (PSFBase_to_numpyarray py (ScalarSignal v), h)"
    and "heap_PSFScalar_to_python py a h = Some (psfscalar_to_python py v,
      case psfscalar_to_python py v of Inl e \<Rightarrow> h | Inr x \<Rightarrow> release_all h A)"
proof -
  obtain c B where c: "lookup h a = Some (ScalarObject c)" "owns_cell h c v B" "A = a # B"
    using assms by (auto simp: owns_scalar_def)
  then have "length B < length h"
    using owns_length [OF assms] by simp
  note py = cell_to_python_owned(1) [OF c(2) this, of py]
  show "heap_PSFBase_to_numpyarray py (Some a) h = Some (PSFBase_to_numpyarray py (ScalarSignal v), h)"
    using c(1) py by (cases "psfscalar_to_python py v")
      (simp_all add: heap_PSFBase_to_numpyarray_def PSFBase_to_numpyarray_def run_simps rbind_def)
  show "heap_PSFScalar_to_python py a h = Some (psfscalar_to_python py v,
      case psfscalar_to_python py v of Inl e \<Rightarrow> h | Inr x \<Rightarrow> release_all h A)"
    using c(1) py delete_scalar [OF assms] by (cases "psfscalar_to_python py v")
      (simp_all add: heap_PSFScalar_to_python_def run_simps)
qed

text \<open>
  A vector that is converted with \<open>copy\<close> is deleted with all that it owns, if nothing throws. Without
  \<open>copy\<close> a vector of numbers stays, under the array that shares its data.
\<close>

lemma owns_cells_elements: "owns_cells h cs vs A \<Longrightarrow> length A < length h \<Longrightarrow> owned_elements h cs vs"
  by (induction rule: owns_cells.induct) auto

lemma heap_owned_vector_to_numpyarray:
  assumes "owns_vector h a w A"
  shows "heap_vector_to_numpyarray py (Some a) copy h =
    Some (psfvector_to_numpyarray py (Some w) copy,
      case psfvector_to_numpyarray py (Some w) copy of Inl e \<Rightarrow> h
      | Inr r \<Rightarrow> if copy \<or> scalar_typeid (pv_init w) = TYPEID_STRUCT then release_all h A else h)"
proof -
  obtain init cs B where v: "lookup h a = Some (VectorObject init cs)" "owns_cell h init (pv_init w) []"
      "owns_cells h cs (pv_elems w) B" "a \<notin> set B" "A = a # B"
    using assms by (auto simp: owns_vector_def)
  have "distinct A" "set A \<subseteq> {..< length h}"
    using v(4,5) owns_cells_distinct [OF v(3)] owns_vector_bound [OF assms] by auto
  then have "length A \<le> length h"
    using card_mono [of "{..< length h}" "set A"] by (simp add: distinct_card)
  then have "owned_elements h cs (pv_elems w)"
    using owns_cells_elements [OF v(3)] v(5) by simp
  moreover have "delete_object h a = Inr (release_all h A)"
    using delete_vector [OF assms] by simp
  ultimately show ?thesis
    by (rule heap_vector_to_numpyarray_run [OF v(1) _ owns_typeid [OF v(2)]])
qed

subsection \<open>The vectors of an inverted signal\<close>

definition of_class :: "psfvector \<Rightarrow> bool" where
  "of_class w \<longleftrightarrow> (\<forall>x \<in> set (pv_elems w). scalar_typeid x = scalar_typeid (pv_init w))"

lemma assign_scalar_class: "of_class w \<Longrightarrow> pv_assign_scalar w i x = Inr w' \<Longrightarrow> of_class w'"
  using set_update_subset_insert [of "pv_elems w" "nat i" x]
  by (auto simp: of_class_def pv_assign_scalar_def pv_store_def split: if_splits)

lemma assign_loop_class: "assign_loop key js i w = Inr w' \<Longrightarrow> of_class w \<Longrightarrow> of_class w'"
  by (induction key js i w rule: assign_loop.induct) (auto simp: res_simps dest: assign_scalar_class)

lemma resize_class: "of_class w \<Longrightarrow> pv_resize w n = Inr w' \<Longrightarrow> of_class w'"
  by (auto simp: of_class_def pv_resize_def split: if_splits dest!: in_set_takeD)

lemma copy_loop_class:
  "copy_loop structvec m = Inr m' \<Longrightarrow> \<forall>w \<in> snd ` set m. of_class w \<Longrightarrow> \<forall>w \<in> snd ` set m'. of_class w"
proof (induction structvec m arbitrary: m' rule: copy_loop.induct)
  case (2 structvec key vec rest)
  then obtain v1 v2 m2 where "pv_resize vec (pv_size structvec) = Inr v1"
    "assign_loop key (pv_elems structvec) 0 v1 = Inr v2" and m2: "copy_loop structvec rest = Inr m2" "m' = (key, v2) # m2"
    by (auto simp: res_simps)
  then have "of_class v2"
    using "2.prems"(2) by (metis assign_loop_class resize_class image_eqI list.set_intros(1) snd_conv)
  moreover have "\<forall>w \<in> snd ` set m2. of_class w"
    using "2.IH" m2(1) "2.prems"(2) \<open>pv_resize vec _ = _\<close> \<open>assign_loop _ _ _ _ = _\<close> by simp
  ultimately show ?case
    using m2(2) by simp
qed simp

lemma init_loop_class:
  "init_loop tds m = Inr m' \<Longrightarrow> \<forall>w \<in> snd ` set m. of_class w \<Longrightarrow> \<forall>w \<in> snd ` set m'. of_class w"
proof (induction tds m rule: init_loop.induct)
  case (2 td tds m)
  then obtain w where w: "new_vector td = Inr w" "init_loop tds (map_put (td_name td) w m) = Inr m'"
    by (auto simp: res_simps)
  have "of_class w"
    using new_vector_init [OF w(1)] by (simp add: of_class_def)
  then have "\<forall>x \<in> snd ` set (map_put (td_name td) w m). of_class x"
    using "2.prems"(2) subsetD [OF snd_map_put [of "td_name td" w m]] by blast
  with "2.IH" w show ?case by blast
qed simp

lemma inverted_class: "VectorStruct_of_structvec w = Inr (VectorStruct n m) \<Longrightarrow> \<forall>x \<in> snd ` set m. of_class x"
  by (force simp: VectorStruct_of_structvec_def init_from_structdef_def copy_from_structvector_def res_simps
      split: scalar.splits option.splits dest!: init_loop_class copy_loop_class)

text \<open>
  A vector that shares its structs with what was deleted: the first struct with members is read
  after it was freed.
\<close>

lemma dead_elements_to_python:
  assumes "list_all2 (\<lambda>c x. if with_members x then dead_pointers h c else owns_cell h c x []) cs vs"
    and "\<forall>x \<in> set vs. scalar_typeid x = TYPEID_STRUCT" and "\<exists>x \<in> set vs. with_members x" and "0 < depth"
  shows "cells_to_python depth py h cs = Some (Inl (Undefined UseAfterFree))"
  using assms
proof (induction cs vs rule: list_all2_induct)
  case (Cons c cs x vs)
  from \<open>0 < depth\<close> obtain d where d: "depth = Suc d"
    by (cases depth) auto
  show ?case
  proof (cases "with_members x")
    case True
    with Cons.hyps(1) obtain sd key p ps where "c = Pointers sd ((key, p) # ps)" "lookup h p = None"
      by (auto simp: dead_pointers_def Struct_destructor_def neq_Nil_conv split: cell.splits)
    then show ?thesis
      by (simp add: d object_at_def)
  next
    case False
    then have "owns_cell h c x []"
      using Cons.hyps(1) by simp
    moreover obtain s where s: "x = StructScalar s" "struct_map s = []"
      using False Cons.prems(1) by (cases x) (auto simp: with_members_def typeid_defs)
    ultimately obtain sd where "c = Pointers sd []"
      by (auto elim!: owns_StructE elim: owns_members.cases)
    with False Cons show ?thesis by (auto simp: d rbind_def)
  qed
qed simp

lemma inverted_to_numpyarray:
  assumes "inverted h p w" and "of_class w"
  shows "run_bind (heap_vector_to_numpyarray py (Some p) True) f h =
    (if has_members w then Some (Inl (Undefined UseAfterFree), h)
     else case psfvector_to_numpyarray py (Some w) True of
       Inl e \<Rightarrow> Some (Inl e, h) | Inr value \<Rightarrow> f value (release h p))"
proof -
  obtain cs where p: "lookup h p = Some (VectorObject (cell_of (pv_init w)) cs)"
    and cs: "list_all2 (\<lambda>c x. if with_members x then dead_pointers h c else owns_cell h c x []) cs (pv_elems w)"
    using assms(1) by (auto simp: inverted_def)
  have init: "cell_typeid (cell_of (pv_init w)) = scalar_typeid (pv_init w)"
    by (cases "pv_init w") (simp_all add: cell_of_def cell_typeid_def typeid_defs)
  have pos: "0 < length h"
    using lookup_bound [OF p] by linarith
  show ?thesis
  proof (cases "has_members w")
    case True
    then have struct: "scalar_typeid (pv_init w) = TYPEID_STRUCT"
      using assms(2) unfolding has_members_eq of_class_def with_members_def by (force split: scalar.splits)
    then have "cells_to_python (length h) py h cs = Some (Inl (Undefined UseAfterFree))"
      using True assms(2) pos by (intro dead_elements_to_python [OF cs]) (simp_all add: has_members_eq of_class_def)
    then have "heap_vector_to_numpyarray py (Some p) True h = Some (Inl (Undefined UseAfterFree), h)"
      using p init struct
      by (simp add: heap_vector_to_numpyarray_def vector_to_array_def Let_def typeid_defs run_simps)
    with True show ?thesis by (simp add: run_simps)
  next
    case False
    then have "owned_elements h cs (pv_elems w)"
      unfolding owned_elements_def using pos
      by (intro list.rel_mono_strong [OF cs]) (auto simp: has_members_eq split: if_splits)
    moreover have "delete_object h p = Inr (release h p)"
      using delete_inverted [OF assms(1)] False by simp
    ultimately have "heap_vector_to_numpyarray py (Some p) True h = Some (psfvector_to_numpyarray py (Some w) True,
        case psfvector_to_numpyarray py (Some w) True of Inl e \<Rightarrow> h | Inr r \<Rightarrow> release h p)"
      using heap_vector_to_numpyarray_run [OF p _ init, of "release h p" py True] by (simp split: sum.split)
    with False show ?thesis
      by (cases "psfvector_to_numpyarray py (Some w) True") (simp_all add: run_simps)
  qed
qed

lemma inverted_release: "inverted h q w \<Longrightarrow> q \<noteq> p \<Longrightarrow> inverted (release h p) q w"
proof -
  assume "inverted h q w" and "q \<noteq> p"
  then obtain cs where "lookup (release h p) q = Some (VectorObject (cell_of (pv_init w)) cs)"
    and cs: "list_all2 (\<lambda>c x. if with_members x then dead_pointers h c else owns_cell h c x []) cs (pv_elems w)"
    by (auto simp: inverted_def heap.lookup_release)
  moreover have "list_all2 (\<lambda>c x. if with_members x then dead_pointers (release h p) c
      else owns_cell (release h p) c x []) cs (pv_elems w)"
    using cs by (rule list_all2_mono)
      (auto simp: dead_pointers_def heap.lookup_release intro: owns_frame(1) split: if_splits)
  ultimately show ?thesis
    unfolding inverted_def by blast
qed

lemma heap_vectorstruct_loop_run:
  assumes "same_keys (inverted h) ps m" and "distinct (map snd ps)" and "\<forall>w \<in> snd ` set m. of_class w"
  shows "\<exists>k \<le> length ps. heap_vectorstruct_loop py ps dict h =
      Some (dict_loop py (member_to_numpyarray py True) m dict, release_all h (take k (map snd ps)))
    \<and> (\<forall>x. dict_loop py (member_to_numpyarray py True) m dict = Inr x \<longrightarrow> k = length ps)"
  using assms
proof (induction ps arbitrary: m h dict)
  case Nil
  then show ?case by (simp add: same_keys_def run_lift)
next
  case (Cons kp ps)
  obtain key p where kp: "kp = (key, p)"
    by (cases kp)
  with Cons.prems(1) obtain w m' where m: "m = (key, w) # m'" and w: "inverted h p w" and ps: "same_keys (inverted h) ps m'"
    by (auto simp: same_keys_def list_all2_Cons1)
  have cls: "of_class w" and rest: "\<forall>w \<in> snd ` set m'. of_class w"
    using Cons.prems(3) m by auto
  note step = inverted_to_numpyarray [OF w cls]
  show ?case
  proof (cases "member_to_numpyarray py True w")
    case (Inl e)
    show ?thesis
    proof (cases "has_members w \<or> (\<exists>e. psfvector_to_numpyarray py (Some w) True = Inl e)")
      case True
      with Inl show ?thesis
        by (intro exI [of _ 0]) (auto simp: kp m step member_to_numpyarray_def rbind_def)
    next
      case False
      with Inl have "psfvector_to_numpyarray py (Some w) True = Inr None" "\<not> has_members w"
        by (auto simp: member_to_numpyarray_def rbind_def split: sum.splits option.splits)
      with Inl show ?thesis
        by (intro exI [of _ 1]) (auto simp: kp m step member_to_numpyarray_def rbind_def run_lift)
    qed
  next
    case (Inr x)
    then have x: "psfvector_to_numpyarray py (Some w) True = Inr (Some x)" "\<not> has_members w"
      by (auto simp: member_to_numpyarray_def rbind_def split: if_splits sum.splits option.splits)
    have "same_keys (inverted (release h p)) ps m'"
      using Cons.prems(2) by (intro same_keys_mono [OF ps]) (auto simp: kp intro!: inverted_release)
    moreover have "distinct (map snd ps)"
      using Cons.prems(2) by simp
    ultimately obtain k where "k \<le> length ps"
      "heap_vectorstruct_loop py ps (PyDict_SetItem py dict (PyString_FromString py (c_str key)) x) (release h p) =
        Some (dict_loop py (member_to_numpyarray py True) m' (PyDict_SetItem py dict (PyString_FromString py (c_str key)) x),
          release_all (release h p) (take k (map snd ps)))"
      "\<forall>y. dict_loop py (member_to_numpyarray py True) m' (PyDict_SetItem py dict (PyString_FromString py (c_str key)) x) = Inr y
        \<longrightarrow> k = length ps"
      using Cons.IH [OF _ _ rest] by blast
    with x Inr show ?thesis
      by (intro exI [of _ "Suc k"]) (simp add: kp m step rbind_def)
  qed
qed

text \<open>\<open>get_signal\<close> with \<open>invertstruct\<close> from the vector on, and its converter.\<close>

lemma shares_member_to_numpyarray:
  "dict_loop py (member_to_numpyarray py (shares_members vs)) (vs_map vs) dict
    = dict_loop py (member_to_numpyarray py True) (vs_map vs) dict"
  by (rule dict_loop_cong) (force simp: member_to_numpyarray_def shares_members_def list_ex_iff)+

lemma heap_inverted_to_numpyarray:
  assumes "owns_vector h a w A" and "invert True (Some w) = Inr (VectorStructSignal b (VectorStruct n m))"
  shows "\<exists>vs h1 h2 ps k. heap_invert h a = Inr (vs, h1)
    \<and> heap_PSFBase_to_numpyarray py (Some vs) h1
        = Some (PSFBase_to_numpyarray py (VectorStructSignal b (VectorStruct n m)), h2)
    \<and> h2 = release_all h1 (take k (map snd ps)) \<and> lookup h2 vs = Some (VectorStructObject n ps) \<and> length h \<le> vs
    \<and> map fst ps = map fst m
    \<and> (\<forall>x. PSFBase_to_numpyarray py (VectorStructSignal b (VectorStruct n m)) = Inr x \<longrightarrow> k = length ps)"
proof -
  obtain vs h1 ps where h1: "heap_invert h a = Inr (vs, h1)" "lookup h1 vs = Some (VectorStructObject n ps)"
    "same_keys (inverted h1) ps m" "distinct (vs # map snd ps)" "length h \<le> vs"
    using heap_invert_result [OF assms] by blast
  have vsw: "VectorStruct_of_structvec w = Inr (VectorStruct n m)" and b: "b = shares_members (VectorStruct n m)"
    using assms(2) by (auto simp: invert_def res_simps split: if_splits)
  from heap_vectorstruct_loop_run [OF h1(3) _ inverted_class [OF vsw], of py "PyDict_New py"] h1(4) obtain k where
    k: "heap_vectorstruct_loop py ps (PyDict_New py) h1 =
      Some (dict_loop py (member_to_numpyarray py True) m (PyDict_New py), release_all h1 (take k (map snd ps)))"
      "\<forall>x. dict_loop py (member_to_numpyarray py True) m (PyDict_New py) = Inr x \<longrightarrow> k = length ps"
    by auto
  have py_value: "PSFBase_to_numpyarray py (VectorStructSignal b (VectorStruct n m))
      = rbind (dict_loop py (member_to_numpyarray py True) m (PyDict_New py)) (\<lambda>x. Inr (Some x))"
    using shares_member_to_numpyarray [of py "VectorStruct n m"]
    by (simp add: PSFBase_to_numpyarray_def vectorstruct_to_python_def b)
  have "heap_PSFBase_to_numpyarray py (Some vs) h1
      = Some (PSFBase_to_numpyarray py (VectorStructSignal b (VectorStruct n m)), release_all h1 (take k (map snd ps)))"
    using h1(2) k(1) unfolding py_value
    by (cases "dict_loop py (member_to_numpyarray py True) m (PyDict_New py)")
      (simp_all add: heap_PSFBase_to_numpyarray_def run_simps rbind_def)
  moreover have "lookup (release_all h1 (take k (map snd ps))) vs = Some (VectorStructObject n ps)"
    using h1(2,4) by (auto simp: lookup_release_all dest: in_set_takeD)
  moreover have "map fst ps = map fst m"
    using h1(3) unfolding same_keys_def by (induction rule: list_all2_induct) auto
  moreover have "\<forall>x. PSFBase_to_numpyarray py (VectorStructSignal b (VectorStruct n m)) = Inr x \<longrightarrow> k = length ps"
    using k(2) unfolding py_value by (auto simp: res_simps)
  ultimately show ?thesis
    using h1(1,5) by (intro exI conjI) (assumption | rule refl)+
qed

lemma heap_vector_to_python:
  assumes "owns_vector h a w A"
  shows "heap_PSFBase_to_numpyarray py (Some a) h = Some (PSFBase_to_numpyarray py (VectorSignal (Some w)),
      case PSFBase_to_numpyarray py (VectorSignal (Some w)) of Inl e \<Rightarrow> h | Inr r \<Rightarrow> release_all h A)"
    and "heap_PSFVector_to_numpyarray py (Some a) h = Some (PSFVector_to_numpyarray py (Some w),
      case PSFVector_to_numpyarray py (Some w) of Inl e \<Rightarrow> h
      | Inr r \<Rightarrow> if scalar_typeid (pv_init w) = TYPEID_STRUCT then release_all h A else h)"
proof -
  obtain init cs where "lookup h a = Some (VectorObject init cs)"
    using assms by (auto simp: owns_vector_def)
  then show "heap_PSFBase_to_numpyarray py (Some a) h = Some (PSFBase_to_numpyarray py (VectorSignal (Some w)),
      case PSFBase_to_numpyarray py (VectorSignal (Some w)) of Inl e \<Rightarrow> h | Inr r \<Rightarrow> release_all h A)"
    using heap_owned_vector_to_numpyarray [OF assms, of py True]
    by (simp add: heap_PSFBase_to_numpyarray_def PSFBase_to_numpyarray_def run_simps split: sum.split)
  show "heap_PSFVector_to_numpyarray py (Some a) h = Some (PSFVector_to_numpyarray py (Some w),
      case PSFVector_to_numpyarray py (Some w) of Inl e \<Rightarrow> h
      | Inr r \<Rightarrow> if scalar_typeid (pv_init w) = TYPEID_STRUCT then release_all h A else h)"
    using heap_owned_vector_to_numpyarray [OF assms, of py False]
    by (simp add: heap_PSFVector_to_numpyarray_def PSFVector_to_numpyarray_def split: sum.split)
qed

end
