(* ===== verification/Doubles.thy ===== *)
theory Doubles
  imports Conversions
begin

section \<open>The sum of doubles (\<open>operator+\<close> of the language)\<close>

text \<open>
  The addition of two doubles, to nearest and ties to even: the exact sum in units of the smaller
  last place, rounded by \<open>round_ratio\<close>. \<open>nan\<close> is which not-a-number the processor makes of its operands.
\<close>

definition double_is_nan :: "64 word \<Rightarrow> bool" where
  "double_is_nan w \<longleftrightarrow> \<not> double_finite w \<and> take_bit 52 (uint w) \<noteq> 0"

definition double_signed :: "64 word \<Rightarrow> int" where
  "double_signed w = (if bit w 63 then - double_mantissa w else double_mantissa w)"

definition double_sum :: "64 word \<Rightarrow> 64 word \<Rightarrow> int \<times> int" where
  "double_sum a b = (let e = min (double_exponent a) (double_exponent b) in
     (double_signed a * 2 ^ nat (double_exponent a - e) + double_signed b * 2 ^ nat (double_exponent b - e), e))"

definition double_add :: "(64 word \<Rightarrow> 64 word \<Rightarrow> 64 word) \<Rightarrow> 64 word \<Rightarrow> 64 word \<Rightarrow> 64 word" where
  "double_add nan a b =
     (if double_is_nan a \<or> double_is_nan b \<or> \<not> double_finite a \<and> \<not> double_finite b \<and> bit a 63 \<noteq> bit b 63
      then nan a b
      else if \<not> double_finite a then a
      else if \<not> double_finite b then b
      else case double_sum a b of (s, e) \<Rightarrow>
        if s = 0 then signed_double (bit a 63 \<and> bit b 63) 0
        else signed_double (s < 0) (round_ratio (\<bar>s\<bar> * 2 ^ nat e) (2 ^ nat (- e))))"

lemma double_sum_commute: "double_sum a b = double_sum b a"
  by (simp add: double_sum_def Let_def min.commute)

text \<open>The sum does not depend on the order of two numbers.\<close>

lemma double_add_commute: "double_finite a \<Longrightarrow> double_finite b \<Longrightarrow> double_add nan a b = double_add nan b a"
  by (cases "bit a 63"; cases "bit b 63"; simp add: double_add_def double_is_nan_def double_sum_commute [of a b] split: prod.split)

subsection \<open>The bits of a double\<close>

lemma double_fields:
  "0 \<le> take_bit 11 (uint (drop_bit 52 w))" "take_bit 11 (uint (drop_bit 52 w)) < 2 ^ 11"
  "0 \<le> take_bit 52 (uint w)" "take_bit 52 (uint w) < 2 ^ 52" for w :: "64 word"
  using take_bit_int_less_exp [of 11 "uint (drop_bit 52 w)"] take_bit_int_less_exp [of 52 "uint w"] by simp_all

lemma double_signed_fields:
  fixes w :: "64 word"
  shows "signed_double (bit w 63) (take_bit 11 (uint (drop_bit 52 w)) * 2 ^ 52 + take_bit 52 (uint w)) = w"
proof (rule bit_word_eqI)
  fix n assume n: "n < LENGTH(64)"
  define e where "e = take_bit 11 (uint (drop_bit 52 w))"
  define f where "f = take_bit 52 (uint w)"
  let ?v = "signed_double (bit w 63) (e * 2 ^ 52 + f)"
  note fields = signed_double_fields [OF double_fields, of "bit w 63" w w, folded e_def f_def]
  have low: "bit ?v n = bit w n" if "n < 52"
  proof -
    have "bit (take_bit 52 (uint ?v)) n = bit (take_bit 52 (uint w)) n"
      using fields(2) by (simp add: f_def)
    with that show ?thesis by (simp add: bit_take_bit_iff bit_uint_iff)
  qed
  have high: "bit ?v n = bit w n" if "52 \<le> n" "n < 63"
  proof -
    have "bit (take_bit 11 (uint (drop_bit 52 ?v))) (n - 52) = bit (take_bit 11 (uint (drop_bit 52 w))) (n - 52)"
      using fields(1) by (simp add: e_def)
    moreover have "n - 52 < 11" "n - 52 < 64"
      using that by arith+
    ultimately show ?thesis
      using that by (simp add: bit_take_bit_iff bit_uint_iff bit_drop_bit_eq)
  qed
  from n consider "n < 52" | "52 \<le> n" "n < 63" | "n = 63" by fastforce
  then show "bit (signed_double (bit w 63) (take_bit 11 (uint (drop_bit 52 w)) * 2 ^ 52 + take_bit 52 (uint w))) n = bit w n"
    unfolding e_def [symmetric] f_def [symmetric] using low high fields(3) by cases auto
qed

subsection \<open>Rounding a double\<close>

lemma log2_unique: "2 ^ k \<le> m \<Longrightarrow> m < 2 * 2 ^ k \<Longrightarrow> log2 m = k"
proof -
  assume m: "2 ^ k \<le> m" "m < 2 * 2 ^ k"
  have "(1 :: int) \<le> 2 ^ k" by simp
  with m(1) have "1 \<le> m" by linarith
  note b = log2_bounds [OF this]
  have "(2 :: int) ^ k < 2 ^ Suc (log2 m)" "(2 :: int) ^ log2 m < 2 ^ Suc k"
    using m b by simp_all
  then show ?thesis
    by (simp only: power_strict_increasing_iff one_less_numeral_iff semiring_norm)
qed

lemma log2_scale: "1 \<le> m \<Longrightarrow> log2 (m * 2 ^ k) = log2 m + k"
  using log2_bounds [of m] by (intro log2_unique) (simp_all add: power_add)

lemma exponent_of_scale:
  assumes "1 \<le> m"
  shows "exponent_of (m * 2 ^ x) (2 ^ y) = int (log2 m) + int x - int y"
proof -
  define e where "e = int (log2 m) + int x - int y"
  have "log2 (m * 2 ^ x) = log2 m + x" "log2 (2 ^ y) = y"
    using log2_scale [OF assms, of x] log2_scale [of 1 y] by (simp_all add: log2.simps)
  moreover have "\<not> m * 2 ^ x * 2 ^ nat (- e) < 2 ^ y * 2 ^ nat e"
  proof -
    have "y + nat e = log2 m + (x + nat (- e))"
      unfolding e_def by linarith
    then have "(2 :: int) ^ y * 2 ^ nat e = 2 ^ log2 m * 2 ^ (x + nat (- e))"
      by (simp add: power_add [symmetric])
    also have "\<dots> \<le> m * 2 ^ (x + nat (- e))"
      using log2_bounds [OF assms] by simp
    finally show ?thesis by (simp add: power_add mult.assoc)
  qed
  ultimately show ?thesis
    by (simp add: exponent_of_def Let_def e_def)
qed

lemma half_even_multiple: "0 < k \<Longrightarrow> half_even (m * k) k = m"
  by (simp add: half_even_def)

text \<open>The nearest double to the value of a double is that double.\<close>

lemma round_ratio_double:
  assumes "double_finite w" and "double_mantissa w \<noteq> 0" and "int i - int j = double_exponent w"
  shows "signed_double (bit w 63) (round_ratio (double_mantissa w * 2 ^ i) (2 ^ j)) = w"
proof -
  define x where "x = take_bit 11 (uint (drop_bit 52 w))"
  define f where "f = take_bit 52 (uint w)"
  define m where "m = double_mantissa w"
  define e where "e = double_exponent w"
  have x: "0 \<le> x" "x < 2 ^ 11" "x \<noteq> 2047" and f: "0 \<le> f" "f < 2 ^ 52"
    using double_fields [of w] assms(1) by (simp_all add: x_def f_def double_finite_def)
  have m: "m = (if x = 0 then f else 2 ^ 52 + f)" and e: "e = max 1 x - 1075"
    by (simp_all add: m_def e_def x_def f_def double_mantissa_def double_exponent_def)
  have "1 \<le> m"
    using assms(2) f m by (simp add: m_def [symmetric] split: if_splits)
  have log: "max (int (log2 m) + e) (-1022) = e + 52"
  proof (cases "x = 0")
    case True
    have "(2 :: int) ^ log2 m < 2 ^ 52"
      using log2_bounds [OF \<open>1 \<le> m\<close>] m f True by simp
    then have "log2 m < 52"
      by (simp only: power_strict_increasing_iff one_less_numeral_iff semiring_norm)
    with True e show ?thesis by simp
  next
    case False
    with m f have "log2 m = 52"
      by (intro log2_unique) simp_all
    with False e x show ?thesis by simp
  qed
  have "i + nat (- e) = j + nat e"
    using assms(3) unfolding e_def by linarith
  then have "half_even (m * 2 ^ i * 2 ^ nat (- e)) (2 ^ j * 2 ^ nat e) = m"
    using half_even_multiple [of "2 ^ (j + nat e)" m] by (simp add: mult.assoc power_add [symmetric])
  moreover have "exponent_of (m * 2 ^ i) (2 ^ j) = int (log2 m) + e"
    using assms(3) exponent_of_scale [OF \<open>1 \<le> m\<close>, of i j] by (simp add: e_def)
  ultimately have "round_ratio (m * 2 ^ i) (2 ^ j) = min ((e + 1074) * 2 ^ 52 + m) (2047 * 2 ^ 52)"
    using log by (simp add: round_ratio_def Let_def)
  also have "\<dots> = x * 2 ^ 52 + f"
    using m e x f by (auto simp: min_def)
  finally show ?thesis
    unfolding m_def e_def x_def f_def by (simp only: double_signed_fields)
qed

text \<open>To add to zero is exact.\<close>

lemma double_add_zero:
  assumes "double_finite w" and "double_mantissa w \<noteq> 0"
  shows "double_add nan 0 w = w"
proof -
  have m: "0 < double_mantissa w"
    by (rule le_neq_trans [OF _ assms(2) [symmetric]]) (simp add: double_mantissa_def)
  have zero: "double_mantissa 0 = 0" "double_exponent 0 = -1074" "double_finite 0"
    by (simp_all add: double_mantissa_def double_exponent_def double_finite_def)
  have e: "-1074 \<le> double_exponent w"
    by (simp add: double_exponent_def)
  with zero have sum: "double_sum 0 w = (double_signed w * 2 ^ nat (double_exponent w + 1074), -1074)"
    by (simp add: double_sum_def Let_def double_signed_def min_def)
  have "int (nat (double_exponent w + 1074)) - int 1074 = double_exponent w"
    using e by simp
  from round_ratio_double [OF assms this] m assms(1) zero(3) show ?thesis
    by (cases "bit w 63") (simp_all add: double_add_def double_is_nan_def sum double_signed_def abs_mult mult_less_0_iff)
qed

end
