(* ===== verification/TestPrograms.thy ===== *)
theory TestPrograms
  imports Doubles Printing Handles SweepImage
begin

section \<open>The program \<open>psftest\<close> (src/psftest.cc)\<close>

text \<open>
  \<open>noisesummary\<close> adds the member \<open>total\<close> of the fourth point of each trace of one file but \<open>out\<close>, while the
  data set of another file is open, whose header \<open>main\<close> prints. A vector that has been used is deleted,
  which on values is nothing. The data sets are those of Handles, in one process; the code reads
  them as the data sets of DataSet that they represent.

  What the operating system has for the file names: the descriptor and the bytes of \<open>::open\<close>, the
  address of \<open>mmap\<close>, whether \<open>::close\<close> succeeds.
\<close>

record system =
  os_open :: "string \<Rightarrow> (int \<times> image) option"
  os_mmap :: "string \<Rightarrow> int option"
  os_close :: "string \<Rightarrow> bool"

text \<open>The fourth element of a vector of structs, which is \<open>NULL\<close> where the vector has another class.\<close>

definition fourth_struct :: "psfvector option \<Rightarrow> struct res" where
  "fourth_struct vec =
     (if \<not> is_struct_vector vec then Inl (Undefined NullPointer)
      else case vec of
        None \<Rightarrow> Inl (Undefined NullPointer)
      | Some v \<Rightarrow>
          if length (pv_elems v) \<le> 3 then Inl (Undefined OutOfBounds)
          else (case pv_elems v ! 3 of StructScalar data \<Rightarrow> Inr data | _ \<Rightarrow> Inl (Undefined WrongType)))"

definition add_total :: "(64 word \<Rightarrow> 64 word \<Rightarrow> 64 word) \<Rightarrow> struct \<Rightarrow> 64 word \<Rightarrow> (64 word) res" where
  "add_total nan data acc =
     (case map_find (struct_map data) ''total'' of
        Some v \<Rightarrow> rbind (scalar_to_double v) (\<lambda>d. Inr (double_add nan acc d))
      | None \<Rightarrow> Inr acc)"

fun noise_loop :: "(64 word \<Rightarrow> 64 word \<Rightarrow> 64 word) \<Rightarrow> dataset \<Rightarrow> string list \<Rightarrow> 64 word \<Rightarrow> (64 word) res option" where
  "noise_loop nan psfnoise [] acc = Some (Inr acc)"
| "noise_loop nan psfnoise (i # names) acc =
     (if i \<noteq> ''out''
      then (case get_signal_vector psfnoise i of
          None \<Rightarrow> None
        | Some r \<Rightarrow>
            (case rbind r (\<lambda>valvec. rbind (fourth_struct valvec) (\<lambda>data. add_total nan data acc)) of
               Inl e \<Rightarrow> Some (Inl e)
             | Inr acc \<Rightarrow> noise_loop nan psfnoise names acc))
      else noise_loop nan psfnoise names acc)"

definition noise_sum :: "(64 word \<Rightarrow> 64 word \<Rightarrow> 64 word) \<Rightarrow> dataset \<Rightarrow> (64 word) res option" where
  "noise_sum nan psfnoise =
     (case get_signal_names psfnoise of
        Inl e \<Rightarrow> Some (Inl e)
      | Inr names \<Rightarrow> noise_loop nan psfnoise names 0)"

definition endl :: string where
  "endl = [CHR 0x0A]"

definition pnoisefile :: string where
  "pnoisefile = ''/nfs/home/henrik/spectre/1/pnoise.raw/pnoise_pout3g.pnoise''"

definition srcsweepfile :: string where
  "srcsweepfile = ''../examples/data/srcSweep''"

text \<open>
  A run changes the process, writes a text and returns or fails; \<open>None\<close> where it does not end. An
  exception is not caught: the program is terminated with what it has written.
\<close>

type_synonym program_run = "process \<times> string \<times> unit res"

definition noisesummary :: "(64 word \<Rightarrow> 64 word \<Rightarrow> 64 word) \<Rightarrow> system \<Rightarrow> process \<Rightarrow> program_run option" where
  "noisesummary nan os p =
     (case hd_new (os_open os pnoisefile) (os_mmap os pnoisefile) p of
        (p, Inl e) \<Rightarrow> Some (p, [], Inl e)
      | (p, Inr psfnoise) \<Rightarrow>
          map_option (\<lambda>r. case r of
              Inl e \<Rightarrow> (p, [], Inl e)
            | Inr acc \<Rightarrow> (case hd_destroy (os_close os pnoisefile) psfnoise p of
                (p, r) \<Rightarrow> (p, ''Total: '' @ print_double acc @ endl, r)))
            (noise_sum nan (view p psfnoise)))"

fun print_headerprops :: "(string, scalar) stdmap \<Rightarrow> string \<times> unit res" where
  "print_headerprops [] = ([], Inr ())"
| "print_headerprops ((first, second) # i) =
     (case print_scalar second of
        Inl e \<Rightarrow> (first @ '':'', Inl e)
      | Inr s \<Rightarrow> (case print_headerprops i of (out, r) \<Rightarrow> (first @ '':'' @ s @ endl @ out, r)))"

definition print_header :: "dataset \<Rightarrow> string \<times> unit res" where
  "print_header srcsweep =
     (case PSFDataSet_get_header_properties srcsweep of
        Inl e \<Rightarrow> (''Header properties:'' @ endl, Inl e)
      | Inr headerprops \<Rightarrow> (case print_headerprops headerprops of (out, r) \<Rightarrow> (''Header properties:'' @ endl @ out, r)))"

definition psftest_main :: "(64 word \<Rightarrow> 64 word \<Rightarrow> 64 word) \<Rightarrow> system \<Rightarrow> process \<Rightarrow> program_run option" where
  "psftest_main nan os p =
     (case hd_new (os_open os srcsweepfile) (os_mmap os srcsweepfile) p of
        (p, Inl e) \<Rightarrow> Some (p, [], Inl e)
      | (p, Inr srcsweep) \<Rightarrow>
          map_option (\<lambda>(p, out, r). case r of
              Inl e \<Rightarrow> (p, out, Inl e)
            | Inr u \<Rightarrow> (case print_header (view p srcsweep) of
                (out', Inl e) \<Rightarrow> (p, out @ out', Inl e)
              | (out', Inr u) \<Rightarrow> (case hd_destroy (os_close os srcsweepfile) srcsweep p of
                  (p, r) \<Rightarrow> (p, out @ out', r))))
            (noisesummary nan os p))"

subsection \<open>The header\<close>

definition props_text :: "(string, scalar) stdmap \<Rightarrow> string" where
  "props_text m = concat (map (\<lambda>(key, v). key @ '':'' @ (case print_scalar v of Inr s \<Rightarrow> s | Inl e \<Rightarrow> []) @ endl) m)"

definition printable :: "(string, scalar) stdmap \<Rightarrow> bool" where
  "printable m \<longleftrightarrow> list_all (\<lambda>(key, v). \<exists>s. print_scalar v = Inr s) m"

lemma print_headerprops_text: "printable m \<Longrightarrow> print_headerprops m = (props_text m, Inr ())"
  by (induction m) (auto simp: printable_def props_text_def)

lemma set_map_put: "set (map_put k v m) \<subseteq> insert (k, v) (set m)"
  by (induction k v m rule: map_put.induct) (auto split: if_splits)

lemma printable_put: "printable m \<Longrightarrow> print_scalar v = Inr s \<Longrightarrow> printable (map_put k v m)"
  using set_map_put [of k v m] by (fastforce simp: printable_def list_all_iff)

lemma printable_extend:
  "printable (m_propmap pb) \<Longrightarrow> \<forall>p \<in> set ps. \<exists>v s. prop_value p = Some v \<and> print_scalar v = Inr s \<Longrightarrow>
     printable (m_propmap (block_extend pb ps))"
proof (induction ps arbitrary: pb)
  case (Cons p ps)
  then obtain v s where v: "prop_value p = Some v" "print_scalar v = Inr s" by auto
  with Cons printable_put show ?case
    by (simp add: block_extend_Cons)
qed simp

lemma print_Property_value: "print_Property p = Inr s \<Longrightarrow> \<exists>v t. prop_value p = Some v \<and> print_scalar v = Inr t"
  by (auto simp: print_Property_def res_simps split: option.splits)

text \<open>What is read as a property can be printed, and so the header of every opened file.\<close>

lemma header_printable:
  assumes "HeaderSection_deserialize img buf abspos = Inr (pb, n)"
  shows "printable (m_propmap pb)"
proof -
  obtain children e where run: "child_run HeaderSection_child_factory None img (8 + buf) children e"
    and pb: "pb = block_extend empty_block (map property_of children)"
    using HeaderSection_deserialize_Inr [OF assms] by blast
  have "list_all (\<lambda>ch. \<exists>p v s. ch = PropertyChunk p \<and> prop_value p = Some v \<and> print_scalar v = Inr s) children"
    using run by (rule child_run_all)
      (auto simp: child_factory_defs res_simps dest!: print_Property_read print_Property_value split: if_splits)
  then show ?thesis
    unfolding pb by (intro printable_extend) (auto simp: printable_def empty_block_def list_all_iff property_of_def)
qed

lemma PSFFile_deserialize_header:
  assumes "PSFFile_deserialize psf img nbytes = Inr psf'"
  shows "\<exists>header buf abspos n. m_header psf' = Some header \<and> HeaderSection_deserialize img buf abspos = Inr (header, n)"
proof -
  from assms obtain sections header psf1 psf2 psf3 where
    header: "at_section HeaderSection_deserialize img sections SECTION_HEADER = Inr header"
    and reads: "read_types img sections (psf\<lparr>m_header := Some header\<rparr>) = Inr psf1"
      "read_sweeps img sections psf1 = Inr psf2" "read_traces img sections psf2 = Inr psf3"
      "read_values img sections psf3 = Inr psf'"
    by (auto simp: PSFFile_deserialize_def res_simps)
  have "m_header psf1 = Some header" "m_header psf2 = m_header psf1" "m_header psf3 = m_header psf2"
    "m_header psf' = m_header psf3"
    using reads by (auto simp: read_types_def read_sweeps_def read_traces_def read_values_def res_simps split: if_splits)
  with at_section_Inr [OF header] show ?thesis by auto
qed

lemma opened_printable:
  assumes "PSFDataSet_new (Some file) = Inr ds"
  obtains props where "PSFDataSet_get_header_properties ds = Inr props" "printable props"
proof -
  obtain psf where psf: "PSFFile_deserialize new_psffile (mapped file) (mapped_size file) = Inr psf"
    and ds: "ds_psf ds = psf" "ds_is_open ds"
    using assms by (auto simp: PSFDataSet_new_def PSFDataSet_open_def PSFFile_open_def res_simps split: if_splits)
  from PSFFile_deserialize_header [OF psf] obtain header where
    "m_header psf = Some header" "printable (m_propmap header)"
    using header_printable by blast
  with ds that show thesis
    by (simp add: PSFDataSet_get_header_properties_def verify_open_def get_header_properties_def deref_def)
qed

lemma print_header_opened:
  assumes "PSFDataSet_new (Some file) = Inr ds"
  obtains props where "PSFDataSet_get_header_properties ds = Inr props" "printable props"
    "print_header ds = (''Header properties:'' @ endl @ props_text props, Inr ())"
  using opened_printable [OF assms] print_headerprops_text that by (metis (mono_tags, lifting) print_header_def old.prod.case old.sum.simps(6))

subsection \<open>What a run leaves in the process\<close>

text \<open>The file of a name can be opened, mapped where nothing is, and closed.\<close>

definition os_file :: "system \<Rightarrow> process \<Rightarrow> string \<Rightarrow> int \<Rightarrow> int \<Rightarrow> image \<Rightarrow> bool" where
  "os_file os p name fd a file \<longleftrightarrow> os_open os name = Some (fd, file) \<and> os_mmap os name = Some a \<and> os_close os name
     \<and> fd \<noteq> -1 \<and> 0 < mapped_size file \<and> free_at p a (mapped_size file)"

lemma os_file_new:
  assumes "os_file os p name fd a file" and "PSFDataSet_new (Some file) = Inr ds"
  obtains d where
    "hd_new (os_open os name) (os_mmap os name) p = (posix_mmap a (mapped file) (p\<lparr>pr_fds := fd # pr_fds p\<rparr>), Inr d)"
    "view (posix_mmap a (mapped file) (p\<lparr>pr_fds := fd # pr_fds p\<rparr>)) d = ds"
    "hd_destroy (os_close os name) d (posix_mmap a (mapped file) (p\<lparr>pr_fds := fd # pr_fds p\<rparr>)) = (p, Inr ())"
proof -
  have os: "os_open os name = Some (fd, file)" "os_mmap os name = Some a" "os_close os name"
    "fd \<noteq> -1" "0 < mapped_size file" "free_at p a (mapped_size file)"
    using assms(1) by (simp_all add: os_file_def)
  obtain p1 d where new: "hd_new (Some (fd, file)) (Some a) p = (p1, Inr d)"
    using hd_new_total [OF assms(2) os(5)] .
  from hd_new_opened [OF os(6,5) new] new_destroy_process [OF os(6,5,4) new] new os(1-3) assms(2) that [of d]
  show thesis by simp
qed

lemma os_file_fds [simp]: "os_file os (p\<lparr>pr_fds := fs\<rparr>) name fd a file = os_file os p name fd a file"
  by (simp add: os_file_def)

text \<open>A run from the sum of the noise file and the header of the other.\<close>

lemma noisesummary_run:
  assumes "os_file os p pnoisefile fd a noise" and "PSFDataSet_new (Some noise) = Inr psfnoise"
    and "noise_sum nan psfnoise = Some (Inr acc)"
  shows "noisesummary nan os p = Some (p, ''Total: '' @ print_double acc @ endl, Inr ())"
  by (rule os_file_new [OF assms(1,2)]) (simp add: noisesummary_def assms(3))

lemma psftest_run:
  assumes "os_file os p srcsweepfile fd a src" and "PSFDataSet_new (Some src) = Inr srcsweep"
    and "os_file os (posix_mmap a (mapped src) p) pnoisefile fd' b noise" and "PSFDataSet_new (Some noise) = Inr psfnoise"
    and "noise_sum nan psfnoise = Some (Inr acc)"
  obtains props where "PSFDataSet_get_header_properties srcsweep = Inr props" "printable props"
    "psftest_main nan os p = Some (p, ''Total: '' @ print_double acc @ endl @ ''Header properties:'' @ endl @ props_text props, Inr ())"
proof -
  obtain d where d: "hd_new (os_open os srcsweepfile) (os_mmap os srcsweepfile) p
      = (posix_mmap a (mapped src) (p\<lparr>pr_fds := fd # pr_fds p\<rparr>), Inr d)"
    "view (posix_mmap a (mapped src) (p\<lparr>pr_fds := fd # pr_fds p\<rparr>)) d = srcsweep"
    "hd_destroy (os_close os srcsweepfile) d (posix_mmap a (mapped src) (p\<lparr>pr_fds := fd # pr_fds p\<rparr>)) = (p, Inr ())"
    using os_file_new [OF assms(1,2)] .
  have "os_file os (posix_mmap a (mapped src) (p\<lparr>pr_fds := fd # pr_fds p\<rparr>)) pnoisefile fd' b noise"
    using assms(3) by (simp add: mmap_with_fds)
  note noise = noisesummary_run [OF this assms(4,5)]
  obtain props where props: "PSFDataSet_get_header_properties srcsweep = Inr props" "printable props"
    "print_header srcsweep = (''Header properties:'' @ endl @ props_text props, Inr ())"
    using print_header_opened [OF assms(2)] .
  show thesis
    using props(3) by (intro that [OF props(1,2)]) (simp add: psftest_main_def d noise)
qed

subsection \<open>The sum\<close>

lemma is_struct_full:
  assumes "typedef_wf td" and "scalar_full td (StructScalar st)"
  shows "td_datatypeid td = TYPEID_STRUCT"
proof (cases "td_structdef td")
  case None
  with assms(2) show ?thesis
    by (cases "(td, StructScalar st)" rule: scalar_full.cases) (auto simp: typeid_defs)
next
  case (Some sd)
  with assms(1) show ?thesis
    by (auto simp: typedef_wf_iff typeid_defs split: if_splits)
qed

text \<open>What the loop adds for a vector.\<close>

definition struct_total :: "scalar \<Rightarrow> (64 word list) option" where
  "struct_total v =
     (case v of
        StructScalar data \<Rightarrow> (case map_find (struct_map data) ''total'' of
          Some x \<Rightarrow> (case scalar_to_double x of Inr d \<Rightarrow> Some [d] | Inl e \<Rightarrow> None)
        | None \<Rightarrow> Some [])
      | _ \<Rightarrow> None)"

definition vector_total :: "dataset \<Rightarrow> string \<Rightarrow> (64 word list) option" where
  "vector_total ds i =
     (if i = ''out'' then Some []
      else case get_signal_vector ds i of
        Some (Inr (Some vec)) \<Rightarrow> if is_struct_vector (Some vec) \<and> 3 < length (pv_elems vec)
          then struct_total (pv_elems vec ! 3) else None
      | _ \<Rightarrow> None)"

lemma fourth_total:
  "is_struct_vector (Some vec) \<Longrightarrow> 3 < length (pv_elems vec) \<Longrightarrow> struct_total (pv_elems vec ! 3) = Some ts \<Longrightarrow>
   \<exists>data. fourth_struct (Some vec) = Inr data \<and> add_total nan data acc = Inr (foldl (double_add nan) acc ts)"
  by (auto simp: fourth_struct_def struct_total_def add_total_def split: scalar.splits option.splits sum.splits)

lemma noise_loop_total:
  "list_all (\<lambda>i. vector_total ds i \<noteq> None) names \<Longrightarrow>
   noise_loop nan ds names acc = Some (Inr (foldl (double_add nan) acc (concat (map (the \<circ> vector_total ds) names))))"
proof (induction names arbitrary: acc)
  case (Cons i names)
  show ?case
  proof (cases "i = ''out''")
    case True
    with Cons show ?thesis by (simp add: vector_total_def)
  next
    case False
    from Cons.prems obtain ts where ts: "vector_total ds i = Some ts" by auto
    with False obtain vec where vec: "get_signal_vector ds i = Some (Inr (Some vec))"
      "is_struct_vector (Some vec)" "3 < length (pv_elems vec)" "struct_total (pv_elems vec ! 3) = Some ts"
      by (auto simp: vector_total_def split: option.splits sum.splits if_splits)
    from fourth_total [OF vec(2-4)] obtain data where "fourth_struct (Some vec) = Inr data"
      "add_total nan data acc = Inr (foldl (double_add nan) acc ts)" by blast
    with False vec(1) ts Cons show ?thesis by simp
  qed
qed simp

lemma noise_sum_total:
  "get_signal_names ds = Inr names \<Longrightarrow> list_all (\<lambda>i. vector_total ds i \<noteq> None) names \<Longrightarrow>
   noise_sum nan ds = Some (Inr (foldl (double_add nan) 0 (concat (map (the \<circ> vector_total ds) names))))"
  by (simp add: noise_sum_def noise_loop_total)

text \<open>A signal that is not a vector of structs of four points is undefined behaviour.\<close>

lemma noise_loop_first:
  "i \<noteq> ''out'' \<Longrightarrow> get_signal_vector ds i = Some (Inr vec) \<Longrightarrow>
   (\<not> is_struct_vector vec \<longrightarrow> noise_loop nan ds (i # names) acc = Some (Inl (Undefined NullPointer))) \<and>
   (is_struct_vector vec \<and> length (pv_elems (the vec)) \<le> 3 \<longrightarrow>
      noise_loop nan ds (i # names) acc = Some (Inl (Undefined OutOfBounds)))"
  by (auto simp: fourth_struct_def is_struct_vector_def split: option.splits)

text \<open>The traces of a written file.\<close>

definition noise_trace :: "sweepfile \<Rightarrow> string \<Rightarrow> (64 word list) option" where
  "noise_trace f i =
     (if i = ''out'' then Some []
      else case get_trace_by_name (container_of (sf_traces f)) i of
        Inl e \<Rightarrow> None
      | Inr r \<Rightarrow> if r \<in> set (sf_refs f) then struct_total (sf_vals f (tr_id r) 3) else None)"

definition noise_names :: "sweepfile \<Rightarrow> string list" where
  "noise_names f = TraceSection_get_names (container_of (sf_traces f))"

definition noise_totals :: "sweepfile \<Rightarrow> 64 word list" where
  "noise_totals f = concat (map (the \<circ> noise_trace f) (noise_names f))"

definition noise_ok :: "sweepfile \<Rightarrow> bool" where
  "noise_ok f \<longleftrightarrow> sections_ok f \<and> points_ok f \<and> 3 < sf_npoints f \<and> list_all (\<lambda>i. noise_trace f i \<noteq> None) (noise_names f)"

lemma noise_file_vector:
  assumes "noise_ok f" and "noise_trace f i = Some ts" and "PSFDataSet_new (Some (enc_file (sweep_sections f))) = Inr ds"
  shows "vector_total ds i = Some ts"
proof (cases "i = ''out''")
  case False
  have ok: "sections_ok f" "points_ok f" "3 < sf_npoints f"
    using assms(1) by (simp_all add: noise_ok_def)
  from assms(2) False obtain r where r: "get_trace_by_name (container_of (sf_traces f)) i = Inr r"
    "r \<in> set (sf_refs f)" "struct_total (sf_vals f (tr_id r) 3) = Some ts"
    by (auto simp: noise_trace_def split: sum.splits if_splits)
  with ok have vals: "ref_values_ok (sf_typesection f) (sf_vals f) (sf_npoints f) r"
    by (simp add: points_ok_def list_all_iff)
  then obtain td where td: "DataTypeRef_get_datatype (sf_typesection f) r = Inr td"
    "typedef_wf td" "value_ok td (sf_vals f (tr_id r) 3)"
    using ok(3) by (auto simp: ref_values_ok_def list_all_iff split: sum.splits)
  obtain data where data: "sf_vals f (tr_id r) 3 = StructScalar data"
    using r(3) by (auto simp: struct_total_def split: scalar.splits)
  obtain vss paramtype ptd offset where psf: "ds_psf ds = (sf_psf f)\<lparr>m_sweepvalues := Some vss\<rparr>"
    and stored: "simple_stored ds (sf_npoints f) vss paramtype ptd (sf_params f)
         [(r, td, offset, map (sf_vals f (tr_id r)) [0..<sf_npoints f])]"
    using simple_file_stored [OF ok(1,2)] r(2) td(1) assms(3) by (metis Inr_inject)
  let ?c = "(r, td, offset, map (sf_vals f (tr_id r)) [0..<sf_npoints f])"
  have "rbind (get_trace_section (ds_psf ds)) (\<lambda>traces. get_trace_by_name traces i) = Inr (col_ref ?c)"
    using r(1) psf by (simp add: get_trace_section_def deref_def sf_psf_def col_ref_def)
  note vec = stored_signal_vector [OF disjI1 [OF stored] this]
  have "td_datatypeid td = TYPEID_STRUCT"
    using is_struct_full [of td data] td(2,3) data by (simp add: value_ok_def)
  then have "is_struct_vector (Some (col_vector ?c))"
    using col_init_fresh [OF td(2), of r offset] by (simp add: is_struct_vector_def col_vector_def fresh_for_def)
  with vec False ok(3) r(3) show ?thesis
    by (simp add: vector_total_def col_vector_def)
qed (use assms in \<open>simp add: vector_total_def noise_trace_def\<close>)

lemma noise_file_sum:
  assumes "noise_ok f"
  obtains psfnoise where "PSFDataSet_new (Some (enc_file (sweep_sections f))) = Inr psfnoise"
    "noise_sum nan psfnoise = Some (Inr (foldl (double_add nan) 0 (noise_totals f)))"
proof -
  have ok: "sections_ok f" "points_ok f" and traces: "list_all (\<lambda>i. noise_trace f i \<noteq> None) (noise_names f)"
    using assms by (simp_all add: noise_ok_def)
  obtain ds vss where new: "PSFDataSet_new (Some (enc_file (sweep_sections f))) = Inr ds"
    and psf: "ds_psf ds = (sf_psf f)\<lparr>m_sweepvalues := Some vss\<rparr>"
    using simple_file_stored [OF ok] by metis
  have same: "vector_total ds i = noise_trace f i" if "i \<in> set (noise_names f)" for i
    using noise_file_vector [OF assms _ new] traces that by (force simp: list_all_iff)
  have "ds_is_open ds"
    using new by (auto simp: PSFDataSet_new_def PSFDataSet_open_def res_simps)
  then have "get_signal_names ds = Inr (noise_names f)"
    using psf by (simp add: get_signal_names_def verify_open_def PSFFile_get_names_def sf_psf_def noise_names_def)
  moreover have "list_all (\<lambda>i. vector_total ds i \<noteq> None) (noise_names f)"
    using traces same by (simp add: list_all_iff)
  moreover have "noise_totals f = concat (map (the \<circ> vector_total ds) (noise_names f))"
    using same by (simp add: noise_totals_def cong: map_cong)
  ultimately show thesis
    using that [OF new] noise_sum_total [of ds "noise_names f" nan] by simp
qed

end
