(* ===== verification/Examples.thy ===== *)
theory Examples
  imports WindowImage Handles Inversion SweepIterator Printing PythonCalls FileObjects PythonMemory
    TestPrograms
begin

section \<open>Small concrete objects\<close>

text \<open>
  Types, traces, values and images small enough to be computed with; the theorems of
  \<open>Spec2Isabelle\<close> are applied to them.
\<close>

definition ex_block :: propertyblock where
  "ex_block = block_extend empty_block
     [Property 33 ''key'' (Some (PSFStringScalar ''node'')), Property 34 ''n'' (Some (PSFInt32Scalar (Some 7)))]"

definition ex_double :: datatypedef where
  "ex_double = DataTypeDef 1 ''V'' 11 ex_block None 8"

definition ex_struct :: datatypedef where
  "ex_struct = DataTypeDef 2 ''S'' 16 empty_block (Some (StructDef
     [DataTypeDef 3 ''a'' 5 empty_block None 4, DataTypeDef 4 ''b'' 11 empty_block None 8] 12)) 12"

text \<open>A struct with a complex member.\<close>

definition ex_complex_struct :: datatypedef where
  "ex_complex_struct = DataTypeDef 5 ''C'' 16 empty_block
     (Some (StructDef [DataTypeDef 6 ''z'' 12 empty_block None 16] 16)) 16"

definition ex_container :: "chunk list \<Rightarrow> indexedcontainer" where
  "ex_container children = \<lparr>ic_children = children, ic_idmap = create_idmap children,
     ic_namemap = create_namemap children\<rparr>"

definition ex_types :: indexedcontainer where
  "ex_types = ex_container [DataTypeDefChunk ex_double, DataTypeDefChunk ex_struct]"

definition ex_ref :: "int \<Rightarrow> string \<Rightarrow> int \<Rightarrow> datatyperef" where
  "ex_ref i name typeid = \<lparr>tr_id = i, tr_name = name, tr_datatypeid = typeid, tr_properties = empty_block\<rparr>"

definition ex_group :: "string \<Rightarrow> datatyperef list \<Rightarrow> groupdef" where
  "ex_group name refs = \<lparr>gd_id = 9, gd_name = name, gd_nchildren = int (length refs), gd_children = refs,
     gd_indexmap = create_valueindexmap refs, gd_namemap = index_map (map tr_name refs)\<rparr>"

text \<open>A simple sweep of two points over a double and a struct.\<close>

definition ex_header :: "int \<Rightarrow> propertyblock" where
  "ex_header n = block_extend empty_block
     [Property 34 ''PSF sweeps'' (Some (PSFInt32Scalar (Some 1))),
      Property 34 ''PSF sweep points'' (Some (PSFInt32Scalar (Some (word_of_int n))))]"

definition ex_struct_value :: "32 word \<Rightarrow> 64 word \<Rightarrow> scalar" where
  "ex_struct_value w d = StructScalar (Struct (td_structdef ex_struct)
     [(''a'', PSFInt32Scalar (Some w)), (''b'', PSFDoubleScalar (Some d))])"

definition ex_doubles :: "64 word list \<Rightarrow> scalar list" where
  "ex_doubles ds = map (\<lambda>d. PSFDoubleScalar (Some d)) ds"

definition ex_traces :: indexedcontainer where
  "ex_traces = ex_container [DataTypeRefChunk (ex_ref 21 ''out'' 1), DataTypeRefChunk (ex_ref 22 ''s'' 2)]"

definition ex_sweep :: "bool \<Rightarrow> valuesectionsweep" where
  "ex_sweep windowed = \<lparr>vss_windowedsweep = windowed, vss_valuesize = 36, vss_ntraces = 0,
     vss_offsetmap = [(21, 8), (22, 24)], vss_valuebuf = 0, vss_endbuf = 0\<rparr>"

definition ex_psf :: psffile where
  "ex_psf = \<lparr>m_header = Some (ex_header 2), m_types = Some ex_types,
     m_sweeps = Some [DataTypeRefChunk (ex_ref 20 ''time'' 1)], m_traces = Some ex_traces,
     m_sweepvalues = Some (ex_sweep False), m_nonsweepvalues = None\<rparr>"

definition ex_point :: "64 word \<Rightarrow> 64 word \<Rightarrow> 32 word \<Rightarrow> 64 word \<Rightarrow> 8 word list" where
  "ex_point t v a b = enc_int 16 @ enc_int 20 @ enc64 t
     @ enc_int 16 @ enc_int 21 @ enc64 v
     @ enc_int 16 @ enc_int 22 @ enc32 a @ enc64 b"

definition ex_image :: image where
  "ex_image = ex_point 100 200 7 300 @ ex_point 101 201 8 301"

definition ex_dataset :: "bool \<Rightarrow> dataset" where
  "ex_dataset invertstruct = \<lparr>ds_psf = ex_psf, ds_image = ex_image, ds_invertstruct = invertstruct, ds_is_open = True\<rparr>"

text \<open>The same values in two windows, of one point each, of 24 bytes for each trace.\<close>

definition ex_wheader :: propertyblock where
  "ex_wheader = block_extend (ex_header 2)
     [Property 34 ''PSF window size'' (Some (PSFInt32Scalar (Some 24))),
      Property 34 ''PSF traces'' (Some (PSFInt32Scalar (Some 2)))]"

definition ex_wgroup :: groupdef where
  "ex_wgroup = ex_group ''group'' [ex_ref 21 ''out'' 1, ex_ref 22 ''s'' 2]"

definition ex_wsweep :: valuesectionsweep where
  "ex_wsweep = \<lparr>vss_windowedsweep = True, vss_valuesize = 48, vss_ntraces = 0,
     vss_offsetmap = [(21, 0), (22, 24)], vss_valuebuf = 0, vss_endbuf = 0\<rparr>"

definition ex_wpsf :: psffile where
  "ex_wpsf = \<lparr>m_header = Some ex_wheader, m_types = Some ex_types,
     m_sweeps = Some [DataTypeRefChunk (ex_ref 20 ''time'' 1)],
     m_traces = Some (ex_container [GroupDefChunk ex_wgroup]),
     m_sweepvalues = Some ex_wsweep,
     m_nonsweepvalues = None\<rparr>"

definition ex_window :: "64 word \<Rightarrow> 64 word \<Rightarrow> 32 word \<Rightarrow> 64 word \<Rightarrow> 8 word list" where
  "ex_window t v a b = enc_int 16 @ enc32 1 @ enc64 t
     @ replicate 16 0 @ enc64 v @ replicate 12 0 @ enc32 a @ enc64 b"

definition ex_wdataset :: dataset where
  "ex_wdataset = \<lparr>ds_psf = ex_wpsf, ds_image = ex_window 100 200 7 300 @ ex_window 101 201 8 301,
     ds_invertstruct = False, ds_is_open = True\<rparr>"

text \<open>
  A sweep in windows whose header counts \<open>-1\<close> traces: after an empty window the reader stands
  where it stood.
\<close>

definition ex_stuck :: dataset where
  "ex_stuck = ex_wdataset\<lparr>ds_psf := ex_wpsf\<lparr>m_header := Some (block_extend (ex_header 2)
     [Property 34 ''PSF window size'' (Some (PSFInt32Scalar (Some 8))),
      Property 34 ''PSF traces'' (Some (PSFInt32Scalar (Some (- 1))))])\<rparr>,
     ds_image := enc_int 16 @ enc_int 0\<rparr>"

text \<open>A trace section with two groups.\<close>

definition ex_two_groups :: indexedcontainer where
  "ex_two_groups = ex_container [GroupDefChunk (ex_group ''g1'' [ex_ref 21 ''out'' 1]),
     GroupDefChunk (ex_group ''g2'' [ex_ref 22 ''in'' 1])]"

subsection \<open>Files\<close>

definition ex_value :: "int \<Rightarrow> string \<Rightarrow> int \<Rightarrow> scalar \<Rightarrow> nonsweepvalue" where
  "ex_value i name typeid v = \<lparr>nv_id = i, nv_name = name, nv_valuetypeid = typeid, nv_value = v,
     nv_propblock = ex_block\<rparr>"

definition ex_values :: "nonsweepvalue list" where
  "ex_values = [ex_value 5 ''out'' 1 (PSFDoubleScalar (Some 77)), ex_value 6 ''s'' 2 (ex_struct_value 7 300)]"

definition ex_nsweeps :: "32 word \<Rightarrow> property" where
  "ex_nsweeps n = Property 34 ''PSF sweeps'' (Some (PSFInt32Scalar (Some n)))"

definition ex_sections :: "(int \<times> (int \<Rightarrow> 8 word list)) list" where
  "ex_sections = nonsweep_sections [ex_nsweeps 0] [ex_double, ex_struct] [1, 2] ex_values [5, 0, 6, 0]"

definition ex_sweepfile :: sweepfile where
  "ex_sweepfile = \<lparr>sf_header = [ex_nsweeps 1, Property 34 ''PSF sweep points'' (Some (PSFInt32Scalar (Some 2)))],
     sf_types = [ex_double, ex_struct], sf_typesindex = [1, 2], sf_sweeps = [ex_ref 20 ''time'' 1],
     sf_traces = [DataTypeRefChunk (ex_ref 21 ''out'' 1),
       GroupDefChunk (ex_group ''group'' [ex_ref 22 ''s'' 2, ex_ref 23 ''in'' 1])],
     sf_tracesindex = [21, 0, 0, 0], sf_params = ex_doubles [100, 101],
     sf_vals = (\<lambda>k i. if k = 22 then ex_struct_value (word_of_nat i) 300 else PSFDoubleScalar (Some (word_of_nat i)))\<rparr>"

text \<open>A file with three points in a window of two and a window of one, after an empty one.\<close>

definition ex_windowfile :: windowfile where
  "ex_windowfile = \<lparr>wf_base = ex_sweepfile\<lparr>
       sf_header := [ex_nsweeps 1, Property 34 ''PSF sweep points'' (Some (PSFInt32Scalar (Some 3))),
         Property 34 ''PSF window size'' (Some (PSFInt32Scalar (Some 32))),
         Property 34 ''PSF traces'' (Some (PSFInt32Scalar (Some 2)))],
       sf_traces := [GroupDefChunk (ex_group ''group'' [ex_ref 22 ''s'' 2, ex_ref 23 ''in'' 1])],
       sf_params := ex_doubles [100, 101, 102]\<rparr>,
     wf_pad = [1, 2, 3, 4], wf_size = 32, wf_windows = [2, 0, 0x10001], wf_unused = (\<lambda>k i. word_of_nat i)\<rparr>"

lemma ex_sections_open: "\<exists>ds. PSFDataSet_new (Some (enc_file ex_sections)) = Inr ds"
proof -
  have "nonsweep_ok [ex_nsweeps 0] [ex_double, ex_struct] [1, 2] ex_values [5, 0, 6, 0]"
    by code_simp
  moreover have "distinct (map nv_name ex_values)"
    "PropertyBlock_find (block_extend empty_block [ex_nsweeps 0]) ''PSF sweeps'' = Inr (PSFInt32Scalar (Some 0))"
    "scalar_to_int (PSFInt32Scalar (Some 0)) = Inr 0"
    by code_simp+
  ultimately show ?thesis
    unfolding ex_sections_def by (metis nonsweep_file_values order.refl)
qed

lemma ex_stuck_filter:
  "ValueSectionSweep_get_values_filter (ds_psf ex_stuck) (ds_image ex_stuck) ex_wsweep [ex_ref 21 ''out'' 1] = None"
  "ValueSectionSweep_get_values_filter (ds_psf ex_stuck) (ds_image ex_stuck) ex_wsweep [] = None"
proof -
  have "sweep_open ex_stuck 2 ex_wsweep" "vss_windowedsweep ex_wsweep"
    by code_simp+
  note stuck = windowed_signal_stuck [OF this(1) _ this(2), of _ ex_wsweep 8 "-1" "ex_ref 20 ''time'' 1"
      "PSFVectorT (PSFDoubleScalar (Some 0)) []"]
  show "ValueSectionSweep_get_values_filter (ds_psf ex_stuck) (ds_image ex_stuck) ex_wsweep [ex_ref 21 ''out'' 1] = None"
    by (rule stuck [where vecs = "[PSFVectorT (PSFDoubleScalar (Some 0)) [PSFDoubleScalar (Some 0), PSFDoubleScalar (Some 0)]]"];
        code_simp)
  show "ValueSectionSweep_get_values_filter (ds_psf ex_stuck) (ds_image ex_stuck) ex_wsweep [] = None"
    by (rule stuck [where vecs = "[]"]; code_simp)
qed

lemma ex_sections_psf:
  "\<exists>psf. PSFFile_open (Some (enc_file ex_sections)) new_psffile = Inr (psf, enc_file ex_sections)
    \<and> m_types psf = Some ex_types \<and> m_nonsweepvalues psf = Some (container_of (map NonSweepValueChunk ex_values))"
proof -
  have ok: "nonsweep_ok [ex_nsweeps 0] [ex_double, ex_struct] [1, 2] ex_values [5, 0, 6, 0]"
    by code_simp
  have "types_of [ex_double, ex_struct] = ex_types"
    by code_simp
  moreover have "small_image (enc_file ex_sections)"
    using ok file_ok_small by (simp add: nonsweep_ok_def ex_sections_def)
  ultimately show ?thesis
    using PSFFile_deserialize_nonsweep [OF ok] mapped_small [of "enc_file ex_sections"]
    by (simp add: PSFFile_open_def PSFFile_validate_enc ex_sections_def)
qed

text \<open>A struct of a complex number and a double.\<close>

definition ex_complex_pair :: datatypedef where
  "ex_complex_pair = DataTypeDef 5 ''C'' 16 empty_block (Some (StructDef
     [DataTypeDef 6 ''z'' 12 empty_block None 16, DataTypeDef 7 ''d'' 11 empty_block None 8] 24)) 24"

lemma ex_wpsf_layout:
  "m_types ex_wpsf = Some ex_types"
  "concat (map gd_children (groups (ic_children (ex_container [GroupDefChunk ex_wgroup]))))
     = [ex_ref 21 ''out'' 1, ex_ref 22 ''s'' 2]"
  by code_simp+

subsection \<open>A library of Python objects, and a process\<close>

datatype pyobject =
    PyFloat "64 word"
  | PyInt int
  | PyStr string
  | PyDict "(pyobject \<times> pyobject) list"
  | PyDoubles "64 word list"
  | PyComplexes "(64 word \<times> 64 word) list"
  | PyObjects "pyobject list"
  | PyStrings "string list"
  | PyNone

definition ex_python :: "pyobject python_api" where
  "ex_python = \<lparr>PyFloat_FromDouble = PyFloat, PyInt_FromLong = PyInt, PyString_FromString = PyStr,
     PyDict_New = PyDict [],
     PyDict_SetItem = (\<lambda>dict key v. case dict of PyDict kvs \<Rightarrow> PyDict ((key, v) # kvs) | _ \<Rightarrow> PyDict [(key, v)]),
     PyArray_DOUBLE = PyDoubles, PyArray_CDOUBLE = PyComplexes, PyArray_OBJECT = PyObjects, Py_None = PyNone,
     py_list = PyStrings [],
     py_append = (\<lambda>l s. case l of PyStrings ss \<Rightarrow> PyStrings (ss @ [s]) | _ \<Rightarrow> PyStrings [s])\<rparr>"

definition ex_bool :: "bool \<Rightarrow> pyobject" where
  "ex_bool b = PyInt (if b then 1 else 0)"

definition ex_item :: "pyobject \<Rightarrow> string \<Rightarrow> pyobject option" where
  "ex_item dict key = (case dict of PyDict kvs \<Rightarrow> map_of kvs (PyStr key) | _ \<Rightarrow> None)"

lemma ex_dict_laws: "dict_laws ex_python ex_item"
  by (simp add: dict_laws_def ex_python_def ex_item_def split: pyobject.splits)

definition ex_process :: process where
  "ex_process = \<lparr>pr_mem = (\<lambda>x. None), pr_fds = []\<rparr>"

lemma ex_free: "free_at ex_process 4096 n"
  by (simp add: free_at_def ex_process_def page_size_def)

lemma ex_mapped: "0 < mapped_size (enc_file ex_sections)"
  by code_simp

lemma ex_two_data_sets:
  "\<exists>p a b. running p [b, a] \<and> hd_is_open a \<and> hd_is_open b"
proof -
  define n where "n = mapped_size (enc_file ex_sections)"
  obtain ds where ds: "PSFDataSet_new (Some (enc_file ex_sections)) = Inr ds"
    using ex_sections_open by blast
  obtain p1 a where a: "hd_new (Some (3, enc_file ex_sections)) (Some 4096) ex_process = (p1, Inr a)"
    using hd_new_total [OF ds ex_mapped] by blast
  obtain p2 b where b: "hd_new (Some (4, enc_file ex_sections)) (Some (4096 + pages n)) p1 = (p2, Inr b)"
    using hd_new_total [OF ds ex_mapped] by blast
  note first = hd_new_opened [OF ex_free ex_mapped a]
  have "(4096 + pages n) mod page_size = 0"
    by (simp add: page_size_def pages_def)
  then have free: "free_at p1 (4096 + pages n) n"
    unfolding first(1) by (simp add: free_at_def posix_mmap_def ex_process_def n_def length_mapped [OF ex_mapped])
  have "running p1 [a]"
    using running_new [OF running_start ex_free ex_mapped a] .
  from running_new [OF this free [unfolded n_def] ex_mapped b [unfolded n_def]] have "running p2 [b, a]" .
  moreover have "hd_is_open b"
    using hd_new_opened(2) [OF free [unfolded n_def] ex_mapped b [unfolded n_def]] .
  ultimately show ?thesis
    using first(2) by blast
qed

subsection \<open>Heaps\<close>

text \<open>A struct of two members as an object.\<close>

definition ex_heap :: "object heap" where
  "ex_heap = [Some (ScalarObject (Plain (PSFInt32Scalar (Some 7)))),
     Some (ScalarObject (Plain (PSFDoubleScalar (Some 300)))),
     Some (ScalarObject (Pointers (td_structdef ex_struct) [(''a'', 0), (''b'', 1)]))]"

lemma ex_heap_owned: "owns_scalar ex_heap 2 (ex_struct_value 7 300) [2, 0, 1]"
proof -
  have "owns_members ex_heap [(''a'', 0), (''b'', 1)]
      [(''a'', PSFInt32Scalar (Some 7)), (''b'', PSFDoubleScalar (Some 300))] (0 # [] @ 1 # [] @ [])"
    by (rule owns_member owns_none owns_plain | simp add: ex_heap_def lookup_def typeid_defs)+
  then show ?thesis
    by (auto simp: owns_scalar_def ex_struct_value_def lookup_def ex_heap_def intro!: owns_struct)
qed

text \<open>A vector of one struct, whose members are a struct and a double.\<close>

definition ex_nested :: datatypedef where
  "ex_nested = DataTypeDef 8 ''N'' 16 empty_block
     (Some (StructDef [DataTypeDef 9 ''d'' 11 empty_block None 8, ex_struct] 20)) 20"

definition ex_nested_vector :: psfvector where
  "ex_nested_vector = PSFVectorT (StructScalar (Struct (td_structdef ex_nested) []))
     [StructScalar (Struct (td_structdef ex_nested)
        [(''S'', ex_struct_value 7 300), (''d'', PSFDoubleScalar (Some 5))])]"

definition ex_nested_heap :: "object heap" where
  "ex_nested_heap = ex_heap @ [Some (ScalarObject (Plain (PSFDoubleScalar (Some 5)))),
     Some (VectorObject (Pointers (td_structdef ex_nested) [])
       [Pointers (td_structdef ex_nested) [(''S'', 2), (''d'', 3)]])]"

lemma ex_nested_owned: "owns_vector ex_nested_heap 4 ex_nested_vector [4, 2, 0, 1, 3]"
proof -
  have "owns_members ex_nested_heap [(''a'', 0), (''b'', 1)]
      [(''a'', PSFInt32Scalar (Some 7)), (''b'', PSFDoubleScalar (Some 300))] (0 # [] @ 1 # [] @ [])"
    by (rule owns_member owns_none owns_plain | simp add: ex_nested_heap_def ex_heap_def lookup_def typeid_defs)+
  then have s: "owns_cell ex_nested_heap (Pointers (td_structdef ex_struct) [(''a'', 0), (''b'', 1)])
      (ex_struct_value 7 300) [0, 1]"
    by (auto simp: ex_struct_value_def intro!: owns_struct)
  have "owns_members ex_nested_heap [(''S'', 2), (''d'', 3)]
      [(''S'', ex_struct_value 7 300), (''d'', PSFDoubleScalar (Some 5))] (2 # [0, 1] @ 3 # [] @ [])"
    by (rule owns_member owns_none s owns_plain | simp add: ex_nested_heap_def ex_heap_def lookup_def typeid_defs del: One_nat_def)+
  from owns_cells_Cons [OF owns_struct [OF this] owns_cells_Nil] have
    "owns_cells ex_nested_heap [Pointers (td_structdef ex_nested) [(''S'', 2), (''d'', 3)]]
      (pv_elems ex_nested_vector) [2, 0, 1, 3]"
    by (simp add: ex_nested_vector_def)
  moreover have "owns_cell ex_nested_heap (Pointers (td_structdef ex_nested) []) (pv_init ex_nested_vector) []"
    unfolding ex_nested_vector_def by (simp add: owns_struct owns_none)
  ultimately show ?thesis
    by (auto simp: owns_vector_def ex_nested_heap_def ex_heap_def lookup_def)
qed

text \<open>A \<open>SweepValue\<close> that has read a point, and an iterator that stands at the next.\<close>

definition ex_sweep_heap :: "sweep_object heap" where
  "ex_sweep_heap = [Some (VectorObj (PSFVectorT (PSFDoubleScalar (Some 0)) (ex_doubles [100]))),
     Some (VectorObj (PSFVectorT (PSFDoubleScalar (Some 0)) (ex_doubles [200]))),
     Some (SweepValueObj False (Some 0) [1])]"

definition ex_iterator :: iterator where
  "ex_iterator = \<lparr>it_buf = 0, it_nextbuf = 52, it_v = Some 2, it_psf = Some ex_psf,
     it_filter = Some [ex_ref 21 ''out'' 1]\<rparr>"

lemma ex_iterator_step:
  "\<exists>it h. SweepValueIterator_increment ex_image ex_iterator ex_sweep_heap = Some (Inr it, h)"
proof -
  have "case SweepValueIterator_increment ex_image ex_iterator ex_sweep_heap of Some (Inr it, h) \<Rightarrow> True | _ \<Rightarrow> False"
    by code_simp
  then show ?thesis
    by (auto split: option.splits prod.splits sum.splits)
qed

lemma ex_iterator_at:
  "it_psf ex_iterator = Some ex_psf" "it_filter ex_iterator = Some [ex_ref 21 ''out'' 1]" "it_v ex_iterator = Some 2"
  "lookup ex_sweep_heap 2 = Some (SweepValueObj False (Some 0) [1])" "length [1 :: nat] = length [ex_ref 21 ''out'' 1]"
  "distinct [2 :: nat, 0, 1]"
  "vectors_at ex_sweep_heap [1] [PSFVectorT (PSFDoubleScalar (Some 0)) (ex_doubles [200])]"
  "lookup ex_sweep_heap 0 = Some (VectorObj (PSFVectorT (PSFDoubleScalar (Some 0)) (ex_doubles [100])))"
  "GET_INT32 ex_image (it_nextbuf ex_iterator) = Inr 16" "sint (16 :: 32 word) \<noteq> CHUNKID_VALUESECTIONEND"
  "create_data_vectors (m_types ex_psf) 1 [ex_ref 21 ''out'' 1]
     = Inr [PSFVectorT (PSFDoubleScalar (Some 0)) (ex_doubles [0])]"
  by code_simp+

subsection \<open>A noise file\<close>

text \<open>Two traces of structs with a total, over four points, and the trace that is left out.\<close>

definition ex_noise :: datatypedef where
  "ex_noise = DataTypeDef 2 ''N'' 16 empty_block (Some (StructDef [DataTypeDef 3 ''total'' 11 empty_block None 8] 8)) 8"

definition ex_noise_value :: "64 word \<Rightarrow> scalar" where
  "ex_noise_value w = StructScalar (Struct (td_structdef ex_noise) [(''total'', PSFDoubleScalar (Some w))])"

definition ex_noisefile :: sweepfile where
  "ex_noisefile = ex_sweepfile\<lparr>
     sf_header := [ex_nsweeps 1, Property 34 ''PSF sweep points'' (Some (PSFInt32Scalar (Some 4)))],
     sf_types := [ex_double, ex_noise],
     sf_traces := [DataTypeRefChunk (ex_ref 21 ''out'' 1),
       GroupDefChunk (ex_group ''group'' [ex_ref 22 ''r1'' 2, ex_ref 23 ''r2'' 2])],
     sf_params := ex_doubles [100, 101, 102, 103],
     sf_vals := (\<lambda>k i. if k = 21 then PSFDoubleScalar (Some 0)
       else ex_noise_value (if i < 3 then 1 else if k = 22 then 0x3FE0000000000000 else 0x3FD0000000000000))\<rparr>"

definition ex_system :: system where
  "ex_system = \<lparr>os_open = (\<lambda>name. if name = srcsweepfile then Some (3, enc_file ex_sections)
       else if name = pnoisefile then Some (4, enc_file (sweep_sections ex_noisefile)) else None),
     os_mmap = (\<lambda>name. Some (if name = srcsweepfile then 4096 else 4096 + pages (mapped_size (enc_file ex_sections)))),
     os_close = (\<lambda>name. True)\<rparr>"

lemma ex_noise_ok: "noise_ok ex_noisefile"
  by code_simp

lemma ex_noise_totals: "noise_totals ex_noisefile = [0x3FE0000000000000, 0x3FD0000000000000]"
  by code_simp

lemma ex_noise_sum: "print_double (foldl (double_add nan) 0 (noise_totals ex_noisefile)) = ''0.75''"
proof -
  have "double_add nan 0 0x3FE0000000000000 = 0x3FE0000000000000"
    by (rule double_add_zero) code_simp+
  moreover have "double_add nan 0x3FE0000000000000 0x3FD0000000000000 = 0x3FE8000000000000"
    by code_simp
  moreover have "print_double 0x3FE8000000000000 = ''0.75''"
  proof -
    have digits: "char_of (48 :: nat) = CHR ''0''" "char_of (53 :: nat) = CHR ''5''" "char_of (55 :: nat) = CHR ''7''"
      by code_simp+
    have "print_double 0x3FE8000000000000 = print_positive 6755399441055744 9007199254740992"
      by (simp add: print_double_def double_mantissa_def double_exponent_def double_finite_def Let_def)
    also have "\<dots> = ''0.75''"
      by (simp add: print_positive_def decimal_exponent_def half_even_def general_notation_def Let_def
          decimal_nat.simps digit_char_def digits strip_zeros_def point_def)
    finally show ?thesis .
  qed
  ultimately show ?thesis
    by (simp add: ex_noise_totals)
qed

lemma ex_system_files:
  "os_file ex_system ex_process srcsweepfile 3 4096 (enc_file ex_sections)"
  "os_file ex_system (posix_mmap 4096 (mapped (enc_file ex_sections)) ex_process) pnoisefile 4
     (4096 + pages (mapped_size (enc_file ex_sections))) (enc_file (sweep_sections ex_noisefile))"
proof -
  define n where "n = mapped_size (enc_file ex_sections)"
  have names: "pnoisefile \<noteq> srcsweepfile"
    by code_simp
  have noise: "0 < mapped_size (enc_file (sweep_sections ex_noisefile))"
    by code_simp
  have len: "int (length (mapped (enc_file ex_sections))) = n"
    using length_mapped [OF ex_mapped] by (simp add: n_def)
  show "os_file ex_system ex_process srcsweepfile 3 4096 (enc_file ex_sections)"
    by (simp add: os_file_def ex_system_def ex_mapped ex_free)
  have "free_at (posix_mmap 4096 (mapped (enc_file ex_sections)) ex_process) (4096 + pages n)
      (mapped_size (enc_file (sweep_sections ex_noisefile)))"
    by (simp add: free_at_def posix_mmap_def ex_process_def len) (simp add: page_size_def pages_def)
  then show "os_file ex_system (posix_mmap 4096 (mapped (enc_file ex_sections)) ex_process) pnoisefile 4
     (4096 + pages (mapped_size (enc_file ex_sections))) (enc_file (sweep_sections ex_noisefile))"
    using names noise by (simp add: os_file_def ex_system_def n_def)
qed

end
