(* ===== verification/Spec2Isabelle.thy ===== *)
theory Spec2Isabelle
  imports Examples
begin

text \<open>
  libpsf reads the binary result files of a circuit simulator (the PSF format, described in
  doc/psfformat.rst). This development models the library under src/src and src/include and proves
  what makes it correct: that the files the format describes are read back as what was written, what
  its lookups and readers return, which states a data set goes through, how each operation can fail,
  and that the readers end.

  The program. \<open>PSFDataSet\<close> (psf.cc) is the interface: it opens a file, answers for names, header
  properties, sweeps and signals, and closes it. \<open>PSFFile\<close> (psffile.cc) checks the file, reads the
  table of contents from its end and then the sections: the header (a block of properties), the
  types, the sweep parameters, the traces and the values. A section is a container whose children
  are made by a factory from the marker that stands before each (psfcontainer.cc,
  psfindexedcontainer.cc, psfsections.cc). Types are recursive: a struct has members with types of
  their own (psftype.cc, psfstruct.cc). Values outside a sweep are chunks themselves
  (psfnonsweepvalue.cc); values of a sweep stay in the mapped file and are read when a signal is asked
  for, at offsets that are computed from the traces (psfsweepvalue.cc, psfgroup.cc, psftrace.cc).

  The model. The mapped file is a list of bytes, a \<open>const char *\<close> an integer position in it. A call
  returns \<open>Inr\<close> of its value (a reader: of what it read and of the bytes that it took) or \<open>Inl\<close> of
  an error: \<open>Throw\<close> of an exception, \<open>Abort\<close> for a failed assert, or \<open>Undefined\<close> with the kind of
  undefined behaviour that C++ gives the code there (an access outside the file, an end iterator
  dereferenced, a value never written, an overflow of \<open>int\<close>, the end of a function without its
  value): the model goes no further than C++ says. Pointers to other objects that never change are
  the objects. A \<open>PSFFile\<close> is the record \<open>psffile\<close> of its sections, a \<open>PSFDataSet\<close> the record \<open>dataset\<close>.

  The theories, in the order of their imports:
  \<^item> Prelude: errors, \<open>int\<close> ranges, bytes of the file, and the collections of lemmas that the others use.
  \<^item> Endian: the words of the file and \<open>be64toh\<close> (psfendian.h, psfinternal.h).
  \<^item> StdMap: \<open>std::map\<close> as an interface (a locale) and as sorted lists, which implement it.
  \<^item> Types: the classes of scalars, properties, types and structs as datatypes.
  \<^item> Codec: the interfaces of a reader that moves on and of a reader with an encoding (locales).
  \<^item> Scalars, Properties: chunks, strings, numbers and property blocks (psfchunk.cc, psfdata.cc,
    psfproperty.cc, psfpropertyblock.cc); the block as a finite map.
  \<^item> TypeDefs, StructData, Vectors: type definitions, values of a type, vectors of values and their
    transposition (psftype.cc, psfstruct.cc, psfdata.cc, psfdata.h).
  \<^item> Refs, Containers, Traces: references, groups, containers, sections and lookups.
  \<^item> SweepValues: the layout of the values of a sweep and both readers (psfsweepvalue.cc).
  \<^item> PsfFile, DataSet: the file and the data set (psffile.cc, psf.cc), with the relation \<open>step\<close> of its
    states and their invariant \<open>ds_inv\<close>.
  \<^item> Handles: the descriptor and the mapping that a \<open>PSFFile\<close> holds, the destructors, and several data
    sets in one process (the relation \<open>running\<close>), each of which is the data set of DataSet that it
    represents (\<open>view\<close>).
  \<^item> Conversions, Printing: numbers and text (\<open>operator int\<close>, \<open>operator double\<close>, \<open>tostring\<close>, \<open>print\<close>).
  \<^item> Doubles, TestPrograms: the addition of doubles, and the program psftest.cc on two data sets of one
    process, with what it prints.
  \<^item> PythonBinding, PythonCalls: the converters of bindings/python/psfpython.cc, the methods that use
    them, and sequences of calls with the exceptions that a caller sees.
  \<^item> Heap, Runs: objects with addresses, \<open>delete\<close>, trees of objects that destructors take down, and the
    sequencing of code that makes and deletes objects.
  \<^item> Objects, Inversion: scalars, structs and vectors on the heap: \<open>clone\<close>, reading, \<open>delete\<close>, and the
    inversion in \<open>get_signal\<close> (psfdata.cc, psfdata.h, psf.cc).
  \<^item> BlockObjects, ChunkObjects, FileObjects: the readers of a file once more, on the heap: properties and
    their blocks, the chunks that \<open>deserialize_child\<close> makes, the sections and the file, with what an
    error leaves and what the destructor of the file deletes (psfproperty.cc, psfpropertyblock.cc,
    psftype.cc, psfstruct.cc, psfgroup.cc, psfnonsweepvalue.cc, psfcontainer.cc, psfsections.cc, psffile.cc).
  \<^item> SweepOwnership, SweepIterator: the \<open>SweepValue\<close> of a request, its vectors, and the iterator over the
    points of a sweep (psfsweepvalue.cc, psfinternal.h).
  \<^item> PythonMemory: what the converters delete of what they are given.
  \<^item> FileFormat, FileImage, SweepImage, WindowImage: the format as functions from contents to bytes
    (\<open>enc_file\<close>), for files without a sweep, with a simple sweep and with a sweep in windows, and the
    theorems that what is so written is read back.
  \<^item> Examples: concrete types, files, data sets and Python objects, to which the properties below are
    applied.

  What the lemmas show. Of each reader: how far it moves on (\<open>_progress\<close>), what it returns is
  well-formed (\<open>_wf\<close>), how it can fail (\<open>fails_\<close>), that it reads back what is encoded (\<open>_enc\<close>). Of each
  lookup: what it finds and what it does where there is nothing. Of the layout: where each trace
  lies (\<open>placed\<close>). Of the readers of a sweep: the columns that they return (\<open>_cols\<close>). Loops that the
  file bounds are functions with termination proofs, since every chunk moves the reader on within
  the file. The loop over windows moves by numbers that the header gives and need not end; it is a
  partial function, a signal has the type \<open>signal res option\<close>, and \<open>None\<close> stands for a call that never
  returns. No fuel is used.

  The lemmas on the heap relate an object to the value that the model gives it (\<open>owns_cell\<close>,
  \<open>owns_vector\<close>, \<open>block_holds\<close>) with the list of all addresses that it owns; what is made owns what is
  new (\<open>fresh\<close>, \<open>made\<close>), \<open>delete\<close> of what is owned succeeds and releases just that, and code that is
  run on the heap ends as the same code on values does. For the readers of a file that is a triple,
  \<open>does\<close>: from a heap with the precondition the run ends in the error of the reader on values, or in
  a value and a heap in the postcondition, and extends the heap that it found. \<open>makes\<close> and \<open>fills\<close> are
  such triples for code that makes trees of objects, and have rules for sequences, choices and loops
  over children. Following a pointer to a deleted object is the error \<open>UseAfterFree\<close>.

  Interfaces. \<open>assoc_container\<close> and \<open>ordered_container\<close> (StdMap) say what the maps of the library
  promise, and are interpreted by the sorted lists of the model. \<open>reader\<close> and \<open>codec\<close> (Codec) and
  \<open>block_codec\<close> (Properties) are interpreted by every reader that is called through a factory, and
  their lemmas drive the loops and the proofs that they end. \<open>psf_vector\<close> (Vectors) is the interface
  of \<open>PSFVector\<close>. \<open>allocator\<close> (Heap) is what the objects ask of \<open>new\<close> and \<open>delete\<close>, interpreted by the
  heap of the model.

  Assumptions. The machine is little-endian with four-byte \<open>int\<close> and eight-byte \<open>long\<close> and pointers. What
  the operating system has under a name, whether \<open>::close\<close> succeeds, and which descriptors and addresses
  it gives, are parameters (\<open>disk\<close>, \<open>close_ok\<close>, \<open>opened\<close>, \<open>addr\<close>, \<open>system\<close>); \<open>mmap\<close> takes free pages. The libraries of
  Python and numpy are a parameter too (\<open>python_api\<close>); the properties of dictionaries assume that a
  lookup finds the item that was set last under its key (\<open>dict_laws\<close>). Strings of the file are at most
  two gigabytes. Memory is enough for every allocation. Doubles
  are added as IEEE 754 says, to nearest; which not-a-number an addition gives is a parameter (\<open>nan\<close>).

  Not modelled. Messages to the error stream. What the vectors of a request hold after a read that
  failed. The pointers of an object between its \<open>new\<close> and the end of its \<open>deserialize\<close>: they are written at
  the end, since nothing reads them before and nothing in the library destroys a half-read file
  (\<open>PSFDataSet\<close> leaks a \<open>PSFFile\<close> that did not open). \<open>SweepValueIterator::equal\<close>, which names a
  member that its class does not have, and the test of the iterator for the null pointer; \<open>DataList\<close>,
  \<open>READ_INT32\<close> and the code that is commented out (\<open>Group\<close>); reference counts of Python and the
  registration of classes with the binding library. The programs psftestraw.cc and psfreader.cc, which
  do not compile against the headers and are not built; the test suite under src/test.
\<close>







section \<open>Signals of a sweep\<close>

text \<open>
  C4. A trace of a simple sweep. Where the mapped file holds, point after point, the marker, the
  parameter and the value of a trace at its offset, \<open>get_signal\<close> returns the vector of exactly
  these values.
\<close>

theorem simple_sweep_signal:
  assumes "simple_stored ds N vss paramtype ptd ps [c]"
    and "rbind (get_trace_section (ds_psf ds)) (\<lambda>traces. get_trace_by_name traces name) = Inr (col_ref c)"
    and "\<not> ds_invertstruct ds"
  shows "get_signal ds name = Some (Inr (VectorSignal (Some (col_vector c))))"
  by (rule stored_signal [OF disjI1 [OF assms(1)] assms(2,3)])

theorem simple_sweep_signal_witness:
  "get_signal (ex_dataset False) ''out'' = Some (Inr (VectorSignal (Some (col_vector
     (ex_ref 21 ''out'' 1, ex_double, 8, ex_doubles [200, 201])))))"
  by (rule simple_sweep_signal [where N = 2 and vss = "ex_sweep False" and paramtype = "ex_ref 20 ''time'' 1"
      and ptd = ex_double and ps = "ex_doubles [100, 101]"]) code_simp+

text \<open>
  C5. A trace of a sweep in windows. Where the mapped file holds windows, each with its number of
  points, their parameters and, at the end of the window of the trace, their values, \<open>get_signal\<close>
  ends and returns the vector of exactly these values.
\<close>

theorem windowed_sweep_signal:
  assumes "windowed_stored ds N vss paramtype ptd ps [c] windowsize ntraces ns"
    and "rbind (get_trace_section (ds_psf ds)) (\<lambda>traces. get_trace_by_name traces name) = Inr (col_ref c)"
    and "\<not> ds_invertstruct ds"
  shows "get_signal ds name = Some (Inr (VectorSignal (Some (col_vector c))))"
  by (rule stored_signal [OF disjI2 [OF assms(1)] assms(2,3)])

theorem windowed_sweep_signal_witness:
  "get_signal ex_wdataset ''out'' = Some (Inr (VectorSignal (Some (col_vector
     (ex_ref 21 ''out'' 1, ex_double, 0, ex_doubles [200, 201])))))"
  by (rule windowed_sweep_signal [where N = 2 and vss = ex_wsweep and paramtype = "ex_ref 20 ''time'' 1"
      and ptd = ex_double and ps = "ex_doubles [100, 101]" and windowsize = 24 and ntraces = 2
      and ns = "[1, 1]"]) code_simp+

text \<open>
  C6. The parameter of a sweep, simple or in windows: \<open>get_sweep_values\<close> returns the parameter
  values that the points of the file hold, in their order.
\<close>

theorem sweep_parameter_values:
  assumes "simple_stored ds N vss paramtype ptd ps [] \<or>
    windowed_stored ds N vss paramtype ptd ps [] windowsize ntraces ns"
  shows "\<exists>init. get_sweep_values ds = Some (Inr (Some (PSFVectorT init ps)))"
  by (rule stored_params [OF assms])

theorem sweep_parameter_values_witness:
  "\<exists>init. get_sweep_values ex_wdataset = Some (Inr (Some (PSFVectorT init (ex_doubles [100, 101]))))"
proof (rule sweep_parameter_values)
  show "simple_stored ex_wdataset 2 ex_wsweep (ex_ref 20 ''time'' 1) ex_double (ex_doubles [100, 101]) [] \<or>
      windowed_stored ex_wdataset 2 ex_wsweep (ex_ref 20 ''time'' 1) ex_double (ex_doubles [100, 101]) [] 24 2 [1, 1]"
    by (rule disjI2) code_simp
qed

text \<open>
  C7. With \<open>invertstruct\<close> a signal of structs is transposed: one vector per member of the struct,
  of the length of the signal, whose element \<open>i\<close> is that member of struct \<open>i\<close>.
\<close>

theorem inverted_struct_signal:
  assumes "sweep_open ds N vss" and "get_signal_vector ds name = Some (Inr (Some vec))" and "ds_invertstruct ds"
    and "typedef_wf td" and "td_structdef td = Some sd"
    and "pv_init vec = StructScalar (Struct (Some sd) [])" and "\<forall>v \<in> set (pv_elems vec). scalar_full td v"
  shows "\<exists>b m. get_signal ds name = Some (Inr (VectorStructSignal b (VectorStruct (Some (pv_size vec)) m)))
    \<and> fst ` set m = td_name ` set (sd_children sd)
    \<and> (\<forall>(key, mvec) \<in> set m. pv_size mvec = pv_size vec \<and> (\<forall>i. 0 \<le> i \<and> i < pv_size vec \<longrightarrow>
         (\<exists>x. struct_member key (pv_elems vec ! nat i) = Inr x \<and> pv_ptr_at mvec i = Inr x)))"
proof -
  obtain b m where "invert True (Some vec) = Inr (VectorStructSignal b (VectorStruct (Some (pv_size vec)) m))"
    "transposed vec sd m"
    using invert_struct [OF assms(4-7)] by blast
  with sweep_get_signal [OF assms(1,2)] assms(3) show ?thesis
    by (auto simp: transposed_def) fastforce
qed

theorem inverted_struct_signal_witness:
  "\<exists>b m. get_signal (ex_dataset True) ''s'' = Some (Inr (VectorStructSignal b (VectorStruct (Some 2) m)))
    \<and> fst ` set m = {''a'', ''b''}"
proof -
  define vec where "vec = PSFVectorT (StructScalar (Struct (td_structdef ex_struct) []))
    [ex_struct_value 7 300, ex_struct_value 8 301]"
  have vec: "pv_size vec = 2" by (simp add: vec_def pv_size_def)
  have "\<exists>b m. get_signal (ex_dataset True) ''s'' = Some (Inr (VectorStructSignal b (VectorStruct (Some (pv_size vec)) m)))
    \<and> fst ` set m = td_name ` set (sd_children (the (td_structdef ex_struct)))
    \<and> (\<forall>(key, mvec) \<in> set m. pv_size mvec = pv_size vec \<and> (\<forall>i. 0 \<le> i \<and> i < pv_size vec \<longrightarrow>
         (\<exists>x. struct_member key (pv_elems vec ! nat i) = Inr x \<and> pv_ptr_at mvec i = Inr x)))"
    by (rule inverted_struct_signal [where N = 2 and vss = "ex_sweep False" and td = ex_struct];
        (unfold vec_def)?; code_simp)
  then show ?thesis
    unfolding vec by (auto simp: ex_struct_def)
qed

section \<open>The data set and its states\<close>

text \<open>
  C8. What a file holds after it was opened: a header whose properties can be looked up; types with
  sizes that agree with their members; sweep parameters that are references; traces and groups
  with right indexes; values outside a sweep that have the types they name; values of a sweep only
  together with a sweep and traces.
\<close>

theorem opened_file_wf:
  assumes "PSFFile_open disk new_psffile = Inr (psf, img)"
  shows "psf_wf psf"
  using assms
  by (auto simp: PSFFile_open_def res_simps dest: PSFFile_deserialize_wf split: option.splits if_splits)

theorem opened_file_wf_witness: "\<exists>psf img. PSFFile_open (Some (enc_file ex_sections)) new_psffile = Inr (psf, img) \<and> psf_wf psf"
proof -
  have "\<exists>psf img. PSFFile_open (Some (enc_file ex_sections)) new_psffile = Inr (psf, img)"
    using ex_sections_open by (auto simp: PSFDataSet_new_def PSFDataSet_open_def res_simps)
  then show ?thesis
    using opened_file_wf by blast
qed



text \<open>
  C10. After \<open>close\<close> every access of the data set throws \<open>DataSetNotOpen\<close>, and another \<open>close\<close> does
  nothing.
\<close>

theorem closed_refuses:
  fixes ds :: dataset
  defines "ds' \<equiv> fst (PSFDataSet_close True ds)"
  shows "get_signal ds' name = Some (Inl (Throw DataSetNotOpen))
    \<and> get_signal_vector ds' name = Some (Inl (Throw DataSetNotOpen))
    \<and> get_sweep_values ds' = Some (Inl (Throw DataSetNotOpen))
    \<and> get_signal_scalar ds' name = Inl (Throw DataSetNotOpen)
    \<and> get_signal_properties ds' name = Inl (Throw DataSetNotOpen)
    \<and> get_signal_names ds' = Inl (Throw DataSetNotOpen)
    \<and> PSFDataSet_get_header_properties ds' = Inl (Throw DataSetNotOpen)
    \<and> get_nsweeps ds' = Inl (Throw DataSetNotOpen)
    \<and> get_sweep_npoints ds' = Inl (Throw DataSetNotOpen)
    \<and> get_sweep_param_names ds' = Inl (Throw DataSetNotOpen)
    \<and> is_swept ds' = Inl (Throw DataSetNotOpen)
    \<and> set_invertstruct b ds' = Inl (Throw DataSetNotOpen)
    \<and> get_invertstruct ds' = Inl (Throw DataSetNotOpen)
    \<and> PSFDataSet_close ok ds' = (ds', Inr ())"
proof -
  have closed: "\<not> ds_is_open ds'"
    by (simp add: ds'_def PSFDataSet_close_def PSFFile_close_def)
  then show ?thesis
    by (simp add: access_defs guarded_def verify_open_def PSFDataSet_close_def)
qed

text \<open>
  C11. Closing a data set and opening it again, on the same file, gives the data set that it was.
\<close>

theorem reopened_dataset:
  assumes "PSFDataSet_new disk = Inr ds"
  shows "PSFDataSet_open disk (fst (PSFDataSet_close True ds)) = Inr ds"
proof -
  obtain psf img where "PSFFile_open disk new_psffile = Inr (psf, img)"
    and ds: "ds = \<lparr>ds_psf = psf, ds_image = img, ds_invertstruct = False, ds_is_open = True\<rparr>"
    using assms by (auto simp: PSFDataSet_new_def PSFDataSet_open_def res_simps)
  with PSFFile_reopen [OF this(1)] show ?thesis
    by (simp add: PSFDataSet_open_def PSFDataSet_close_def PSFFile_close_def)
qed

theorem reopened_dataset_witness:
  "\<exists>ds. PSFDataSet_new (Some (enc_file ex_sections)) = Inr ds
    \<and> PSFDataSet_open (Some (enc_file ex_sections)) (fst (PSFDataSet_close True ds)) = Inr ds"
  using ex_sections_open reopened_dataset by blast


text \<open>
  C13. Every request for a signal ends, with a value or an error, if the header does not make the
  reader of windows go backwards.
\<close>

theorem signal_request_ends:
  assumes "windows_forward (ds_psf ds)"
  shows "(\<exists>r. get_signal ds name = Some r) \<and> (\<exists>r. get_sweep_values ds = Some r)"
  using get_signal_ends [OF assms] get_sweep_values_ends [OF assms] by blast

theorem signal_request_ends_witness:
  "(\<exists>r. get_signal ex_wdataset ''out'' = Some r) \<and> (\<exists>r. get_sweep_values ex_wdataset = Some r)"
  by (rule signal_request_ends) code_simp


text \<open>
  C15. \<open>open\<close> throws \<open>FileOpenError\<close> where the system cannot open the file and
  \<open>InvalidFileError\<close> where the file does not end in the word of the format; in a file of less than
  twelve bytes it compares a buffer that was never written.
\<close>

theorem open_errors:
  "PSFDataSet_new None = Inl (Throw FileOpenError)
    \<and> (length file < 12 \<longrightarrow> PSFDataSet_new (Some file) = Inl (Undefined Uninitialised))
    \<and> (12 \<le> length file \<and> take 8 (drop (length file - 12) file) \<noteq> bytes_of_string ''Clarissa'' \<longrightarrow>
         PSFDataSet_new (Some file) = Inl (Throw InvalidFileError))"
  by (simp add: PSFDataSet_new_def PSFDataSet_open_def PSFFile_open_def PSFFile_validate_def)

theorem open_errors_witness:
  "PSFDataSet_new (Some (replicate 8 0)) = Inl (Undefined Uninitialised)
    \<and> PSFDataSet_new (Some (replicate 20 0)) = Inl (Throw InvalidFileError)"
proof -
  have "length (replicate 8 (0 :: 8 word)) < 12"
    "12 \<le> length (replicate 20 (0 :: 8 word)) \<and>
      take 8 (drop (length (replicate 20 (0 :: 8 word)) - 12) (replicate 20 (0 :: 8 word))) \<noteq> bytes_of_string ''Clarissa''"
    by code_simp+
  then show ?thesis
    using open_errors by blast
qed

text \<open>
  C16. Opening a file of any content, of less than two gigabytes, ends: with a data set, or with an
  exception or a run-time error of the set \<open>open_failures\<close>. No cast fails, no vector is read outside
  its bounds and no object is taken for one of another class.
\<close>

theorem open_failures_only:
  assumes "small_image file" and "PSFDataSet_new (Some file) = Inl e"
  shows "e \<in> open_failures \<and> e \<notin> {Throw BadCast, Throw OutOfRange, Throw NotFound, Undefined WrongType, Undefined NoReturn}"
proof -
  have "psf_sections_wf new_psffile"
    by (simp add: psf_sections_wf_def new_psffile_def)
  from fails_PSFFile_open [OF assms(1) this] assms(2) have "e \<in> open_failures"
    by (auto simp: PSFDataSet_new_def PSFDataSet_open_def fails_in_def rbind_eq_Inl)
  then show ?thesis
    by (auto simp: open_failures_def section_errors_def format_errors_def)
qed

theorem open_failures_only_witness:
  "Throw InvalidFileError \<in> open_failures
    \<and> PSFDataSet_new (Some (replicate 20 0)) = Inl (Throw InvalidFileError)"
proof -
  have "small_image (replicate 20 (0 :: 8 word))" "PSFDataSet_new (Some (replicate 20 0)) = Inl (Throw InvalidFileError)"
    by code_simp+
  with open_failures_only show ?thesis by blast
qed

section \<open>Descriptors and mappings\<close>



text \<open>
  C18. A data set that was opened and closed leaves the process as it was: no descriptor and no page
  more. One whose constructor throws after \<open>::open\<close> leaves the descriptor open and the file mapped,
  and there is no object to release them.
\<close>

theorem process_resources:
  assumes "free_at p a (mapped_size file)" and "0 < mapped_size file" and "fd \<noteq> -1"
  shows "case hd_new (Some (fd, file)) (Some a) p of (p', r) \<Rightarrow>
    (case r of
       Inr d \<Rightarrow> fst (hd_close True d p') = p
     | Inl e \<Rightarrow> fd \<in> set (pr_fds p') \<and> (\<forall>x. a \<le> x \<and> x < a + mapped_size file \<longrightarrow> pr_mem p' x \<noteq> None))"
proof -
  obtain p' r where new: "hd_new (Some (fd, file)) (Some a) p = (p', r)"
    by fastforce
  show ?thesis
  proof (cases r)
    case (Inr d)
    with new_close_process [OF assms, of p' d] new show ?thesis by simp
  next
    case (Inl e)
    with failed_new_process [OF assms(2), of fd a p p' e] new pages_ge [OF assms(2)] length_mapped [OF assms(2)]
    show ?thesis by (simp add: posix_mmap_def)
  qed
qed

theorem process_resources_witness:
  "\<exists>p'. hd_new (Some (3, replicate 20 0)) (Some 4096) ex_process = (p', Inl (Throw InvalidFileError)) \<and> 3 \<in> set (pr_fds p')"
proof -
  define file0 where "file0 = replicate 20 (0 :: 8 word)"
  have size: "0 < mapped_size file0" and invalid: "PSFFile_validate file0 = Inr False"
    unfolding file0_def by code_simp+
  obtain p' where new: "hd_new (Some (3, file0)) (Some 4096) ex_process = (p', Inl (Throw InvalidFileError))"
    using size invalid by (simp add: hd_new_def hd_open_def handle_open_def Let_def)
  from process_resources [OF ex_free size, of 3] have "3 \<in> set (pr_fds p')"
    by (simp add: new)
  with new show ?thesis
    unfolding file0_def by blast
qed





section \<open>Lookups\<close>

text \<open>
  A value outside a sweep, looked up in a file that was opened: the value of its name, of the
  type that it names, with a determinate value for every member, and its properties.
\<close>

theorem nonsweep_value_typed:
  assumes "PSFFile_open disk new_psffile = Inr (psf, img)"
    and "m_nonsweepvalues psf = Some vals" and "m_types psf = Some types"
    and "name \<in> set (Container_get_names (ic_children vals))"
  shows "\<exists>(v :: nonsweepvalue) td. PSFFile_get_value psf name = Inr (nv_value v) \<and> nv_name v = name
    \<and> PSFFile_get_value_properties psf name = Inr (nv_propblock v)
    \<and> get_typedef (Some types) (nv_valuetypeid v) = Inr td \<and> scalar_full td (nv_value v)"
proof -
  have "psf_wf psf"
    using assms(1) by (auto simp: PSFFile_open_def res_simps dest: PSFFile_deserialize_wf split: option.splits if_splits)
  from PSFFile_get_value_found [OF this assms(2-4)] show ?thesis .
qed

theorem nonsweep_value_typed_witness:
  "\<exists>psf img (v :: nonsweepvalue) td. PSFFile_open (Some (enc_file ex_sections)) new_psffile = Inr (psf, img)
    \<and> PSFFile_get_value psf ''s'' = Inr (nv_value v) \<and> nv_name v = ''s'' \<and> scalar_full td (nv_value v)"
proof -
  obtain psf where psf: "PSFFile_open (Some (enc_file ex_sections)) new_psffile = Inr (psf, enc_file ex_sections)"
    "m_types psf = Some ex_types" "m_nonsweepvalues psf = Some (container_of (map NonSweepValueChunk ex_values))"
    using ex_sections_psf by blast
  have "''s'' \<in> set (Container_get_names (ic_children (container_of (map NonSweepValueChunk ex_values))))"
    by code_simp
  from nonsweep_value_typed [OF psf(1,3,2) this] psf(1) show ?thesis
    by blast
qed

text \<open>
  The names that \<open>get_names\<close> lists can be looked up, as long as the traces are in one group at
  most and no group has the name: \<open>get_trace_by_name\<close> returns a trace of the name.
\<close>

theorem listed_traces_found:
  assumes "traces_wf traces" and "name \<in> set (TraceSection_get_names traces)"
    and "length (groups (ic_children traces)) \<le> 1"
    and "\<forall>g \<in> set (groups (ic_children traces)). gd_name g \<noteq> name"
  shows "\<exists>r. get_trace_by_name traces name = Inr r \<and> tr_name r = name"
  by (rule get_trace_by_name_listed [OF assms])

theorem listed_traces_found_witness:
  "\<exists>r. get_trace_by_name (container_of (sf_traces ex_sweepfile)) ''in'' = Inr r \<and> tr_name r = ''in''"
  by (rule listed_traces_found; code_simp)


text \<open>
  A trace at the root of the section has one path, its index, and the path leads to the trace
  that the lookup by name returns.
\<close>

theorem root_trace_path:
  assumes "traces_wf traces" and "name \<in> get_name ` set (ic_children traces)"
    and "\<forall>g \<in> set (groups (ic_children traces)). gd_name g \<noteq> name"
  shows "\<exists>i r. get_trace_by_name traces name = Inr r \<and> tr_name r = name
    \<and> get_traceindex_by_name traces name = Inr [i] \<and> get_trace_by_index traces [i] = Inr r"
  by (rule get_trace_by_name_root [OF assms])

theorem root_trace_path_witness:
  "\<exists>i r. get_trace_by_name ex_traces ''s'' = Inr r \<and> tr_name r = ''s''
    \<and> get_traceindex_by_name ex_traces ''s'' = Inr [i] \<and> get_trace_by_index ex_traces [i] = Inr r"
  by (rule root_trace_path; code_simp)

text \<open>
  A type that a reference names is found in the type section, and is the definition of that
  identifier; a reference to an identifier that no definition has goes through an end iterator.
\<close>

theorem typedef_lookup:
  assumes "types_wf types"
  shows "if i \<in> get_id ` set (ic_children types)
    then \<exists>td. get_typedef (Some types) i = Inr td \<and> typedef_wf td \<and> td_id td = i
      \<and> DataTypeDefChunk td \<in> set (ic_children types)
    else get_typedef (Some types) i = Inl (Undefined EndIterator)"
  using get_typedef_found [OF assms] get_typedef_missing [OF assms] by simp

theorem typedef_lookup_witness:
  "(\<exists>td. get_typedef (Some ex_types) 2 = Inr td \<and> typedef_wf td \<and> td_id td = 2)
    \<and> get_typedef (Some ex_types) 9 = Inl (Undefined EndIterator)"
proof -
  have wf: "types_wf ex_types" "2 \<in> get_id ` set (ic_children ex_types)" "9 \<notin> get_id ` set (ic_children ex_types)"
    by code_simp+
  from typedef_lookup [OF wf(1), of 2] typedef_lookup [OF wf(1), of 9] wf(2,3) show ?thesis
    by (auto split: if_splits)
qed

text \<open>
  Appending a property keeps the block well-formed and updates what it maps names to:
  \<open>find\<close> returns the value of the last property of a name, \<open>hasprop\<close> whether there is one.
\<close>

theorem append_prop_updates:
  assumes "block_wf pb" and "append_prop pb p = Inr pb'"
  shows "block_wf pb' \<and> block_map pb' = (block_map pb)(prop_name p := prop_value p)
    \<and> (\<forall>name. PropertyBlock_find pb' name =
          (case block_map pb' name of None \<Rightarrow> Inl (Throw PropertyNotFound) | Some v \<Rightarrow> Inr v))
    \<and> (\<forall>name. PropertyBlock_hasprop pb' name \<longleftrightarrow> block_map pb' name \<noteq> None)"
  using append_prop_wf [OF assms(2,1)] append_prop_map [OF assms] block_map_find by blast

theorem append_prop_updates_witness:
  "\<exists>pb'. append_prop ex_block (ex_nsweeps 1) = Inr pb' \<and> block_wf pb'
    \<and> block_map pb' = (block_map ex_block)(''PSF sweeps'' \<mapsto> PSFInt32Scalar (Some 1))"
proof -
  obtain pb' where pb': "append_prop ex_block (ex_nsweeps 1) = Inr pb'"
    by (simp add: append_prop_def ex_nsweeps_def)
  moreover have "block_wf ex_block"
    by code_simp
  ultimately show ?thesis
    using append_prop_updates [of ex_block "ex_nsweeps 1" pb'] by (auto simp: ex_nsweeps_def)
qed

text \<open>
  Of two properties with one name, \<open>find\<close> returns the value of the second and \<open>findprop\<close> the
  first; for a name that is missing \<open>find\<close> throws, and \<open>findprop\<close> goes through an end iterator.
\<close>

theorem duplicate_property:
  fixes x y :: "32 word" and name missing :: string
  defines "prop \<equiv> \<lambda>w. Property 34 name (Some (PSFInt32Scalar (Some w)))"
  assumes "name \<noteq> missing"
  shows "PropertyBlock_find (block_extend empty_block [prop x, prop y]) name = Inr (PSFInt32Scalar (Some y))
    \<and> rbind (PropertyBlock_findprop (block_extend empty_block [prop x, prop y]) name) (\<lambda>p. Inr (prop_value p))
        = Inr (Some (PSFInt32Scalar (Some x)))
    \<and> PropertyBlock_find (block_extend empty_block [prop x, prop y]) missing = Inl (Throw PropertyNotFound)
    \<and> PropertyBlock_findprop (block_extend empty_block [prop x, prop y]) missing = Inl (Undefined EndIterator)"
  using assms(2)
  by (simp add: prop_def PropertyBlock_find_def PropertyBlock_findprop_def block_extend_def empty_block_def
      prop_pair_def map_find_put map_find_def)

theorem duplicate_property_witness:
  "PropertyBlock_find (block_extend empty_block [Property 34 ''a'' (Some (PSFInt32Scalar (Some 1))),
     Property 34 ''a'' (Some (PSFInt32Scalar (Some 2)))]) ''a'' = Inr (PSFInt32Scalar (Some 2))"
  using duplicate_property [of "''a''" "''b''" 1 2] by simp

section \<open>The Python binding\<close>

text \<open>
  C22. What \<open>get_signal\<close> returns to Python for a stored trace: an array of the numbers or complex numbers,
  an array of dictionaries for structs, \<open>NULL\<close> for integers. An empty signal of numbers throws
  \<open>out_of_range\<close>, structs with a complex or a byte member throw \<open>NotImplemented\<close>.
\<close>

theorem python_signal:
  assumes "simple_stored ds N vss paramtype ptd ps [(ref, td, offset, vs)] \<or>
      windowed_stored ds N vss paramtype ptd ps [(ref, td, offset, vs)] windowsize ntraces ns"
    and "rbind (get_trace_section (ds_psf ds)) (\<lambda>traces. get_trace_by_name traces name) = Inr ref"
    and "\<not> ds_invertstruct ds" and "int_range (int N)"
  shows "\<exists>r. py_get_signal py ds name = Some r \<and> numpy_of py td vs r"
  by (rule stored_signal_to_numpy [OF assms])

theorem python_signal_witness:
  "py_get_signal ex_python (ex_dataset False) ''out'' = Some (Inr (Some (PyDoubles [200, 201])))"
proof -
  have "\<exists>r. py_get_signal ex_python (ex_dataset False) ''out'' = Some r \<and> numpy_of ex_python ex_double (ex_doubles [200, 201]) r"
    by (rule python_signal [where N = 2 and vss = "ex_sweep False" and paramtype = "ex_ref 20 ''time'' 1"
        and ptd = ex_double and ps = "ex_doubles [100, 101]" and ref = "ex_ref 21 ''out'' 1" and offset = 8], rule disjI1; code_simp)
  moreover have "td_datatypeid ex_double = TYPEID_DOUBLE" "PyArray_DOUBLE ex_python = PyDoubles"
    by (simp_all add: ex_double_def ex_python_def typeid_defs)
  ultimately show ?thesis
    by (auto simp: numpy_of_def ex_doubles_def Let_def Cons_eq_map_conv)
qed

text \<open>
  C23. A struct becomes a dictionary whose items are its members, converted, if its type has no complex
  or byte member at any depth; otherwise the conversion throws \<open>NotImplemented\<close>.
\<close>

theorem python_struct:
  assumes "dict_laws py item" and "typedef_wf td" and "td_structdef td = Some sd" and "scalar_full td v"
    and "distinct_members td" and "\<forall>c \<in> set (sd_children sd). CHR 0x00 \<notin> set (td_name c)"
  shows "if python_type td
    then \<exists>d. psfscalar_to_python py v = Inr d \<and>
      (\<forall>k. item d k = (if k \<in> td_name ` set (sd_children sd)
         then (case rbind (struct_member k v) (psfscalar_to_python py) of Inr x \<Rightarrow> Some x | Inl e \<Rightarrow> None)
         else None))
    else psfscalar_to_python py v = Inl (Throw NotImplemented)"
proof (cases "python_type td")
  case True
  with struct_to_dict [OF assms(1-5) _ assms(6)] show ?thesis by simp
next
  case False
  with scalar_to_python_type [OF assms(2,4,5), of py] show ?thesis by (simp add: to_python_by_def)
qed

theorem python_struct_witness:
  "\<exists>d. psfscalar_to_python ex_python (ex_struct_value 7 300) = Inr d
    \<and> ex_item d ''a'' = Some (PyInt 7) \<and> ex_item d ''b'' = Some (PyFloat 300) \<and> ex_item d ''c'' = None"
proof -
  have a: "struct_member ''a'' (ex_struct_value 7 300) = Inr (PSFInt32Scalar (Some 7))"
    and b: "struct_member ''b'' (ex_struct_value 7 300) = Inr (PSFDoubleScalar (Some 300))"
    by code_simp+
  have "python_type ex_struct" "td_name ` set (sd_children (the (td_structdef ex_struct))) = {''a'', ''b''}"
    by code_simp+
  moreover have "if python_type ex_struct
    then \<exists>d. psfscalar_to_python ex_python (ex_struct_value 7 300) = Inr d \<and>
      (\<forall>k. ex_item d k = (if k \<in> td_name ` set (sd_children (the (td_structdef ex_struct)))
         then (case rbind (struct_member k (ex_struct_value 7 300)) (psfscalar_to_python ex_python) of
             Inr x \<Rightarrow> Some x | Inl e \<Rightarrow> None)
         else None))
    else psfscalar_to_python ex_python (ex_struct_value 7 300) = Inl (Throw NotImplemented)"
    by (rule python_struct [OF ex_dict_laws]; code_simp)
  ultimately obtain d where d: "psfscalar_to_python ex_python (ex_struct_value 7 300) = Inr d"
    and items: "\<And>k. ex_item d k = (if k \<in> {''a'', ''b''}
         then (case rbind (struct_member k (ex_struct_value 7 300)) (psfscalar_to_python ex_python) of
             Inr x \<Rightarrow> Some x | Inl e \<Rightarrow> None)
         else None)"
    by (simp only: if_True) blast
  have "ex_item d ''a'' = Some (PyInt 7)" "ex_item d ''b'' = Some (PyFloat 300)" "ex_item d ''c'' = None"
    unfolding items by (simp_all add: a b ex_python_def)
  with d show ?thesis by blast
qed

text \<open>
  C24. With \<open>invertstruct\<close> Python gets a dictionary of arrays, one for each member, with the values of
  that member, if all members are numbers or complex numbers. A member that is an integer has no array:
  the \<open>NULL\<close> that the converter returns for it is stored in the dictionary.
\<close>

theorem python_inverted:
  assumes "dict_laws py item" and "sweep_open ds N vss" and "get_signal_vector ds name = Some (Inr (Some vec))"
    and "ds_invertstruct ds" and "typedef_wf td" and "td_structdef td = Some sd" and "distinct_members td"
    and "pv_init vec = StructScalar (Struct (Some sd) [])" and "\<forall>v \<in> set (pv_elems vec). scalar_full td v"
    and "pv_elems vec \<noteq> []" and "int_range (pv_size vec)"
    and "\<forall>c \<in> set (sd_children sd). td_structdef c = None \<and> CHR 0x00 \<notin> set (td_name c)"
  shows "if \<forall>c \<in> set (sd_children sd). td_datatypeid c \<in> {TYPEID_DOUBLE, TYPEID_COMPLEXDOUBLE}
    then \<exists>d. py_get_signal py ds name = Some (Inr (Some d)) \<and>
      (\<forall>c \<in> set (sd_children sd). \<exists>x vs. item d (td_name c) = Some x \<and> numpy_of py c vs (Inr (Some x))
         \<and> list_all2 (\<lambda>s v. struct_member (td_name c) s = Inr v) (pv_elems vec) vs)
    else py_get_signal py ds name = Some (Inl (Undefined NullPointer))"
proof -
  obtain b m where inverted: "invert True (Some vec) = Inr (VectorStructSignal b (VectorStruct (Some (pv_size vec)) m))"
    and m: "transposed vec sd m"
    using invert_struct [OF assms(5,6,8,9)] by blast
  have signal: "py_get_signal py ds name
      = Some (rbind (vectorstruct_to_python py b (VectorStruct (Some (pv_size vec)) m)) (\<lambda>x. Inr (Some x)))"
    using sweep_get_signal [OF assms(2,3)] assms(4) inverted by (simp add: py_get_signal_def PSFBase_to_numpyarray_def)
  have children: "\<forall>c \<in> set (sd_children sd). typedef_wf c \<and> distinct_members c"
    and names: "distinct (map td_name (sd_children sd))"
    using assms(5-7) by (cases td rule: python_type.cases; auto)+
  show ?thesis
  proof (cases "\<forall>c \<in> set (sd_children sd). td_datatypeid c \<in> {TYPEID_DOUBLE, TYPEID_COMPLEXDOUBLE}")
    case True
    with inverted_to_dict [OF assms(1) m assms(10,11) _ names, of b "Some (pv_size vec)"] children assms(12) signal
    show ?thesis by auto
  next
    case False
    have kinds: "\<forall>c \<in> set (sd_children sd). typedef_wf c \<and> distinct_members c
       \<and> td_datatypeid c \<in> {TYPEID_INT8, TYPEID_INT32, TYPEID_DOUBLE, TYPEID_COMPLEXDOUBLE}"
      using children assms(12)
      by (auto simp: typedef_wf_iff psfdata_size_def typeid_defs split: if_splits)
    from False obtain c where "c \<in> set (sd_children sd)" "td_datatypeid c \<notin> {TYPEID_DOUBLE, TYPEID_COMPLEXDOUBLE}"
      by blast
    with kinds inverted_to_null [OF m assms(10,11) kinds names, of c py b "Some (pv_size vec)"] False signal
    show ?thesis by auto
  qed
qed

theorem python_inverted_witness:
  "py_get_signal ex_python (ex_dataset True) ''s'' = Some (Inl (Undefined NullPointer))"
proof -
  define vec where "vec = PSFVectorT (StructScalar (Struct (td_structdef ex_struct) []))
    [ex_struct_value 7 300, ex_struct_value 8 301]"
  have "if \<forall>c \<in> set (sd_children (the (td_structdef ex_struct))). td_datatypeid c \<in> {TYPEID_DOUBLE, TYPEID_COMPLEXDOUBLE}
    then \<exists>d. py_get_signal ex_python (ex_dataset True) ''s'' = Some (Inr (Some d)) \<and>
      (\<forall>c \<in> set (sd_children (the (td_structdef ex_struct))). \<exists>x vs. ex_item d (td_name c) = Some x
         \<and> numpy_of ex_python c vs (Inr (Some x))
         \<and> list_all2 (\<lambda>s v. struct_member (td_name c) s = Inr v) (pv_elems vec) vs)
    else py_get_signal ex_python (ex_dataset True) ''s'' = Some (Inl (Undefined NullPointer))"
    by (rule python_inverted [OF ex_dict_laws, where N = 2 and vss = "ex_sweep False" and td = ex_struct];
        (unfold vec_def)?; code_simp)
  moreover have "\<not> (\<forall>c \<in> set (sd_children (the (td_structdef ex_struct))). td_datatypeid c \<in> {TYPEID_DOUBLE, TYPEID_COMPLEXDOUBLE})"
    by code_simp
  ultimately show ?thesis by simp
qed

text \<open>
  C25. Calls from Python: whatever methods are called on an object of the class, in whatever order, the
  data set keeps its invariant; once it is closed, each further call leaves it as it is, and raises
  \<open>DataSetNotOpen\<close>, for which there is no translator, but for \<open>close\<close>, which returns.
\<close>

theorem python_calls:
  assumes "py_new disk = (Some ds, r)" and "calls py py_bool ds ms ds'"
  shows "ds_inv ds' \<and> (ds_is_open ds' \<or> py_call py py_bool close_ok ds' m =
    Some (ds', if m = close_method then Returns (Py_None py) else RaisesOther DataSetNotOpen))"
proof -
  have "reachable ds'"
    using calls_reachable [OF assms(2)] py_new_reachable [OF assms(1)] .
  then show ?thesis
    using reachable_inv closed_call [of ds'] by blast
qed

theorem python_calls_witness:
  "\<exists>ds ds'. py_new (Some (enc_file ex_sections)) = (Some ds, Returns ())
    \<and> calls ex_python ex_bool ds [get_signal_names_method, close_method] ds'
    \<and> py_call ex_python ex_bool True ds' (get_signal_method ''out'') = Some (ds', RaisesOther DataSetNotOpen)"
proof -
  obtain ds where "PSFDataSet_new (Some (enc_file ex_sections)) = Inr ds"
    using ex_sections_open by blast
  then have new: "py_new (Some (enc_file ex_sections)) = (Some ds, Returns ())"
    by (simp add: py_new_def)
  define ds' where "ds' = fst (PSFDataSet_close True ds)"
  have closed: "\<not> ds_is_open ds'"
    by (simp add: ds'_def PSFDataSet_close_def PSFFile_close_def Let_def)
  have "calls ex_python ex_bool ds' [] ds'"
    by (rule calls_none)
  then have "calls ex_python ex_bool ds [close_method] ds'"
    by (rule calls_one [rotated, where close_ok = True]) (simp add: ds'_def split_beta Let_def)
  then have calls: "calls ex_python ex_bool ds [get_signal_names_method, close_method] ds'"
    by (rule calls_one [rotated, where close_ok = True]) simp
  from python_calls [OF new calls, of True "get_signal_method ''out''"] closed
  have "py_call ex_python ex_bool True ds' (get_signal_method ''out'') = Some (ds', RaisesOther DataSetNotOpen)"
    by simp
  with new calls show ?thesis by blast
qed

section \<open>Objects and their owners\<close>


text \<open>
  C27. \<open>clone\<close>, which \<open>get_signal\<close> calls for a value outside a sweep: the copy of a scalar, a struct at
  any depth included, is the same value in objects of its own. The copy and the original can be
  deleted in either order: each \<open>delete\<close> takes the objects of the one and leaves the other whole.
\<close>

theorem scalar_clone_independent:
  assumes "owns_scalar h a v A"
  shows "\<exists>b h' B h1 h2. clone h a = Some (Inr (b, h')) \<and> owns_scalar h' b v B \<and> owns_scalar h' a v A
    \<and> set A \<inter> set B = {} \<and> heap.live h' = heap.live h \<union> set B \<and> set B \<inter> heap.live h = {}
    \<and> delete_object h' b = Inr h1 \<and> owns_scalar h1 a v A \<and> heap.live h1 = heap.live h
    \<and> delete_object h' a = Inr h2 \<and> owns_scalar h2 b v B \<and> heap.live h2 = heap.live h' - set A"
proof -
  obtain b h' where clone: "clone h a = Some (Inr (b, h'))"
    using clone_owned [OF assms] by blast
  from clone_independent [OF assms clone] show ?thesis
    using clone by metis
qed

theorem scalar_clone_independent_witness:
  "\<exists>b h' B. clone ex_heap 2 = Some (Inr (b, h')) \<and> owns_scalar h' b (ex_struct_value 7 300) B
    \<and> {2, 0, 1} \<inter> set B = {}"
  using scalar_clone_independent [OF ex_heap_owned] by auto

text \<open>
  C28. Reading a value into an object, for a value of any type: \<open>deserialize\<close> on the heap ends as on
  values, in the same error, or with the value, in objects that were made for it, and after the same
  number of bytes. It has made one object for each member, at every depth. What was there before is not
  touched, even where the end of the image is met.
\<close>

theorem read_value_object:
  assumes "new_scalar td = Inr v0"
  shows "case scalar_deserialize img buf v0 of
      Inl e \<Rightarrow> \<exists>g. read_cell img buf (cell_of v0) h = Some (Inl e, h @ g)
    | Inr (v, n) \<Rightarrow> \<exists>c g B. read_cell img buf (cell_of v0) h = Some (Inr (c, n), h @ g) \<and> owns_cell (h @ g) c v B
        \<and> set B \<subseteq> fresh h (h @ g) \<and> live_count g = type_members td"
proof (cases "scalar_deserialize img buf v0")
  case (Inl e)
  with does_result [OF read_cell_does(1) [OF assms, of h img buf]] show ?thesis by simp
next
  case (Inr x)
  obtain v n where "x = (v, n)" by (cases x)
  with does_result [OF read_cell_does(1) [OF assms, of h img buf]] Inr show ?thesis by (auto split: prod.splits)
qed

theorem read_value_object_witness:
  "(\<exists>c g B. read_cell (enc_value ex_struct (ex_struct_value 7 300)) 0
      (Pointers (td_structdef ex_struct) []) ex_heap = Some (Inr (c, 12), ex_heap @ g)
    \<and> owns_cell (ex_heap @ g) c (ex_struct_value 7 300) B)
    \<and> (\<exists>g e. read_cell (take 8 (enc_value ex_struct (ex_struct_value 7 300))) 0
      (Pointers (td_structdef ex_struct) []) ex_heap = Some (Inl e, ex_heap @ g))"
proof -
  let ?v0 = "StructScalar (Struct (td_structdef ex_struct) [])"
  have v0: "new_scalar ex_struct = Inr ?v0"
    and full: "scalar_deserialize (enc_value ex_struct (ex_struct_value 7 300)) 0 ?v0 = Inr (ex_struct_value 7 300, 12)"
    by code_simp+
  have cut: "case scalar_deserialize (take 8 (enc_value ex_struct (ex_struct_value 7 300))) 0 ?v0 of
      Inl e \<Rightarrow> True | Inr x \<Rightarrow> False"
    by code_simp
  from read_value_object [OF v0, of "enc_value ex_struct (ex_struct_value 7 300)" 0 ex_heap] full
    read_value_object [OF v0, of "take 8 (enc_value ex_struct (ex_struct_value 7 300))" 0 ex_heap] cut
  show ?thesis
    by (auto simp: cell_of_def split: sum.splits)
qed

text \<open>
  C29. \<open>get_signal\<close> with \<open>invertstruct\<close>, on the heap: the \<open>VectorStruct\<close> and the vectors of its members
  are new objects, all objects of the vector of structs are deleted, and no other. The vector of a
  member holds its values, but where these are structs with members, it holds pointers to what was
  deleted: to delete such a vector is a use after free, and any other can be deleted.
\<close>

theorem inverted_objects:
  assumes "owns_vector h a w A" and "invert True (Some w) = Inr (VectorStructSignal b (VectorStruct n m))"
  shows "\<exists>vs h' ps. heap_invert h a = Inr (vs, h') \<and> lookup h' vs = Some (VectorStructObject n ps)
    \<and> same_keys (\<lambda>p x. inverted h' p x \<and> delete_object h' p =
        (if has_members x then Inl (Undefined UseAfterFree) else Inr (release h' p))) ps m
    \<and> distinct (vs # map snd ps) \<and> length h \<le> vs
    \<and> (\<forall>x < length h. lookup h' x = (if x \<in> set A then None else lookup h x))"
proof -
  obtain vs h' ps where h': "heap_invert h a = Inr (vs, h')" "lookup h' vs = Some (VectorStructObject n ps)"
    "same_keys (inverted h') ps m" "distinct (vs # map snd ps)" "length h \<le> vs"
    "\<forall>x < length h. lookup h' x = (if x \<in> set A then None else lookup h x)"
    using heap_invert_result [OF assms] by blast
  have "same_keys (\<lambda>p x. inverted h' p x \<and> delete_object h' p =
      (if has_members x then Inl (Undefined UseAfterFree) else Inr (release h' p))) ps m"
    by (rule same_keys_mono [OF h'(3)]) (simp only: delete_inverted simp_thms)
  with h' show ?thesis
    by (intro exI conjI)
qed

theorem inverted_objects_witness:
  "\<exists>vs h' p q. heap_invert ex_nested_heap 4 = Inr (vs, h')
    \<and> lookup h' vs = Some (VectorStructObject (Some 1) [(''S'', p), (''d'', q)])
    \<and> delete_object h' p = Inl (Undefined UseAfterFree) \<and> delete_object h' q = Inr (release h' q)"
proof -
  define ws where "ws = PSFVectorT (StructScalar (Struct (td_structdef ex_struct) [])) [ex_struct_value 7 300]"
  define wd where "wd = PSFVectorT (PSFDoubleScalar (Some 0)) [PSFDoubleScalar (Some 5)]"
  have "invert True (Some ex_nested_vector)
      = Inr (VectorStructSignal True (VectorStruct (Some 1) [(''S'', ws), (''d'', wd)]))"
    unfolding ws_def wd_def by code_simp
  from inverted_objects [OF ex_nested_owned this] obtain vs h' ps where
    h': "heap_invert ex_nested_heap 4 = Inr (vs, h')" "lookup h' vs = Some (VectorStructObject (Some 1) ps)"
    and ps: "same_keys (\<lambda>p x. inverted h' p x \<and> delete_object h' p =
        (if has_members x then Inl (Undefined UseAfterFree) else Inr (release h' p))) ps [(''S'', ws), (''d'', wd)]"
    by (elim exE conjE) (rule that)
  have "has_members ws" "\<not> has_members wd"
    unfolding ws_def wd_def by code_simp+
  with ps obtain p q where "ps = [(''S'', p), (''d'', q)]" "delete_object h' p = Inl (Undefined UseAfterFree)"
    "delete_object h' q = Inr (release h' q)"
    by (auto simp: same_keys_def list_all2_Cons2)
  with h' show ?thesis by blast
qed

text \<open>
  C30. Reading a block of properties on the heap: the reader ends as the model's does. After an error
  nothing that was there is touched. Otherwise the block holds its properties, each with a scalar of its
  own, in the list and in the map; the destructor of the block frees the scalars of the list, and leaves
  one object for each property that was read, those that the map pointed to.
\<close>

theorem block_memory:
  "case PropertyBlock_deserialize empty_block img buf of
      Inl e \<Rightarrow> \<exists>g. heap_PropertyBlock_deserialize empty_block_object img buf h = Some (Inl e, h @ g)
    | Inr (pb, n) \<Rightarrow> \<exists>block g h2. heap_PropertyBlock_deserialize empty_block_object img buf h = Some (Inr (block, n), h @ g)
        \<and> bo_block block = pb \<and> block_holds (h @ g) block
        \<and> delete_all destructor (h @ g) (PropertyBlock_destructor block) = Inr h2
        \<and> (\<forall>x < length h. lookup h2 x = lookup h x) \<and> live_count h2 = live_count h + length (m_proplist pb)"
proof (cases "PropertyBlock_deserialize empty_block img buf")
  case (Inl e)
  with does_result [OF makesD [OF heap_PropertyBlock_deserialize_makes, of h img buf]] show ?thesis by simp
next
  case (Inr x)
  obtain pb n where x: "x = (pb, n)" by (cases x)
  with does_result [OF makesD [OF heap_PropertyBlock_deserialize_makes, of h img buf]] Inr obtain block g where
    "heap_PropertyBlock_deserialize empty_block_object img buf h = Some (Inr (block, n), h @ g)"
    "bo_block block = pb" "block_holds (h @ g) block"
    "made h (h @ g) (PropertyBlock_destructor block) (length (m_proplist pb))"
    by auto
  with made_deleted [OF this(4)] Inr x show ?thesis by auto
qed

theorem block_memory_witness:
  "\<exists>block n h1 h2. heap_PropertyBlock_deserialize empty_block_object (enc_block ex_block @ enc_int 16) 0 [] = Some (Inr (block, n), h1)
    \<and> block_holds h1 block \<and> bo_block block = ex_block
    \<and> delete_all destructor h1 (PropertyBlock_destructor block) = Inr h2 \<and> live_count h2 = 2"
proof -
  have "seg (enc_block ex_block @ enc_int 16) 0 (enc_block ex_block @ enc_int 16)"
    by (simp add: seg_def)
  moreover have "block_ok ex_block" "\<not> property_ischunk 16" "int_range 16" "length (m_proplist ex_block) = 2"
    by code_simp+
  ultimately have "PropertyBlock_deserialize empty_block (enc_block ex_block @ enc_int 16) 0
      = Inr (ex_block, int (length (enc_block ex_block)))" "length (m_proplist ex_block) = 2"
    by (simp_all add: PropertyBlock_deserialize_enc_block [where t = 16])
  with block_memory [of "enc_block ex_block @ enc_int 16" 0 "[]"] show ?thesis
    by fastforce
qed

text \<open>
  C31. The memory of a file, for any content: \<open>PSFFile::open\<close> on the heap, where every section, chunk,
  struct, property and value is made by \<open>new\<close>, ends as the model's does. Where it throws, all that was
  there before is as it was. Where it returns, the file is that of the model; its destructor deletes the
  objects of the file, each once, and touches nothing else; what is left afterwards is one scalar for each
  property of each block in the file, and the members that another member of the same name displaced.
\<close>

theorem file_memory:
  "case PSFFile_open disk new_psffile of
      Inl e \<Rightarrow> \<exists>g. heap_PSFFile_open disk new_file_object h = Some (Inl e, h @ g)
    | Inr (psf, img) \<Rightarrow> \<exists>f g h2. heap_PSFFile_open disk new_file_object h = Some (Inr (f, img), h @ g) \<and> fo_file f = psf
        \<and> destroy_file (h @ g) f = Inr h2 \<and> (\<forall>x < length h. lookup h2 x = lookup h x)
        \<and> live_count h2 = live_count h + properties_in (file_blocks psf) + lost_values psf"
proof (cases "PSFFile_open disk new_psffile")
  case (Inl e)
  with does_result [OF heap_PSFFile_open_does [of h disk]] show ?thesis by simp
next
  case (Inr x)
  obtain psf img where x: "x = (psf, img)" by (cases x)
  with does_result [OF heap_PSFFile_open_does [of h disk]] Inr obtain f g where
    "heap_PSFFile_open disk new_file_object h = Some (Inr (f, img), h @ g)" "file_read h psf f (h @ g)"
    by auto
  with file_destroyed [OF this(2)] Inr x show ?thesis by (auto simp: file_read_def)
qed

theorem file_memory_witness:
  "\<exists>psf f h1 h2. PSFFile_open (Some (enc_file ex_sections)) new_psffile = Inr (psf, enc_file ex_sections)
    \<and> heap_PSFFile_open (Some (enc_file ex_sections)) new_file_object [] = Some (Inr (f, enc_file ex_sections), h1)
    \<and> fo_file f = psf \<and> destroy_file h1 f = Inr h2 \<and> 4 \<le> live_count h2"
proof -
  obtain psf where psf: "PSFFile_open (Some (enc_file ex_sections)) new_psffile = Inr (psf, enc_file ex_sections)"
    "m_nonsweepvalues psf = Some (container_of (map NonSweepValueChunk ex_values))"
    using ex_sections_psf by blast
  have "properties_in (children_blocks (ic_children (container_of (map NonSweepValueChunk ex_values)))) = 4"
    by code_simp
  then have "4 \<le> properties_in (file_blocks psf)"
    by (simp add: file_blocks_def option_blocks_def psf(2))
  with file_memory [of "Some (enc_file ex_sections)" "[]"] psf(1) show ?thesis
    by fastforce
qed

text \<open>
  C32. What Python does with the objects that it is given. The scalar of \<open>get_signal\<close> is converted and
  stays: it is lost. A vector of \<open>get_signal\<close> is deleted with all that it owns, unless the conversion
  throws. The vector of \<open>get_sweep_values\<close> stays under its array. What is converted is the value.
\<close>

theorem python_memory:
  assumes "owns_scalar h s v S" and "owns_vector h a w A"
  shows "heap_PSFBase_to_numpyarray py (Some s) h = Some (PSFBase_to_numpyarray py (ScalarSignal v), h)
    \<and> heap_PSFBase_to_numpyarray py (Some a) h = Some (PSFBase_to_numpyarray py (VectorSignal (Some w)),
        case PSFBase_to_numpyarray py (VectorSignal (Some w)) of Inl e \<Rightarrow> h | Inr r \<Rightarrow> release_all h A)
    \<and> heap_PSFVector_to_numpyarray py (Some a) h = Some (PSFVector_to_numpyarray py (Some w),
        case PSFVector_to_numpyarray py (Some w) of Inl e \<Rightarrow> h
        | Inr r \<Rightarrow> if scalar_typeid (pv_init w) = TYPEID_STRUCT then release_all h A else h)"
  by (intro conjI heap_scalar_to_numpyarray(1) [OF assms(1)] heap_vector_to_python [OF assms(2)])

theorem python_memory_witness:
  "heap_PSFBase_to_numpyarray ex_python (Some 3) ex_nested_heap = Some (Inr (Some (PyFloat 5)), ex_nested_heap)
    \<and> (\<exists>r. heap_PSFBase_to_numpyarray ex_python (Some 4) ex_nested_heap
        = Some (Inr (Some r), release_all ex_nested_heap [4, 2, 0, 1, 3]))"
proof -
  have "owns_cell ex_nested_heap (Plain (PSFDoubleScalar (Some 5))) (PSFDoubleScalar (Some 5)) []"
    by (rule owns_plain) (simp add: typeid_defs)
  then have "owns_scalar ex_nested_heap 3 (PSFDoubleScalar (Some 5)) [3]"
    by (auto simp: owns_scalar_def ex_nested_heap_def ex_heap_def lookup_def)
  note memory = python_memory [OF this ex_nested_owned, of ex_python]
  have "PSFBase_to_numpyarray ex_python (ScalarSignal (PSFDoubleScalar (Some 5))) = Inr (Some (PyFloat 5))"
    by code_simp
  moreover have "case PSFBase_to_numpyarray ex_python (VectorSignal (Some ex_nested_vector)) of
      Inr (Some r) \<Rightarrow> True | _ \<Rightarrow> False"
    by code_simp
  ultimately show ?thesis
    using memory by (auto split: sum.splits option.splits)
qed

text \<open>
  C33. A signal that was inverted: the converter gives what the model's does. It deletes the vectors of
  the members as it comes to them, all of them where nothing throws, and never the \<open>VectorStruct\<close>
  itself.
\<close>

theorem python_inverted_memory:
  assumes "owns_vector h a w A" and "invert True (Some w) = Inr (VectorStructSignal b (VectorStruct n m))"
  shows "\<exists>vs h1 h2 ps k. heap_invert h a = Inr (vs, h1)
    \<and> heap_PSFBase_to_numpyarray py (Some vs) h1
        = Some (PSFBase_to_numpyarray py (VectorStructSignal b (VectorStruct n m)), h2)
    \<and> h2 = release_all h1 (take k (map snd ps)) \<and> lookup h2 vs = Some (VectorStructObject n ps) \<and> length h \<le> vs
    \<and> map fst ps = map fst m
    \<and> (\<forall>x. PSFBase_to_numpyarray py (VectorStructSignal b (VectorStruct n m)) = Inr x \<longrightarrow> k = length ps)"
  by (rule heap_inverted_to_numpyarray [OF assms])

theorem python_inverted_memory_witness:
  "\<exists>vs h1 h2. heap_invert ex_nested_heap 4 = Inr (vs, h1)
    \<and> heap_PSFBase_to_numpyarray ex_python (Some vs) h1 = Some (Inl (Undefined UseAfterFree), h2) \<and> lookup h2 vs \<noteq> None"
proof -
  define ws where "ws = PSFVectorT (StructScalar (Struct (td_structdef ex_struct) [])) [ex_struct_value 7 300]"
  define wd where "wd = PSFVectorT (PSFDoubleScalar (Some 0)) [PSFDoubleScalar (Some 5)]"
  have "invert True (Some ex_nested_vector)
      = Inr (VectorStructSignal True (VectorStruct (Some 1) [(''S'', ws), (''d'', wd)]))"
    unfolding ws_def wd_def by code_simp
  from python_inverted_memory [OF ex_nested_owned this, of ex_python] obtain vs h1 h2 ps where
    "heap_invert ex_nested_heap 4 = Inr (vs, h1)"
    "heap_PSFBase_to_numpyarray ex_python (Some vs) h1
      = Some (PSFBase_to_numpyarray ex_python (VectorStructSignal True (VectorStruct (Some 1) [(''S'', ws), (''d'', wd)])), h2)"
    "lookup h2 vs = Some (VectorStructObject (Some 1) ps)"
    by (elim exE conjE) (rule that)
  moreover have "PSFBase_to_numpyarray ex_python (VectorStructSignal True (VectorStruct (Some 1) [(''S'', ws), (''d'', wd)]))
      = Inl (Undefined UseAfterFree)"
    unfolding ws_def wd_def by code_simp
  ultimately show ?thesis
    by (intro exI conjI) (assumption | simp)+
qed

text \<open>
  C34. A step of the iterator over a simple sweep: the \<open>SweepValue\<close>, which already has a vector for each
  trace, gets one more for each, and reads into those that it had. The new vectors stay as \<open>resize\<close> left
  them.
\<close>

theorem iterator_step_vectors:
  assumes "it_psf it = Some psf" and "it_filter it = Some filt" and "it_v it = Some v"
    and "lookup h v = Some (SweepValueObj False (Some p) as)" and "length as = length filt"
    and "distinct (v # p # as)" and "vectors_at h as ws0" and "lookup h p = Some (VectorObj pw)"
    and "GET_INT32 img (it_nextbuf it) = Inr w" and "sint w \<noteq> CHUNKID_VALUESECTIONEND"
    and "SweepValueIterator_increment img it h = Some (Inr it', h')"
    and "create_data_vectors (m_types psf) 1 filt = Inr ws"
  shows "it_buf it' = it_nextbuf it \<and> (\<exists>as'. lookup h' v = Some (SweepValueObj False (Some p) (as @ as'))
    \<and> length as' = length filt \<and> vectors_at h' as' ws \<and> set as' \<inter> heap.live h = {})"
proof -
  have "run_bind (SweepValue_deserialize psf img (it_nextbuf it) 1 filt v) (\<lambda>n.
      run_lift (Inr (it\<lparr>it_buf := it_nextbuf it, it_nextbuf := it_nextbuf it + n\<rparr>))) h = Some (Inr it', h')"
    using assms(1-3,9-11)
    by (simp add: SweepValueIterator_increment_def SweepValueIterator_deserialize_def Let_def run_bind_assoc run_simps)
  moreover have "SweepValue_deserialize psf img (it_nextbuf it) 1 filt v h
      = deserialize_simple psf img (it_nextbuf it) 1 filt v h"
    by (simp add: SweepValue_deserialize_def run_bind_SweepValue [OF assms(4)])
  ultimately obtain k where run: "deserialize_simple psf img (it_nextbuf it) 1 filt v h = Some (Inr k, h')"
    and "it_buf it' = it_nextbuf it"
    by (auto simp: run_bind_eq_Some run_lift)
  with step_makes_vectors [OF assms(4-8) run assms(12)] show ?thesis
    by blast
qed

theorem iterator_step_vectors_witness:
  "\<exists>it h' as'. SweepValueIterator_increment ex_image ex_iterator ex_sweep_heap = Some (Inr it, h')
    \<and> lookup h' 2 = Some (SweepValueObj False (Some 0) ([1] @ as')) \<and> length as' = 1"
proof -
  obtain it h' where step: "SweepValueIterator_increment ex_image ex_iterator ex_sweep_heap = Some (Inr it, h')"
    using ex_iterator_step by blast
  from iterator_step_vectors [OF _ _ _ _ _ _ _ _ _ _ step, where psf = ex_psf and filt = "[ex_ref 21 ''out'' 1]"
      and v = 2 and p = 0 and as = "[1]"
      and pw = "PSFVectorT (PSFDoubleScalar (Some 0)) (ex_doubles [100])"
      and ?ws0.0 = "[PSFVectorT (PSFDoubleScalar (Some 0)) (ex_doubles [200])]" and w = 16
      and ws = "[PSFVectorT (PSFDoubleScalar (Some 0)) (ex_doubles [0])]"]
  have "\<exists>as'. lookup h' 2 = Some (SweepValueObj False (Some 0) ([1] @ as')) \<and> length as' = length [ex_ref 21 ''out'' 1]"
    by (metis ex_iterator_at)
  with step show ?thesis by auto
qed

section \<open>Numbers as text\<close>

text \<open>
  C35. The text of an \<open>int\<close>: \<open>tostring\<close> writes it in decimal, and a string scalar of that text converts
  back to it, to \<open>int\<close> and, through the nearest double, to \<open>double\<close>; the double converts to the \<open>int\<close>.
\<close>

theorem int_text_roundtrip:
  "\<exists>s d. tostring (PSFInt32Scalar (Some w)) = Inr s
    \<and> scalar_to_int (PSFStringScalar s) = Inr (sint w)
    \<and> scalar_to_double (PSFStringScalar s) = Inr d \<and> scalar_to_double (PSFInt32Scalar (Some w)) = Inr d
    \<and> scalar_to_int (PSFDoubleScalar (Some d)) = Inr (sint w)"
  using tostring_int [of w] double_to_int_of_int [of "sint w"]
  by (simp add: tostring_def)


section \<open>The layout of the values\<close>

text \<open>
  C37. The layout of a simple sweep: where the identifiers of the traces are distinct, each trace has
  an offset, and the traces lie one after the other in the point, each with room for its value,
  within the size that the section computes.
\<close>

theorem simple_layout_disjoint:
  assumes "create_valueoffsetmap psf False = Inr (m, valuesize)" and "m_traces psf = Some traces"
    and "distinct (map tr_id (layout_refs (m_types psf) (ic_children traces)))"
  shows "placed (m_types psf) 0 m (layout_refs (m_types psf) (ic_children traces)) 0 valuesize"
  using assms simple_layout_placed [of "m_types psf" "ic_children traces" 0 0 "[]" m valuesize]
  by (simp add: create_valueoffsetmap_def get_trace_section_def deref_def)

theorem simple_layout_disjoint_witness:
  "placed (sf_typesection ex_sweepfile) 0 [(21, 8), (22, 24), (23, 36)] (sf_refs ex_sweepfile) 0 44"
proof -
  have "create_valueoffsetmap (sf_psf ex_sweepfile) False = Inr ([(21, 8), (22, 24), (23, 36)], 44)"
    "distinct (map tr_id (layout_refs (m_types (sf_psf ex_sweepfile)) (ic_children (container_of (sf_traces ex_sweepfile)))))"
    by code_simp+
  from simple_layout_disjoint [OF this(1) _ this(2)] show ?thesis
    by (simp add: sf_psf_def sf_refs_def)
qed

text \<open>
  The layout of a sweep in windows: the windows of the traces, in the order of the groups, lie
  one after the other, each of the size that the header gives.
\<close>

theorem windowed_layout_disjoint:
  assumes "create_valueoffsetmap psf True = Inr (m, valuesize)" and "m_traces psf = Some traces"
    and "header_int psf ''PSF window size'' = Inr windowsize"
    and "distinct (map tr_id (concat (map gd_children (groups (ic_children traces)))))"
  shows "placed (m_types psf) windowsize m (concat (map gd_children (groups (ic_children traces)))) 0 valuesize"
  using assms windowed_layout_placed [of "m_types psf" windowsize "ic_children traces" 0 0 "[]" m valuesize]
  by (simp add: create_valueoffsetmap_def get_trace_section_def deref_def)

theorem windowed_layout_disjoint_witness:
  "placed (Some ex_types) 24 [(21, 0), (22, 24)] [ex_ref 21 ''out'' 1, ex_ref 22 ''s'' 2] 0 48"
proof -
  have "create_valueoffsetmap ex_wpsf True = Inr ([(21, 0), (22, 24)], 48)"
    "m_traces ex_wpsf = Some (ex_container [GroupDefChunk ex_wgroup])"
    "header_int ex_wpsf ''PSF window size'' = Inr 24"
    "distinct (map tr_id (concat (map gd_children (groups (ic_children (ex_container [GroupDefChunk ex_wgroup]))))))"
    by code_simp+
  from windowed_layout_disjoint [OF this] show ?thesis
    by (simp add: ex_wpsf_layout)
qed

section \<open>Types and values\<close>

text \<open>
  A type definition that was read: the size of a struct is the sum of the sizes of its members
  at every depth, a type that is not a struct has the size of its identifier, and the size is
  smaller than the description of the type in the file.
\<close>

theorem typedef_read_wf:
  assumes "DataTypeDef_deserialize img buf = Inr (td, n)"
  shows "typedef_wf td \<and> 0 \<le> td_datasize td \<and> td_datasize td + 4 \<le> n \<and> buf + n + 4 \<le> int (length img)"
  using DataTypeDef_deserialize_wf(1) [OF assms] DataTypeDef_datasize_bound(1) [OF assms]
    DataTypeDef_deserialize_progress [OF assms] by simp

theorem typedef_read_wf_witness:
  "\<exists>n. DataTypeDef_deserialize (enc_typedef ex_struct @ enc_int 19) 0 = Inr (ex_struct, n)
    \<and> typedef_wf ex_struct \<and> 12 + 4 \<le> n"
proof -
  have "\<exists>n. DataTypeDef_deserialize (enc_typedef ex_struct @ enc_int 19) 0 = Inr (ex_struct, n)"
    by (intro exI DataTypeDef_deserialize_enc [where t = 19]) (code_simp | simp add: seg_def)+
  moreover have "td_datasize ex_struct = 12"
    by (simp add: ex_struct_def)
  ultimately show ?thesis
    using typedef_read_wf by fastforce
qed

text \<open>
  C38. A type definition, written after the format with the word that follows, is read back as it
  was, at every depth of nested structs, and the reader consumes exactly its bytes.
\<close>

theorem typedef_roundtrip:
  assumes "typedef_ok td" and "\<not> property_ischunk t" and "int_range t"
  shows "DataTypeDef_deserialize (before @ enc_typedef td @ enc_int t @ after) (int (length before))
    = Inr (td, int (length (enc_typedef td)))"
  using assms seg_intro [of before "enc_typedef td @ enc_int t" after]
  by (intro DataTypeDef_deserialize_enc [where t = t]) simp_all

theorem typedef_roundtrip_witness:
  "DataTypeDef_deserialize ([1, 2, 3, 4] @ enc_typedef ex_struct @ enc_int 16 @ [5]) 4
    = Inr (ex_struct, int (length (enc_typedef ex_struct)))"
proof -
  have "typedef_ok ex_struct" "\<not> property_ischunk 16" "int_range 16"
    by code_simp+
  from typedef_roundtrip [OF this, of "[1, 2, 3, 4]" "[5]"] show ?thesis
    by simp
qed

text \<open>
  Groups of traces, with the indexes of names and identifiers that the reader builds, are read
  back as they were.
\<close>

theorem group_roundtrip:
  assumes "group_ok g" and "\<not> property_ischunk t" and "int_range t"
  shows "GroupDef_deserialize (before @ enc_group g @ enc_int t @ after) (int (length before))
    = Inr (g, int (length (enc_group g)))"
  using assms seg_intro [of before "enc_group g @ enc_int t" after]
  by (intro GroupDef_deserialize_enc [where t = t]) simp_all

theorem group_roundtrip_witness:
  "GroupDef_deserialize ([1, 2, 3, 4] @ enc_group ex_wgroup @ enc_int 19 @ []) 4
    = Inr (ex_wgroup, int (length (enc_group ex_wgroup)))"
proof -
  have "group_ok ex_wgroup" "\<not> property_ischunk 19" "int_range 19"
    by code_simp+
  from group_roundtrip [OF this, of "[1, 2, 3, 4]" "[]"] show ?thesis
    by simp
qed

text \<open>
  The value of a type can be read wherever the file has its bytes; the value has the type and a
  determinate value for every member; the bytes consumed are the size of the type, less eight for
  each complex number inside a struct.
\<close>

theorem value_read:
  assumes "typedef_wf td" and "new_scalar td = Inr v0" and "0 \<le> buf" and "buf + td_datasize td \<le> int (length img)"
  shows "\<exists>v. DataTypeDef_deserialize_data td v0 img buf
      = Inr (v, if td_datatypeid td = TYPEID_STRUCT then td_datasize td - 8 * complex_leaves td else td_datasize td)
    \<and> scalar_full td v"
  using deserialize_data_total [OF assms] deserialize_data_full [OF assms(1,2)] by (force simp: member_bytes_def)

theorem value_read_witness:
  "\<exists>v. DataTypeDef_deserialize_data ex_struct (StructScalar (Struct (td_structdef ex_struct) [])) (replicate 20 0) 4
      = Inr (v, 12)
    \<and> scalar_full ex_struct v"
proof -
  have "typedef_wf ex_struct" "new_scalar ex_struct = Inr (StructScalar (Struct (td_structdef ex_struct) []))"
    "(0 :: int) \<le> 4" "4 + td_datasize ex_struct \<le> int (length (replicate 20 (0 :: 8 word)))"
    by code_simp+
  from value_read [OF this] show ?thesis
    by (simp add: ex_struct_def typeid_defs)
qed

text \<open>
  C39. The value of a type, written after the format, is read back as it was, and the reader consumes
  exactly its bytes; a complex number may be the type itself but no member of a struct.
\<close>

theorem value_roundtrip:
  assumes "value_ok td v" and "new_scalar td = Inr v0"
  shows "DataTypeDef_deserialize_data td v0 (before @ enc_value td v @ after) (int (length before))
    = Inr (v, td_datasize td)"
  using deserialize_data_enc [OF _ _ assms(2) _ _ seg_intro] value_ok_length [OF assms(1)] assms(1)
  by (simp add: value_ok_def)

theorem value_roundtrip_witness:
  "DataTypeDef_deserialize_data ex_struct (StructScalar (Struct (td_structdef ex_struct) []))
     ([9] @ enc_value ex_struct (ex_struct_value 7 300) @ []) 1 = Inr (ex_struct_value 7 300, 12)"
proof -
  have "value_ok ex_struct (ex_struct_value 7 300)"
    "new_scalar ex_struct = Inr (StructScalar (Struct (td_structdef ex_struct) []))"
    by code_simp+
  from value_roundtrip [OF this, of "[9]" "[]"] show ?thesis
    by (simp add: ex_struct_def)
qed

text \<open>
  A complex number that is a member of a struct is not read: \<open>PSFComplexDoubleScalar::deserialize\<close>
  takes eight of its sixteen bytes, so that the imaginary part stays zero and whatever follows the
  member is read eight bytes too early.
\<close>

theorem complex_member_misread:
  "DataTypeDef_deserialize_data (ex_complex_pair) (StructScalar (Struct (td_structdef ex_complex_pair) []))
     (enc64 1 @ enc64 2 @ enc64 3) 0
   = Inr (StructScalar (Struct (td_structdef ex_complex_pair)
       [(''d'', PSFDoubleScalar (Some 2)), (''z'', PSFComplexDoubleScalar 1 0)]), 16)
   \<and> td_datasize ex_complex_pair = 24"
  by code_simp

section \<open>The encoding\<close>

text \<open>
  The words of the file are big-endian: \<open>GET_INT32\<close> returns \<open>w\<close> exactly where the four bytes of
  \<open>w\<close> stand in the file, most significant first, and \<open>GET_DOUBLE\<close> the eight bytes of a double.
\<close>

theorem words_big_endian:
  "(GET_INT32 img buf = Inr w \<longleftrightarrow> seg img buf [byte_of 3 w, byte_of 2 w, byte_of 1 w, byte_of 0 w])
    \<and> (GET_DOUBLE img buf = Inr d \<longleftrightarrow> seg img buf (map (\<lambda>i. byte_of i d) [7, 6, 5, 4, 3, 2, 1, 0]))"
  using GET_INT32_iff [of img buf w] GET_DOUBLE_iff [of img buf d] by (simp add: enc32_def enc64_def)



text \<open>
  C40. A block of properties is read back as it was, up to the word that follows, which is no marker of
  a property.
\<close>

theorem block_roundtrip:
  assumes "block_ok pb" and "\<not> property_ischunk t" and "int_range t"
  shows "PropertyBlock_deserialize empty_block (before @ enc_block pb @ enc_int t @ after) (int (length before))
    = Inr (pb, int (length (enc_block pb)))"
  using assms seg_intro [of before "enc_block pb @ enc_int t" after]
  by (intro PropertyBlock_deserialize_enc_block [where t = t]) simp_all

theorem block_roundtrip_witness:
  "PropertyBlock_deserialize empty_block ([1] @ enc_block ex_block @ enc_int 16 @ []) 1
    = Inr (ex_block, int (length (enc_block ex_block)))"
proof -
  have "block_ok ex_block" "\<not> property_ischunk 16" "int_range 16"
    by code_simp+
  from block_roundtrip [OF this, of "[1]" "[]"] show ?thesis
    by simp
qed

text \<open>
  The table of contents: each number of a section is found at the offset of its last entry, and
  no other number is.
\<close>

theorem toc_roundtrip:
  assumes "img = body @ enc_toc entries @ bytes_of_string ''Clarissa'' @ enc32 (word_of_nat (length body))"
    and "int (length img) < 2 ^ 31" and "entries \<noteq> []"
  shows "\<exists>sections. read_toc img (int (length img)) = Inr sections
    \<and> (\<forall>k. toc_offset sections k = map_of (rev (map (\<lambda>(n, offset). (sint n, offset)) entries)) k)"
  by (rule read_toc_enc [OF assms])

theorem toc_roundtrip_witness:
  "\<exists>sections. read_toc (replicate 12 0 @ enc_toc [(0, 4), (1, 8)] @ bytes_of_string ''Clarissa'' @ enc32 12) 40 = Inr sections
    \<and> toc_offset sections 1 = Some 8 \<and> toc_offset sections 2 = None"
proof -
  define img where "img = replicate 12 (0 :: 8 word) @ enc_toc [(0, 4), (1, 8)] @ bytes_of_string ''Clarissa'' @ enc32 12"
  have "img = replicate 12 0 @ enc_toc [(0, 4), (1, 8)] @ bytes_of_string ''Clarissa''
      @ enc32 (word_of_nat (length (replicate 12 (0 :: 8 word))))"
    by (simp add: img_def)
  moreover have len: "int (length img) = 40"
    by (simp add: img_def)
  ultimately have "\<exists>sections. read_toc img (int (length img)) = Inr sections
    \<and> (\<forall>k. toc_offset sections k = map_of (rev (map (\<lambda>(n :: 32 word, offset). (sint n, offset)) [(0, 4), (1, 8)])) k)"
    by (intro toc_roundtrip [where body = "replicate 12 0"]) simp_all
  then show ?thesis
    unfolding len unfolding img_def by auto
qed

end
